(* ===== verification/Prelude.thy ===== *)
theory Prelude
  imports Main "HOL-Library.Word" "HOL-Library.AList"
begin

text \<open>
  What every component of the model shares: the machine integers of the Go code, its error values
  and panics, Go's built-in map as an association list with its contract, and the collections of
  facts about word arithmetic the address computations need.
\<close>

unbundle bit_operations_syntax

section \<open>Types\<close>

text \<open>Go's fixed-width integers. \<open>uint64\<close> is the type of every address and size of the debugger.\<close>

type_synonym u64 = "64 word"
type_synonym u32 = "32 word"
type_synonym byte = "8 word"

text \<open>
  The error values the modelled code returns: the variables of \<^verbatim>\<open>debugger/errors.go\<close>,
  \<^verbatim>\<open>emulator/errors.go\<close> and \<^verbatim>\<open>socket/errors.go\<close>, the ones of Go's \<^verbatim>\<open>io/fs\<close>, \<^verbatim>\<open>io\<close> and \<^verbatim>\<open>errors\<close>
  packages it uses, a task status used as an error, and \<open>Foreign\<close> for an error produced by
  code outside the repository (the emulator, the host's network and file system).
\<close>

datatype goerr =
    ErrModuleNotFound | ErrSymbolNotFound | ErrHookCallbackType | ErrCallingUnsupported
  | ErrArgumentInvalid | ErrEmulatorStop | ErrAddressInvalid | ErrArchUnsupported
  | FsErrInvalid | FsErrExist | FsErrNotExist | FsErrClosed
  | ErrUnsupported | ErrEOF
  | ErrNotBind | ErrAlreadyBind | ErrNotListen | ErrAlreadyListen | ErrNotConnect | ErrAlreadyConnect
  | ErrStatus nat
  | Foreign nat

text \<open>
  The run-time panics the modelled code can raise. \<open>NoReturn\<close> is no panic of Go: it stands for a
  call that never comes back.
\<close>

datatype panic = NilDeref | SliceBounds | DivideByZero | IndexRange | PanicMsg string | PanicErr goerr | NoReturn

text \<open>
  A call that may panic ends either with a result or with a panic; in both cases in some state,
  because a caller may recover and go on with the state the panic left behind.
\<close>

datatype ('r, 's) outcome = Ret 'r 's | Panic panic 's

type_synonym 'a res = "goerr + 'a"

section \<open>Go's map\<close>

text \<open>
  A Go map is an association list with distinct keys. Reading a missing key of a map with integer
  values gives the zero value.
\<close>

type_synonym ('k, 'v) gomap = "('k \<times> 'v) list"

definition gm_get :: "('k, 'v) gomap \<Rightarrow> 'k \<Rightarrow> 'v option" where
  "gm_get m k = map_of m k"

definition gm_set :: "'k \<Rightarrow> 'v \<Rightarrow> ('k, 'v) gomap \<Rightarrow> ('k, 'v) gomap" where
  "gm_set k v m = AList.update k v m"

definition gm_del :: "'k \<Rightarrow> ('k, 'v) gomap \<Rightarrow> ('k, 'v) gomap" where
  "gm_del k m = AList.delete k m"

definition gm_keys :: "('k, 'v) gomap \<Rightarrow> 'k list" where
  "gm_keys m = map fst m"

definition gm_ok :: "('k, 'v) gomap \<Rightarrow> bool" where
  "gm_ok m = distinct (map fst m)"

definition gm_get0 :: "('k, 'v::zero) gomap \<Rightarrow> 'k \<Rightarrow> 'v" where
  "gm_get0 m k = (case gm_get m k of None \<Rightarrow> 0 | Some v \<Rightarrow> v)"

text \<open>
  The contract of a map, as its clients use it: a lookup after a store or a delete, the keys, and
  an invariant every operation keeps.
\<close>

locale go_map =
  fixes get :: "'m \<Rightarrow> 'k \<Rightarrow> 'v option"
    and put :: "'k \<Rightarrow> 'v \<Rightarrow> 'm \<Rightarrow> 'm"
    and del :: "'k \<Rightarrow> 'm \<Rightarrow> 'm"
    and keys :: "'m \<Rightarrow> 'k list"
    and ok :: "'m \<Rightarrow> bool"
    and none :: "'m"
  assumes get_put: "get (put k v m) = (get m)(k \<mapsto> v)"
    and get_del: "get (del k m) = (get m)(k := None)"
    and get_none: "get none = (\<lambda>_. None)"
    and keys_get: "set (keys m) = dom (get m)"
    and ok_put: "ok m \<Longrightarrow> ok (put k v m)"
    and ok_del: "ok m \<Longrightarrow> ok (del k m)"
    and ok_none: "ok none"
    and ok_keys: "ok m \<Longrightarrow> distinct (keys m)"
begin

lemma get_put_same: "get (put k v m) k = Some v"
  by (simp add: get_put)

lemma get_put_other: "j \<noteq> k \<Longrightarrow> get (put k v m) j = get m j"
  by (simp add: get_put)

lemma get_del_same: "get (del k m) k = None"
  by (simp add: get_del)

lemma get_del_other: "j \<noteq> k \<Longrightarrow> get (del k m) j = get m j"
  by (simp add: get_del)

lemma finite_dom: "finite (dom (get m))"
  by (metis keys_get List.finite_set)

lemma keys_put: "set (keys (put k v m)) = insert k (set (keys m))"
  by (simp add: keys_get get_put)

lemma keys_del: "set (keys (del k m)) = set (keys m) - {k}"
  by (simp add: keys_get get_del)

lemma card_del: "ok m \<Longrightarrow> get m k \<noteq> None \<Longrightarrow> length (keys (del k m)) < length (keys m)"
proof -
  assume ok: "ok m" and k: "get m k \<noteq> None"
  from k have "k \<in> set (keys m)" by (auto simp: keys_get)
  then have "card (set (keys m) - {k}) < card (set (keys m))"
    by (intro psubset_card_mono) auto
  with ok show ?thesis
    by (metis distinct_card keys_del ok_del ok_keys)
qed

end

interpretation gm: go_map gm_get gm_set gm_del gm_keys gm_ok "[]"
  by unfold_locales
    (auto simp: gm_get_def gm_set_def gm_del_def gm_keys_def gm_ok_def update_conv' delete_conv'
      distinct_update distinct_delete simp flip: dom_map_of_conv_image_fst)

lemmas gm_simps = gm.get_put gm.get_del gm.get_none gm.keys_put gm.keys_del

lemma gm_get_code [simp]:
  "gm_get [] k = None"
  "gm_get ((j, v) # m) k = (if j = k then Some v else gm_get m k)"
  by (auto simp: gm_get_def)

lemma gm_set_code [simp]:
  "gm_set k v [] = [(k, v)]"
  "gm_set k v ((j, w) # m) = (if j = k then (k, v) # m else (j, w) # gm_set k v m)"
  by (auto simp: gm_set_def)

lemma gm_del_code [simp]:
  "gm_del k [] = []"
  "gm_del k ((j, v) # m) = (if j = k then gm_del k m else (j, v) # gm_del k m)"
  by (auto simp: gm_del_def AList.delete_eq)

lemma gm_del_length: "length (gm_del k m) \<le> length m"
  by (simp add: gm_del_def length_delete_le)

lemma gm_del_shorter: "gm_get m k \<noteq> None \<Longrightarrow> length (gm_del k m) < length m"
  by (induction m) (auto simp: less_Suc_eq_le gm_del_length split: if_splits)

lemma gm_get0_simps [simp]:
  "gm_get m k = None \<Longrightarrow> gm_get0 m k = 0"
  "gm_get m k = Some v \<Longrightarrow> gm_get0 m k = v"
  by (simp_all add: gm_get0_def)

section \<open>Word arithmetic\<close>

named_theorems word_nat \<open>reading address comparisons and sums as natural numbers\<close>

lemma word_less_nat [word_nat]: "(a :: 'a::len word) < b \<longleftrightarrow> unat a < unat b"
  by (rule word_less_nat_alt)

lemma word_le_nat [word_nat]: "(a :: 'a::len word) \<le> b \<longleftrightarrow> unat a \<le> unat b"
  by (rule word_le_nat_alt)

lemma word_eq_nat: "(a :: 'a::len word) = b \<longleftrightarrow> unat a = unat b"
  by (rule word_unat_eq_iff)

lemma unat_add_nowrap: "unat a + unat b < 2 ^ LENGTH('a) \<Longrightarrow> unat (a + b) = unat a + unat b"
  for a b :: "'a::len word"
  by (simp add: unat_word_ariths)

lemma unat_sub_nowrap: "unat b \<le> unat a \<Longrightarrow> unat (a - b) = unat a - unat b"
  for a b :: "'a::len word"
  by (simp add: unat_sub word_le_nat_alt)

lemma unat_max: "unat (max a b) = max (unat a) (unat b)" for a b :: "'a::len word"
  by (simp add: max_def word_le_nat_alt)

lemma unat_min: "unat (min a b) = min (unat a) (unat b)" for a b :: "'a::len word"
  by (simp add: min_def word_le_nat_alt)

lemma unat_add64: "unat a + unat b < 18446744073709551616 \<Longrightarrow> unat (a + b) = unat a + unat b"
  for a b :: u64
  by (rule unat_add_nowrap) simp

lemmas addr_nat = word_nat unat_add64 unat_sub_nowrap unat_max unat_min

end
