(* ===== verification/Align.thy ===== *)
theory Align
  imports Prelude
begin

text \<open>
  The two rounding functions: the generic \<^verbatim>\<open>debugger.Align\<close> (\<^verbatim>\<open>debugger/align.go\<close>), used on addresses,
  sizes and stack offsets, and the \<^verbatim>\<open>align\<close> of the encoder (\<^verbatim>\<open>encoding/encode_struct.go\<close>) on Go's \<^verbatim>\<open>int\<close>.
  Both round up to a multiple of a power of two, by masking; the lemmas say exactly when.
\<close>

definition Align :: "'a::ring_bit_operations \<Rightarrow> 'a \<Rightarrow> 'a" where
  "Align a b = (a + b - 1) AND NOT (b - 1)"

definition enc_align :: "int \<Rightarrow> int \<Rightarrow> int" where
  "enc_align a b = (a + b - 1) AND NOT (b - 1)"

text \<open>Page sizes and alignments are powers of two.\<close>

definition pow2 :: "u64 \<Rightarrow> bool" where
  "pow2 b \<longleftrightarrow> (\<exists>k \<in> {0..<64}. b = 2 ^ k)"

section \<open>Masking is rounding\<close>

lemma and_not_mask: "a AND NOT (mask k) = a - take_bit k a" for a :: "'a::ring_bit_operations"
proof -
  have "a AND NOT (mask k) = push_bit k (drop_bit k a)"
    by (rule bit_eqI) (auto simp: bit_simps)
  then show ?thesis
    using bits_ident [of k a] by (simp add: algebra_simps)
qed

lemma Align_mask: "Align a (2 ^ k) = (a + mask k) - take_bit k (a + mask k)"
proof -
  have "a + 2 ^ k - 1 = a + mask k" and "2 ^ k - 1 = (mask k :: 'a)"
    by (simp_all add: mask_eq_exp_minus_1)
  then show ?thesis by (simp only: Align_def and_not_mask)
qed

lemma unat_exp_word: "k < LENGTH('a) \<Longrightarrow> unat ((2 :: 'a::len word) ^ k) = 2 ^ k"
proof -
  assume "k < LENGTH('a)"
  moreover have "unat (push_bit k (1 :: 'a word)) = take_bit LENGTH('a) (push_bit k (unat (1 :: 'a word)))"
    by (rule unsigned_push_bit_eq)
  ultimately show ?thesis
    by (simp add: push_bit_eq_mult take_bit_eq_mod)
qed

lemma unat_mask_word: "k < LENGTH('a) \<Longrightarrow> unat (mask k :: 'a::len word) = 2 ^ k - 1"
  by (simp add: mask_eq_exp_minus_1 unat_sub_nowrap unat_exp_word)

lemma round_down_nat: "(n::nat) - n mod m = (n div m) * m"
  by (metis minus_mod_eq_div_mult)

lemma unat_Align:
  fixes a :: "'a::len word"
  assumes "k < LENGTH('a)" and "unat a + 2 ^ k \<le> 2 ^ LENGTH('a)"
  shows "unat (Align a (2 ^ k)) = (unat a + 2 ^ k - 1) div 2 ^ k * 2 ^ k"
proof -
  let ?s = "a + mask k"
  have s: "unat ?s = unat a + 2 ^ k - 1"
    using assms by (simp add: unat_word_ariths unat_mask_word mod_less less_le_trans [OF _ assms(2)])
  have t: "unat (take_bit k ?s) = unat ?s mod 2 ^ k"
    by (metis unsigned_take_bit_eq take_bit_eq_mod)
  have "unat (?s - take_bit k ?s) = unat ?s - unat (take_bit k ?s)"
    by (rule unat_sub_nowrap) (simp add: t)
  then show ?thesis
    by (simp only: Align_mask t s round_down_nat)
qed

lemma Align_wraps:
  fixes a :: "'a::len word"
  assumes "k < LENGTH('a)" and "2 ^ LENGTH('a) < unat a + 2 ^ k"
  shows "Align a (2 ^ k) = 0"
proof -
  let ?s = "a + mask k"
  have lt: "unat a < 2 ^ LENGTH('a)" by simp
  have kl: "(2::nat) ^ k < 2 ^ LENGTH('a)" using assms(1) by simp
  have "unat ?s = (unat a + 2 ^ k - 1) mod 2 ^ LENGTH('a)"
    using assms(1) by (simp add: unat_word_ariths unat_mask_word)
  also have "\<dots> = unat a + 2 ^ k - 1 - 2 ^ LENGTH('a)"
  proof -
    have "2 ^ LENGTH('a) \<le> unat a + 2 ^ k - 1" and "unat a + 2 ^ k - 1 - 2 ^ LENGTH('a) < 2 ^ LENGTH('a)"
      using assms(2) lt kl by linarith+
    then show ?thesis by (metis le_mod_geq mod_less)
  qed
  finally have "unat ?s = unat a + 2 ^ k - 1 - 2 ^ LENGTH('a)" .
  with lt have "unat ?s < 2 ^ k"
    using assms(2) by linarith
  then have "take_bit k ?s = ?s"
    by (metis take_bit_nat_eq_self_iff unsigned_take_bit_eq word_eq_nat)
  then show ?thesis by (simp add: Align_mask)
qed

text \<open>Rounding up on natural numbers.\<close>

definition round_up :: "nat \<Rightarrow> nat \<Rightarrow> nat" where
  "round_up n p = (n + p - 1) div p * p"

lemma round_up_ge: "0 < p \<Longrightarrow> n \<le> round_up n p"
proof -
  assume p: "0 < p"
  have "(n + p - 1) div p * p = (n + p - 1) - (n + p - 1) mod p"
    by (rule minus_mod_eq_div_mult [symmetric])
  moreover have "(n + p - 1) mod p < p" using p by simp
  ultimately show ?thesis unfolding round_up_def using p by linarith
qed

lemma round_up_less: "0 < p \<Longrightarrow> round_up n p < n + p"
  unfolding round_up_def using div_times_less_eq_dividend [of "n + p - 1" p]
  by linarith

lemma round_up_dvd: "p dvd round_up n p"
  by (simp add: round_up_def)

lemma round_up_fix: "p dvd n \<Longrightarrow> 0 < p \<Longrightarrow> round_up n p = n"
proof -
  assume "p dvd n" and p: "0 < p"
  then obtain q where q: "n = q * p" by (metis dvdE mult.commute)
  have "q * p + p - 1 = (p - 1) + q * p" using p by simp
  then have "(q * p + p - 1) div p = q" using p by (simp only: div_mult_self1) simp
  then show ?thesis by (simp add: round_up_def q)
qed

lemma pow2D: "pow2 p \<Longrightarrow> \<exists>k. k < 64 \<and> p = 2 ^ k \<and> unat p = 2 ^ k"
proof -
  assume "pow2 p"
  then obtain k where "k < 64" and "p = 2 ^ k" by (auto simp: pow2_def)
  then show ?thesis by (auto simp: unat_exp_word intro!: exI [of _ k])
qed

lemma pow2_pos: "pow2 p \<Longrightarrow> 0 < unat p"
  by (auto dest: pow2D)

lemma unat_Align64:
  fixes a p :: u64
  assumes "pow2 p" and "unat a + unat p \<le> 2 ^ 64"
  shows "unat (Align a p) = round_up (unat a) (unat p)"
proof -
  from assms(1) obtain k where "k < 64" and p: "p = 2 ^ k" and "unat p = 2 ^ k"
    by (blast dest: pow2D)
  then show ?thesis
    using assms(2) unat_Align [of k a] by (simp add: round_up_def)
qed

lemmas Align_bounds = unat_Align64 round_up_ge round_up_less round_up_dvd pow2_pos

lemma Align_aligned:
  fixes a p :: u64
  assumes "pow2 p" and "unat a + unat p \<le> 2 ^ 64" and "unat p dvd unat a"
  shows "Align a p = a"
  using assms by (simp add: word_eq_nat unat_Align64 round_up_fix pow2_pos)

lemma enc_align_eq: "enc_align a (2 ^ k) = (a + 2 ^ k - 1) div 2 ^ k * 2 ^ k"
proof -
  have "enc_align a (2 ^ k) = (a + mask k) - take_bit k (a + mask k)"
    using Align_mask [of a k] by (simp add: enc_align_def Align_def)
  then show ?thesis
    by (simp add: take_bit_eq_mod mask_eq_exp_minus_1 minus_mod_eq_div_mult add_diff_eq)
qed

end
