(* ===== verification/Emulator.thy ===== *)
theory Emulator
  imports Align
begin

text \<open>
  The emulator the debugger drives (\<^verbatim>\<open>emulator/emulator.go\<close>, \<^verbatim>\<open>emulator/arch.go\<close>, \<^verbatim>\<open>emulator/mem.go\<close>).
  The repository holds only its interface: an implementation (a binding to a CPU emulator) is a
  parameter of the model, a record of its operations over an abstract state \<open>'e\<close>.
\<close>

text \<open>\<^verbatim>\<open>emulator.Arch\<close>\<close>

datatype arch = ARCH_UNKNOWN | ARCH_ARM | ARCH_ARM64 | ARCH_X86 | ARCH_X86_64

type_synonym reg = int
type_synonym mem_prot = u64

definition MEM_PROT_NONE :: mem_prot where "MEM_PROT_NONE = 0"
definition MEM_PROT_READ :: mem_prot where "MEM_PROT_READ = push_bit 0 1"
definition MEM_PROT_WRITE :: mem_prot where "MEM_PROT_WRITE = push_bit 1 1"
definition MEM_PROT_EXEC :: mem_prot where "MEM_PROT_EXEC = push_bit 2 1"
definition MEM_PROT_ALL :: mem_prot where
  "MEM_PROT_ALL = MEM_PROT_READ OR MEM_PROT_WRITE OR MEM_PROT_EXEC"

text \<open>\<^verbatim>\<open>emulator.MemRegion\<close>\<close>

record mem_region =
  Addr :: u64
  Size :: u64
  Prot :: mem_prot

text \<open>
  The operations of the interface the modelled code calls. An operation that can fail returns the
  error, if any, with the next state. \<open>EmuHook\<close> registers a hook and returns its handle;
  \<open>EmuHookClose\<close> is the \<^verbatim>\<open>Close\<close> of that handle.
\<close>

record 'e emulator =
  EmuArch :: arch
  PageSize :: u64
  EmuMemMap :: "u64 \<Rightarrow> u64 \<Rightarrow> mem_prot \<Rightarrow> 'e \<Rightarrow> goerr option \<times> 'e"
  EmuMemUnmap :: "u64 \<Rightarrow> u64 \<Rightarrow> 'e \<Rightarrow> goerr option \<times> 'e"
  EmuMemProtect :: "u64 \<Rightarrow> u64 \<Rightarrow> mem_prot \<Rightarrow> 'e \<Rightarrow> goerr option \<times> 'e"
  EmuMemRead :: "u64 \<Rightarrow> u64 \<Rightarrow> 'e \<Rightarrow> byte list res"
  EmuMemWrite :: "u64 \<Rightarrow> byte list \<Rightarrow> 'e \<Rightarrow> goerr option \<times> 'e"
  EmuRegRead :: "reg \<Rightarrow> 'e \<Rightarrow> u64 res"
  EmuRegWrite :: "reg \<Rightarrow> u64 \<Rightarrow> 'e \<Rightarrow> goerr option \<times> 'e"
  EmuHook :: "u64 \<Rightarrow> u64 \<Rightarrow> u64 \<Rightarrow> 'e \<Rightarrow> (nat res) \<times> 'e"
  EmuHookClose :: "nat \<Rightarrow> 'e \<Rightarrow> 'e"

text \<open>
  What the memory manager relies on: the page size of the emulator is a power of two (the rounding
  of \<^verbatim>\<open>debugger.Align\<close> is only right then).
\<close>

definition emu_paged :: "'e emulator \<Rightarrow> bool" where
  "emu_paged E \<longleftrightarrow> pow2 (PageSize E)"

lemma emu_paged_pos: "emu_paged E \<Longrightarrow> 0 < unat (PageSize E)"
  by (simp add: emu_paged_def pow2_pos)

end
