(* ===== verification/MapTable.thy ===== *)
theory MapTable
  imports Emulator
begin

text \<open>
  The table of mapped regions of the memory manager (\<^verbatim>\<open>maps\<close> in \<^verbatim>\<open>internal/debugger/mem.go\<close>), a Go
  map from a region's address to its size, and the three functions that work on it: \<^verbatim>\<open>mapStore\<close>,
  \<^verbatim>\<open>mapDelete\<close>, which cuts an address range out of it, and \<^verbatim>\<open>calcOverlap\<close>. The abstraction is the
  set of addresses the table covers; \<^verbatim>\<open>mapDelete\<close> is proved to remove exactly the given range.
\<close>

type_synonym map_table = "(u64, u64) gomap"

definition calcOverlap :: "u64 \<Rightarrow> u64 \<Rightarrow> u64 \<Rightarrow> u64 \<Rightarrow> (u64 \<times> u64) option" where
  "calcOverlap min1 max1 min2 max2 =
     (if max1 < min2 \<or> max2 < min1 then None else Some (max min1 min2, min max1 max2))"

definition mapStore :: "u64 \<Rightarrow> u64 \<Rightarrow> map_table \<Rightarrow> map_table" where
  "mapStore addr sz m = gm_set addr sz m"

text \<open>
  The first loop of \<^verbatim>\<open>mapDelete\<close>: as long as a region starts exactly at the address, drop it, put
  back what lies beyond the range, or go on behind it. It ends with \<open>None\<close> when the range is used
  up (the \<^verbatim>\<open>return\<close> of the code) and with the rest of the range when no region starts there (the
  \<^verbatim>\<open>break\<close>).
\<close>

function mapDelete_exact :: "map_table \<Rightarrow> u64 \<Rightarrow> u64 \<Rightarrow> map_table \<times> (u64 \<times> u64) option" where
  "mapDelete_exact m addr sz =
     (case gm_get m addr of
        Some valid \<Rightarrow>
          (let m' = gm_del addr m in
           if sz < valid then (gm_set (addr + sz) (valid - sz) m', None)
           else if valid < sz then mapDelete_exact m' (addr + valid) (sz - valid)
           else (m', None))
      | None \<Rightarrow> (m, Some (addr, sz)))"
  by pat_completeness auto
termination
  by (relation "measure (\<lambda>(m, a, s). length m)") (auto simp: gm_del_shorter)

declare mapDelete_exact.simps [simp del]

text \<open>The second loop: the remaining regions in the order of their addresses.\<close>

fun mapDelete_sweep :: "u64 list \<Rightarrow> u64 \<Rightarrow> u64 \<Rightarrow> map_table \<Rightarrow> map_table" where
  "mapDelete_sweep [] addr end m = m"
| "mapDelete_sweep (start # ks) addr end m =
     (let blockEnd = start + gm_get0 m start in
      case calcOverlap start blockEnd addr end of
        None \<Rightarrow> mapDelete_sweep ks addr end m
      | Some (overlapStart, overlapEnd) \<Rightarrow>
          (let m1 = (if start < overlapStart then gm_set start (overlapStart - start) m
                     else gm_del start m) in
           if overlapEnd < blockEnd then gm_set overlapEnd (blockEnd - overlapEnd) m1
           else if overlapEnd < end then mapDelete_sweep ks overlapEnd end m1
           else m1))"

definition mapDelete :: "u64 \<Rightarrow> u64 \<Rightarrow> map_table \<Rightarrow> map_table" where
  "mapDelete addr sz m =
     (case mapDelete_exact m addr sz of
        (m1, None) \<Rightarrow> m1
      | (m1, Some (addr', sz')) \<Rightarrow>
          mapDelete_sweep (sort (gm_keys m1)) addr' (addr' + sz') m1)"

section \<open>The addresses a table covers\<close>

definition span :: "u64 \<Rightarrow> u64 \<Rightarrow> nat set" where
  "span a s = {unat a ..< unat a + unat s}"

definition covered :: "map_table \<Rightarrow> nat set" where
  "covered m = {x. \<exists>a s. gm_get m a = Some s \<and> x \<in> span a s}"

text \<open>
  A well-formed table: no region is empty or reaches the end of the address space (so that no
  address computation wraps), and no two regions overlap.
\<close>

definition table_ok :: "map_table \<Rightarrow> bool" where
  "table_ok m \<longleftrightarrow> gm_ok m \<and>
     (\<forall>a s. gm_get m a = Some s \<longrightarrow> 0 < unat s \<and> unat a + unat s < 2 ^ 64) \<and>
     (\<forall>a s b t. gm_get m a = Some s \<longrightarrow> gm_get m b = Some t \<longrightarrow> a \<noteq> b \<longrightarrow>
        unat a + unat s \<le> unat b \<or> unat b + unat t \<le> unat a)"

lemma table_ok_gm: "table_ok m \<Longrightarrow> gm_ok m"
  by (simp add: table_ok_def)

lemma table_ok_pos: "table_ok m \<Longrightarrow> gm_get m a = Some s \<Longrightarrow> 0 < unat s"
  by (auto simp: table_ok_def)

lemma table_ok_bound: "table_ok m \<Longrightarrow> gm_get m a = Some s \<Longrightarrow> unat a + unat s < 2 ^ 64"
  by (auto simp: table_ok_def)

lemma table_ok_disjoint:
  "table_ok m \<Longrightarrow> gm_get m a = Some s \<Longrightarrow> gm_get m b = Some t \<Longrightarrow> a \<noteq> b \<Longrightarrow>
     unat a + unat s \<le> unat b \<or> unat b + unat t \<le> unat a"
  unfolding table_ok_def by metis

lemma table_ok_empty: "table_ok []"
  by (simp add: table_ok_def gm_ok_def)

lemma table_ok_del: "table_ok m \<Longrightarrow> table_ok (gm_del a m)"
  by (simp add: table_ok_def gm.ok_del gm.get_del)

lemma table_ok_put:
  assumes "table_ok m" and "0 < unat s" and "unat a + unat s < 2 ^ 64"
    and "\<And>b t. gm_get m b = Some t \<Longrightarrow> a \<noteq> b \<Longrightarrow>
           unat a + unat s \<le> unat b \<or> unat b + unat t \<le> unat a"
  shows "table_ok (gm_set a s m)"
  using assms unfolding table_ok_def
  by (auto simp: gm.ok_put gm.get_put)

lemma covered_del:
  assumes "table_ok m" and "gm_get m a = Some s"
  shows "covered (gm_del a m) = covered m - span a s"
proof -
  have "x \<notin> span a s" if "gm_get m b = Some t" "a \<noteq> b" "x \<in> span b t" for x b t
    using table_ok_disjoint [OF assms(1) assms(2) that(1,2)] that(3) by (auto simp: span_def)
  then show ?thesis
    using assms(2) unfolding covered_def gm.get_del
    by (auto split: if_splits) (metis option.inject)
qed

lemma covered_put:
  assumes "gm_get m a = None"
  shows "covered (gm_set a s m) = covered m \<union> span a s"
  using assms unfolding covered_def gm.get_put
  by (auto split: if_splits) (metis option.distinct(1))+

lemma covered_get: "gm_get m a = Some s \<Longrightarrow> span a s \<subseteq> covered m"
  by (auto simp: covered_def)

lemma put_over: "gm_get (gm_set a s (gm_del a m)) = gm_get (gm_set a s m)"
  by (auto simp: gm.get_put gm.get_del fun_eq_iff)

lemma covered_cong: "gm_get m = gm_get m' \<Longrightarrow> covered m = covered m'"
  by (simp add: covered_def)

lemma table_ok_cong: "gm_get m = gm_get m' \<Longrightarrow> gm_ok m' \<Longrightarrow> table_ok m \<Longrightarrow> table_ok m'"
  by (simp add: table_ok_def)

section \<open>Cutting a range out of the table\<close>

text \<open>No region of the table meets the addresses from \<open>lo\<close> up to \<open>hi\<close>.\<close>

definition clear_at :: "map_table \<Rightarrow> nat \<Rightarrow> nat \<Rightarrow> bool" where
  "clear_at m lo hi \<longleftrightarrow>
     (\<forall>b t. gm_get m b = Some t \<longrightarrow> hi \<le> unat b \<or> unat b + unat t \<le> lo)"

lemma clear_atD: "clear_at m lo hi \<Longrightarrow> gm_get m b = Some t \<Longrightarrow> hi \<le> unat b \<or> unat b + unat t \<le> lo"
  by (simp add: clear_at_def)

lemma clear_at_mono: "clear_at m lo hi \<Longrightarrow> lo \<le> lo' \<Longrightarrow> hi' \<le> hi \<Longrightarrow> clear_at m lo' hi'"
  by (force simp: clear_at_def)

lemma clear_at_covered: "clear_at m lo hi \<Longrightarrow> covered m \<inter> {lo..<hi} = {}"
  by (force simp: covered_def span_def clear_at_def)

lemma del_block:
  assumes "table_ok m" and "gm_get m a = Some s"
  shows "table_ok (gm_del a m)" and "covered (gm_del a m) = covered m - span a s"
    and "clear_at (gm_del a m) (unat a) (unat a + unat s)"
  using assms table_ok_disjoint [OF assms]
  by (auto simp: table_ok_del covered_del clear_at_def gm.get_del split: if_splits)

lemma add_block:
  assumes m: "table_ok m" and free: "clear_at m (unat a) (unat a + unat s)"
    and pos: "0 < unat s" and fits: "unat a + unat s < 2 ^ 64"
  shows "table_ok (gm_set a s m)" and "covered (gm_set a s m) = covered m \<union> span a s"
    and "clear_at m lo hi \<Longrightarrow> hi \<le> unat a \<or> unat a + unat s \<le> lo \<Longrightarrow> clear_at (gm_set a s m) lo hi"
proof -
  have "gm_get m a = None"
    using clear_atD [OF free, of a] pos table_ok_pos [OF m, of a] by (cases "gm_get m a") force+
  then show "covered (gm_set a s m) = covered m \<union> span a s" by (rule covered_put)
  show "table_ok (gm_set a s m)"
    using clear_atD [OF free] by (intro table_ok_put m pos fits) blast
  show "clear_at (gm_set a s m) lo hi"
    if "clear_at m lo hi" "hi \<le> unat a \<or> unat a + unat s \<le> lo"
    using that by (auto simp: clear_at_def gm.get_put)
qed

text \<open>
  Replacing a region by what it holds below \<open>lo\<close> and above \<open>hi\<close>: the step both loops of
  \<^verbatim>\<open>mapDelete\<close> make.
\<close>

definition cut :: "map_table \<Rightarrow> u64 \<Rightarrow> u64 \<Rightarrow> u64 \<Rightarrow> u64 \<Rightarrow> map_table" where
  "cut m a blockEnd lo hi =
     (let m1 = (if a < lo then gm_set a (lo - a) m else gm_del a m) in
      if hi < blockEnd then gm_set hi (blockEnd - hi) m1 else m1)"

lemma table_set_del:
  "gm_ok m \<Longrightarrow> table_ok (gm_set a s m) = table_ok (gm_set a s (gm_del a m))"
  "covered (gm_set a s m) = covered (gm_set a s (gm_del a m))"
  "clear_at (gm_set a s m) = clear_at (gm_set a s (gm_del a m))"
  by (simp_all add: table_ok_def covered_def clear_at_def put_over gm.ok_put gm.ok_del fun_eq_iff)

lemma cut_left:
  assumes m: "table_ok m" and a: "gm_get m a = Some s"
    and lo: "unat a \<le> unat lo" "unat lo \<le> unat a + unat s"
  defines "m1 \<equiv> if a < lo then gm_set a (lo - a) m else gm_del a m"
  shows "table_ok m1" and "covered m1 = covered m - {unat lo..<unat a + unat s}"
    and "clear_at m1 (unat lo) (unat a + unat s)"
proof -
  note d = del_block [OF m a]
  have fits: "unat a + unat s < 2 ^ 64" by (rule table_ok_bound [OF m a])
  have sub: "span a s \<subseteq> covered m" by (rule covered_get [OF a])
  have "table_ok m1 \<and> covered m1 = covered m - {unat lo..<unat a + unat s} \<and>
        clear_at m1 (unat lo) (unat a + unat s)"
  proof (cases "a < lo")
    case True
    have l: "unat (lo - a) = unat lo - unat a" using True by (simp add: addr_nat)
    have c: "clear_at (gm_del a m) (unat a) (unat a + unat (lo - a))"
      by (rule clear_at_mono [OF d(3)]) (use l lo in auto)
    note p = add_block [OF d(1) c]
    have "0 < unat (lo - a)" "unat a + unat (lo - a) < 2 ^ 64"
      using True l lo fits by (auto simp: addr_nat)
    note p = p [OF this]
    have "clear_at (gm_set a (lo - a) (gm_del a m)) (unat lo) (unat a + unat s)"
      using d(3) by (intro p(3)) (use l lo in \<open>auto intro: clear_at_mono\<close>)
    with p(1,2) d(2) sub lo l show ?thesis
      using table_set_del(1) [OF table_ok_gm [OF m], of a "lo - a"]
        table_set_del(2,3) [of a "lo - a" m] True
      by (auto simp: m1_def span_def)
  next
    case False
    then have "lo = a" using lo by (simp add: addr_nat word_eq_nat)
    with False d show ?thesis by (simp add: m1_def span_def)
  qed
  then show "table_ok m1" and "covered m1 = covered m - {unat lo..<unat a + unat s}"
    and "clear_at m1 (unat lo) (unat a + unat s)" by blast+
qed

lemma cut_block:
  assumes m: "table_ok m" and a: "gm_get m a = Some s" and e: "blockEnd = a + s"
    and lo: "unat a \<le> unat lo" "unat lo \<le> unat hi" and hi: "unat hi \<le> unat a + unat s"
  shows "table_ok (cut m a blockEnd lo hi)"
    and "covered (cut m a blockEnd lo hi) = covered m - {unat lo..<unat hi}"
proof -
  define m1 where "m1 = (if a < lo then gm_set a (lo - a) m else gm_del a m)"
  have le: "unat lo \<le> unat a + unat s" using lo hi by simp
  note c = cut_left [OF m a lo(1) le, folded m1_def]
  have fits: "unat a + unat s < 2 ^ 64" by (rule table_ok_bound [OF m a])
  then have be: "unat blockEnd = unat a + unat s" by (simp add: e addr_nat)
  have sub: "{unat a..<unat a + unat s} \<subseteq> covered m" using covered_get [OF a] by (simp add: span_def)
  have "table_ok (cut m a blockEnd lo hi) \<and>
        covered (cut m a blockEnd lo hi) = covered m - {unat lo..<unat hi}"
  proof (cases "hi < blockEnd")
    case True
    have r: "unat (blockEnd - hi) = unat blockEnd - unat hi" using True by (simp add: addr_nat)
    have "clear_at m1 (unat hi) (unat hi + unat (blockEnd - hi))"
      using c(3) lo(2) by (rule clear_at_mono) (use be hi r in simp)
    note p = add_block [OF c(1) this]
    have "0 < unat (blockEnd - hi)" "unat hi + unat (blockEnd - hi) < 2 ^ 64"
      using True r be fits hi by (auto simp: addr_nat)
    note p = p [OF this]
    have "covered m1 \<union> span hi (blockEnd - hi) = covered m - {unat lo..<unat hi}"
      using c(2) lo hi be r sub by (auto simp: span_def)
    with p(1,2) True show ?thesis by (simp add: cut_def Let_def m1_def)
  next
    case False
    then have "unat hi = unat a + unat s" using hi be by (simp add: addr_nat)
    with False c(1,2) show ?thesis by (simp add: cut_def Let_def m1_def)
  qed
  then show "table_ok (cut m a blockEnd lo hi)"
    and "covered (cut m a blockEnd lo hi) = covered m - {unat lo..<unat hi}" by blast+
qed

section \<open>Both loops remove exactly their range\<close>

lemma get_cut:
  "a < lo \<or> lo = a \<Longrightarrow> k \<noteq> a \<Longrightarrow>
     gm_get (if a < lo then gm_set a (lo - a) m else gm_del a m) k = gm_get m k"
  by (simp add: gm_simps)

lemma calcOverlap_nat:
  "calcOverlap a e b f = None \<longleftrightarrow> unat e < unat b \<or> unat f < unat a"
  "calcOverlap a e b f = Some (lo, hi) \<Longrightarrow>
     \<not> unat e < unat b \<and> \<not> unat f < unat a \<and> lo = max a b \<and> hi = min e f"
  by (auto simp: calcOverlap_def addr_nat split: if_splits)

definition sweep_inv :: "u64 list \<Rightarrow> u64 \<Rightarrow> u64 \<Rightarrow> map_table \<Rightarrow> bool" where
  "sweep_inv ks addr end m \<longleftrightarrow> table_ok m \<and> unat addr \<le> unat end \<and> sorted ks \<and> distinct ks \<and>
     (\<forall>k \<in> set ks. gm_get m k \<noteq> None) \<and>
     (\<forall>b t. gm_get m b = Some t \<longrightarrow> b \<notin> set ks \<longrightarrow> unat end \<le> unat b \<or> unat b + unat t \<le> unat addr)"

lemma sweep_skip:
  assumes "sweep_inv (k # ks) addr end m" and "gm_get m k = Some t"
    and "unat k + unat t \<le> unat addr \<or> unat end \<le> unat k"
  shows "sweep_inv ks addr end m"
  using assms unfolding sweep_inv_def by (auto; metis option.inject)

lemma sweep_step:
  assumes inv: "sweep_inv (k # ks) addr end m" and k: "gm_get m k = Some t"
    and meet: "unat addr \<le> unat k + unat t" "unat k \<le> unat end"
    and lo: "lo = max k addr" and more: "unat k + unat t < unat end"
  defines "m1 \<equiv> if k < lo then gm_set k (lo - k) m else gm_del k m"
  shows "sweep_inv ks (k + t) end m1"
    and "covered m1 - {unat (k + t)..<unat end} = covered m - {unat addr..<unat end}"
proof -
  have m: "table_ok m" using inv by (simp add: sweep_inv_def)
  have e: "unat (k + t) = unat k + unat t"
    using table_ok_bound [OF m k] by (simp add: addr_nat)
  have l: "unat k \<le> unat lo" "unat lo \<le> unat k + unat t"
    using meet by (auto simp: lo addr_nat)
  note c = cut_left [OF m k l, folded m1_def]
  have other: "gm_get m1 j = gm_get m j" if "j \<noteq> k" for j
    using that by (simp add: m1_def gm_simps)
  have rest: "unat end \<le> unat b \<or> unat b + unat s \<le> unat (k + t)"
    if b: "gm_get m1 b = Some s" "b \<notin> set ks" for b s
  proof (cases "b = k")
    case True
    with b(1) clear_atD [OF c(3) b(1)] table_ok_pos [OF m k] l e show ?thesis
      by (auto simp: m1_def gm_simps addr_nat split: if_splits)
  next
    case False
    with b other inv meet e show ?thesis by (fastforce simp: sweep_inv_def)
  qed
  have "k \<notin> set ks" using inv by (simp add: sweep_inv_def)
  then have "\<forall>j \<in> set ks. gm_get m1 j \<noteq> None"
    using inv other by (simp add: sweep_inv_def) metis
  with c(1) rest inv more e show "sweep_inv ks (k + t) end m1"
    by (auto simp: sweep_inv_def)
  have "covered m \<inter> {unat addr..<unat lo} = {}"
  proof (rule ccontr)
    assume "covered m \<inter> {unat addr..<unat lo} \<noteq> {}"
    then obtain x b s where x: "unat addr \<le> x" "x < unat lo"
      and b: "gm_get m b = Some s" "x \<in> span b s" by (auto simp: covered_def)
    have "b \<in> set (k # ks)"
    proof (rule ccontr)
      assume "b \<notin> set (k # ks)"
      with inv b(1) have "unat end \<le> unat b \<or> unat b + unat s \<le> unat addr"
        unfolding sweep_inv_def by blast
      with x b(2) l more show False by (auto simp: span_def)
    qed
    then have "k \<le> b" using inv by (auto simp: sweep_inv_def)
    with x b(2) show False by (auto simp: span_def lo addr_nat)
  qed
  then have low: "covered m - {unat lo..<unat end} = covered m - {unat addr..<unat end}"
    using l meet by (force simp: lo addr_nat)
  have "covered m1 - {unat (k + t)..<unat end} = covered m - {unat lo..<unat end}"
  proof -
    have "{unat lo..<unat k + unat t} \<union> {unat k + unat t..<unat end} = {unat lo..<unat end}"
      using l more by (intro ivl_disj_un_two(3)) simp_all
    then show ?thesis by (simp only: c(2) e Diff_eq) blast
  qed
  with low show "covered m1 - {unat (k + t)..<unat end} = covered m - {unat addr..<unat end}"
    by simp
qed

lemma sweep_last:
  assumes inv: "sweep_inv (k # ks) addr end m" and k: "gm_get m k = Some t"
    and meet: "unat addr \<le> unat k + unat t" "unat k \<le> unat end"
    and lo: "lo = max k addr" and hi: "hi = min (k + t) end" and stop: "\<not> hi < end"
  shows "table_ok (cut m k (k + t) lo hi)"
    and "covered (cut m k (k + t) lo hi) = covered m - {unat addr..<unat end}"
proof -
  have m: "table_ok m" and ae: "unat addr \<le> unat end" using inv by (simp_all add: sweep_inv_def)
  have e: "unat (k + t) = unat k + unat t"
    using table_ok_bound [OF m k] by (simp add: addr_nat)
  have he: "hi = end" and hk: "unat hi \<le> unat k + unat t"
    using hi stop e by (auto simp: min_def addr_nat word_eq_nat split: if_splits)
  have "unat k \<le> unat lo" "unat lo \<le> unat hi"
    using he meet ae by (auto simp: lo addr_nat)
  note c = cut_block [OF m k refl this hk]
  show "table_ok (cut m k (k + t) lo hi)" by (rule c(1))
  have "x < unat addr \<or> unat lo \<le> x" if x: "x \<in> covered m" "x < unat end" for x
  proof -
    from x obtain b s where b: "gm_get m b = Some s" "x \<in> span b s" by (auto simp: covered_def)
    show ?thesis
    proof (cases "b \<in> set (k # ks)")
      case True
      then have "k \<le> b" using inv by (auto simp: sweep_inv_def)
      with b(2) show ?thesis by (auto simp: span_def lo addr_nat)
    next
      case False
      with inv b(1) have "unat end \<le> unat b \<or> unat b + unat s \<le> unat addr"
        unfolding sweep_inv_def by blast
      with x b(2) show ?thesis by (auto simp: span_def)
    qed
  qed
  then show "covered (cut m k (k + t) lo hi) = covered m - {unat addr..<unat end}"
    using c(2) he by (force simp: lo addr_nat)
qed

lemma sweep_unfold:
  assumes "gm_get m k = Some t"
  shows "mapDelete_sweep (k # ks) addr end m =
     (case calcOverlap k (k + t) addr end of
        None \<Rightarrow> mapDelete_sweep ks addr end m
      | Some (lo, hi) \<Rightarrow>
          (if \<not> hi < k + t \<and> hi < end
           then mapDelete_sweep ks hi end (if k < lo then gm_set k (lo - k) m else gm_del k m)
           else cut m k (k + t) lo hi))"
  using assms by (simp add: Let_def cut_def split: option.split)

lemma sweep_correct:
  "sweep_inv ks addr end m \<Longrightarrow>
     table_ok (mapDelete_sweep ks addr end m) \<and>
     covered (mapDelete_sweep ks addr end m) = covered m - {unat addr..<unat end}"
proof (induction ks arbitrary: addr m)
  case Nil
  then have "clear_at m (unat addr) (unat end)" by (simp add: sweep_inv_def clear_at_def)
  from clear_at_covered [OF this] Nil show ?case by (auto simp: sweep_inv_def)
next
  case (Cons k ks)
  then obtain t where k: "gm_get m k = Some t" by (auto simp: sweep_inv_def)
  have m: "table_ok m" using Cons.prems by (simp add: sweep_inv_def)
  have e: "unat (k + t) = unat k + unat t"
    using table_ok_bound [OF m k] by (simp add: addr_nat)
  show ?case
  proof (cases "calcOverlap k (k + t) addr end")
    case None
    then have "unat k + unat t \<le> unat addr \<or> unat end \<le> unat k"
      using e by (auto simp: calcOverlap_nat)
    from Cons.IH [OF sweep_skip [OF Cons.prems k this]] None k show ?thesis
      by (simp add: sweep_unfold del: mapDelete_sweep.simps)
  next
    case (Some p)
    then obtain lo hi where p: "calcOverlap k (k + t) addr end = Some (lo, hi)" by (cases p) auto
    note o = calcOverlap_nat(2) [OF p]
    have meet: "unat addr \<le> unat k + unat t" "unat k \<le> unat end" using o e by auto
    show ?thesis
    proof (cases "\<not> hi < k + t \<and> hi < end")
      case True
      then have hi: "hi = k + t" and more: "unat k + unat t < unat end"
        using o e by (auto simp: min_def addr_nat word_eq_nat split: if_splits)
      note st = sweep_step [OF Cons.prems k meet _ more, of lo]
      from o have lo: "lo = max k addr" by simp
      from Cons.IH [OF st(1) [OF lo]] st(2) [OF lo] True p k hi show ?thesis
        by (simp add: sweep_unfold del: mapDelete_sweep.simps)
    next
      case False
      then have "\<not> hi < end" using o by (auto simp: min_def split: if_splits)
      note last = sweep_last [OF Cons.prems k meet _ _ this, of lo]
      have "mapDelete_sweep (k # ks) addr end m = cut m k (k + t) lo hi"
        by (simp only: sweep_unfold [OF k] p option.case prod.case False if_False)
      with last o show ?thesis by simp
    qed
  qed
qed

lemma exact_correct:
  assumes "table_ok m" and "unat addr + unat sz < 2 ^ 64"
  shows "case mapDelete_exact m addr sz of
           (m1, None) \<Rightarrow> table_ok m1 \<and> covered m1 = covered m - span addr sz
         | (m1, Some (a, s)) \<Rightarrow> table_ok m1 \<and> unat addr \<le> unat a \<and>
             unat a + unat s = unat addr + unat sz \<and>
             covered m1 = covered m - {unat addr..<unat a}"
  using assms
proof (induction m addr sz rule: mapDelete_exact.induct)
  case (1 m addr sz)
  show ?case
  proof (cases "gm_get m addr")
    case None
    with 1 show ?thesis by (subst mapDelete_exact.simps) simp
  next
    case (Some valid)
    note d = del_block [OF "1.prems"(1) Some]
    have fits: "unat addr + unat valid < 2 ^ 64" by (rule table_ok_bound [OF "1.prems"(1) Some])
    consider "sz < valid" | "valid < sz" | "sz = valid" by (metis not_less_iff_gr_or_eq)
    then show ?thesis
    proof cases
      case 1
      have e: "unat (addr + sz) = unat addr + unat sz" "\<not> addr < addr"
        using "1.prems"(2) by (simp_all add: addr_nat)
      have v: "addr + sz < addr + valid" "addr + valid - (addr + sz) = valid - sz"
        using 1 e fits by (simp_all add: addr_nat)
      have "cut m addr (addr + valid) addr (addr + sz) = gm_set (addr + sz) (valid - sz) (gm_del addr m)"
        using v by (simp add: cut_def Let_def)
      moreover have "unat (addr + sz) \<le> unat addr + unat valid" using 1 e by (simp add: addr_nat)
      ultimately show ?thesis
        using cut_block [OF "1.prems"(1) Some refl, of addr "addr + sz"] 1 Some e
        by (subst mapDelete_exact.simps) (simp add: span_def)
    next
      case 2
      have e: "unat (addr + valid) = unat addr + unat valid" "unat (sz - valid) = unat sz - unat valid"
        using 2 fits by (simp_all add: addr_nat)
      have le: "unat valid \<le> unat sz" using 2 by (simp add: addr_nat)
      have u: "{unat addr..<unat addr + unat valid} \<union> {unat addr + unat valid..<x} = {unat addr..<x}"
        if "unat addr + unat valid \<le> x" for x using that by auto
      have "case mapDelete_exact (gm_del addr m) (addr + valid) (sz - valid) of
           (m1, None) \<Rightarrow> table_ok m1 \<and> covered m1 = covered (gm_del addr m) - span (addr + valid) (sz - valid)
         | (m1, Some (a, s)) \<Rightarrow> table_ok m1 \<and> unat (addr + valid) \<le> unat a \<and>
             unat a + unat s = unat (addr + valid) + unat (sz - valid) \<and>
             covered m1 = covered (gm_del addr m) - {unat (addr + valid)..<unat a}"
        using 2 Some d(1) "1.prems" e le
        by (intro "1.IH" [OF Some refl]) (auto simp: addr_nat)
      moreover have "mapDelete_exact m addr sz = mapDelete_exact (gm_del addr m) (addr + valid) (sz - valid)"
        using 2 Some by (subst mapDelete_exact.simps) (simp add: Let_def less_not_sym)
      ultimately show ?thesis
        using e le u d(2) by (auto simp: span_def split: prod.splits option.splits)
    next
      case 3
      with Some d show ?thesis by (subst mapDelete_exact.simps) simp
    qed
  qed
qed

lemma mapDelete_correct:
  assumes m: "table_ok m" and fits: "unat addr + unat sz < 2 ^ 64"
  shows "table_ok (mapDelete addr sz m)" and "covered (mapDelete addr sz m) = covered m - span addr sz"
proof -
  have "table_ok (mapDelete addr sz m) \<and> covered (mapDelete addr sz m) = covered m - span addr sz"
  proof (cases "mapDelete_exact m addr sz")
    case (Pair m1 r)
    note ex = exact_correct [OF m fits, unfolded Pair, simplified]
    show ?thesis
    proof (cases r)
      case None
      with ex Pair show ?thesis by (simp add: mapDelete_def)
    next
      case (Some p)
      then obtain a s where p: "r = Some (a, s)" by (cases p) auto
      with ex have m1: "table_ok m1" and a: "unat addr \<le> unat a" "unat a + unat s = unat addr + unat sz"
        and c: "covered m1 = covered m - {unat addr..<unat a}" by simp_all
      have e: "unat (a + s) = unat addr + unat sz" using a fits by (simp add: addr_nat)
      have "sweep_inv (sort (gm_keys m1)) a (a + s) m1"
        using m1 gm.ok_keys [OF table_ok_gm [OF m1]] gm.keys_get [of m1] a e
        by (auto simp: sweep_inv_def)
      from sweep_correct [OF this] c a e have
        "table_ok (mapDelete_sweep (sort (gm_keys m1)) a (a + s) m1)"
        "covered (mapDelete_sweep (sort (gm_keys m1)) a (a + s) m1) = covered m - span addr sz"
        by (auto simp: span_def)
      with Pair p show ?thesis by (simp add: mapDelete_def)
    qed
  qed
  then show "table_ok (mapDelete addr sz m)" and "covered (mapDelete addr sz m) = covered m - span addr sz"
    by blast+
qed

lemma mapStore_correct:
  assumes "table_ok m" and "covered m \<inter> span addr sz = {}" and "0 < unat sz" and "unat addr + unat sz < 2 ^ 64"
  shows "table_ok (mapStore addr sz m)" and "covered (mapStore addr sz m) = covered m \<union> span addr sz"
proof -
  have "clear_at m (unat addr) (unat addr + unat sz)"
    unfolding clear_at_def
  proof (intro allI impI)
    fix b t assume b: "gm_get m b = Some t"
    note sub = covered_get [OF b] and pos = table_ok_pos [OF assms(1) b]
    show "unat addr + unat sz \<le> unat b \<or> unat b + unat t \<le> unat addr"
    proof (rule ccontr)
      assume n: "\<not> ?thesis"
      then have "max (unat addr) (unat b) \<in> span addr sz \<inter> span b t"
        using pos assms(3) by (auto simp: span_def)
      with sub assms(2) show False by blast
    qed
  qed
  from add_block [OF assms(1) this assms(3,4)]
  show "table_ok (mapStore addr sz m)" and "covered (mapStore addr sz m) = covered m \<union> span addr sz"
    by (simp_all add: mapStore_def)
qed

end
