(* ===== verification/FreeList.thy ===== *)
theory FreeList
  imports MapTable
begin

text \<open>
  The free list of the allocator in \<^verbatim>\<open>internal/debugger/mem.go\<close>: a doubly linked list of \<^verbatim>\<open>memBlock\<close>
  nodes, recycled through \<^verbatim>\<open>blockPool\<close>. The nodes live in an explicit store, a map from node
  identifiers to nodes, so that the pointer updates of \<^verbatim>\<open>InsertAfter\<close>, \<^verbatim>\<open>InsertBefore\<close> and \<^verbatim>\<open>Remove\<close>
  are modelled as they are written. The list runs from the highest address to the lowest along
  \<^verbatim>\<open>next\<close>; "after" and "before" in the names of the code refer to addresses.
\<close>

record memBlock =
  mb_addr :: u64
  mb_size :: u64
  mb_prev :: "nat option"
  mb_next :: "nat option"

text \<open>
  The store of nodes, the pool of removed ones and \<^verbatim>\<open>memoryManager.free\<close>. A node the pool creates
  has all fields zero. \<^verbatim>\<open>sync.Pool\<close> may drop what it holds; the model always reuses the node put
  last, which makes the most of the sharing the code has to get right.
\<close>

record freelist =
  blk :: "nat \<Rightarrow> memBlock"
  pool :: "nat list"
  fresh :: nat
  head :: "nat option"

definition zero_block :: memBlock where
  "zero_block = \<lparr>mb_addr = 0, mb_size = 0, mb_prev = None, mb_next = None\<rparr>"

definition empty_freelist :: freelist where
  "empty_freelist = \<lparr>blk = (\<lambda>_. zero_block), pool = [], fresh = 0, head = None\<rparr>"

definition pool_Get :: "freelist \<Rightarrow> nat \<times> freelist" where
  "pool_Get f = (case pool f of
     [] \<Rightarrow> (fresh f, f\<lparr>fresh := Suc (fresh f), blk := (blk f)(fresh f := zero_block)\<rparr>)
   | b # ps \<Rightarrow> (b, f\<lparr>pool := ps\<rparr>))"

definition upd :: "nat \<Rightarrow> (memBlock \<Rightarrow> memBlock) \<Rightarrow> freelist \<Rightarrow> freelist" where
  "upd i g f = f\<lparr>blk := (blk f)(i := g (blk f i))\<rparr>"

definition upd_opt :: "nat option \<Rightarrow> (memBlock \<Rightarrow> memBlock) \<Rightarrow> freelist \<Rightarrow> freelist" where
  "upd_opt p g f = (case p of None \<Rightarrow> f | Some i \<Rightarrow> upd i g f)"

definition mb_end :: "memBlock \<Rightarrow> u64" where
  "mb_end b = mb_addr b + mb_size b"

text \<open>\<^verbatim>\<open>(mb *memBlock) InsertAfter(addr, size)\<close>; \<^verbatim>\<open>mb\<close> may be nil. The new node precedes \<^verbatim>\<open>mb\<close> along \<^verbatim>\<open>next\<close>.\<close>

definition InsertAfter :: "nat option \<Rightarrow> u64 \<Rightarrow> u64 \<Rightarrow> freelist \<Rightarrow> nat \<times> freelist" where
  "InsertAfter mb a n f =
     (let (b, f1) = pool_Get f;
          f2 = upd b (\<lambda>x. x\<lparr>mb_addr := a, mb_size := n, mb_next := mb\<rparr>) f1
      in case mb of
           None \<Rightarrow> (b, f2)
         | Some m \<Rightarrow>
             (let f3 = upd b (\<lambda>x. x\<lparr>mb_prev := mb_prev (blk f2 m)\<rparr>) f2;
                  f4 = upd_opt (mb_prev (blk f3 m)) (\<lambda>x. x\<lparr>mb_next := Some b\<rparr>) f3;
                  f5 = upd m (\<lambda>x. x\<lparr>mb_prev := Some b\<rparr>) f4
              in (b, f5)))"

text \<open>\<^verbatim>\<open>(mb *memBlock) InsertBefore(addr, size)\<close>\<close>

definition InsertBefore :: "nat option \<Rightarrow> u64 \<Rightarrow> u64 \<Rightarrow> freelist \<Rightarrow> nat \<times> freelist" where
  "InsertBefore mb a n f =
     (let (b, f1) = pool_Get f;
          f2 = upd b (\<lambda>x. x\<lparr>mb_addr := a, mb_size := n, mb_prev := mb\<rparr>) f1
      in case mb of
           None \<Rightarrow> (b, f2)
         | Some m \<Rightarrow>
             (let f3 = upd b (\<lambda>x. x\<lparr>mb_next := mb_next (blk f2 m)\<rparr>) f2;
                  f4 = upd_opt (mb_next (blk f3 m)) (\<lambda>x. x\<lparr>mb_prev := Some b\<rparr>) f3;
                  f5 = upd m (\<lambda>x. x\<lparr>mb_next := Some b\<rparr>) f4
              in (b, f5)))"

text \<open>\<^verbatim>\<open>(mb *memBlock) Remove()\<close>\<close>

definition Remove :: "nat \<Rightarrow> freelist \<Rightarrow> freelist" where
  "Remove m f =
     (let f1 = upd_opt (mb_prev (blk f m)) (\<lambda>x. x\<lparr>mb_next := mb_next (blk f m)\<rparr>) f;
          f2 = upd_opt (mb_next (blk f1 m)) (\<lambda>x. x\<lparr>mb_prev := mb_prev (blk f1 m)\<rparr>) f1;
          f3 = upd m (\<lambda>x. x\<lparr>mb_prev := None, mb_next := None\<rparr>) f2
      in f3\<lparr>pool := m # pool f3\<rparr>)"

text \<open>
  The loop of \<^verbatim>\<open>memAlloc\<close> over \<^verbatim>\<open>mm.free.Range\<close>: the first node that is large enough. The list could be
  circular, so the search is a partial function: \<open>None\<close> means it does not return.
\<close>

partial_function (option) alloc_scan ::
  "(nat \<Rightarrow> memBlock) \<Rightarrow> u64 \<Rightarrow> nat option \<Rightarrow> nat option option" where
  "alloc_scan h n p =
     (case p of
        None \<Rightarrow> Some None
      | Some b \<Rightarrow> if n \<le> mb_size (h b) then Some (Some b) else alloc_scan h n (mb_next (h b)))"

text \<open>
  The body of that loop: take the low part of the node, or the whole node, and return its address;
  \<open>Some None\<close> when no node is large enough.
\<close>

definition fl_take :: "u64 \<Rightarrow> freelist \<Rightarrow> (u64 \<times> freelist) option option" where
  "fl_take n f =
     (case alloc_scan (blk f) n (head f) of
        None \<Rightarrow> None
      | Some None \<Rightarrow> Some None
      | Some (Some b) \<Rightarrow>
          (let addr = mb_addr (blk f b);
               f1 = upd b (\<lambda>x. x\<lparr>mb_size := mb_size x - n\<rparr>) f
           in if mb_size (blk f1 b) = 0
              then (let f2 = (if head f1 = Some b then f1\<lparr>head := mb_next (blk f1 b)\<rparr> else f1)
                    in Some (Some (addr, Remove b f2)))
              else Some (Some (addr, upd b (\<lambda>x. x\<lparr>mb_addr := addr + n\<rparr>) f1))))"

text \<open>The insertion at the head in \<^verbatim>\<open>memAlloc\<close>: \<^verbatim>\<open>mm.free = mm.free.InsertAfter(...)\<close>.\<close>

definition fl_push :: "u64 \<Rightarrow> u64 \<Rightarrow> freelist \<Rightarrow> freelist" where
  "fl_push a n f = (let (b, f1) = InsertAfter (head f) a n f in f1\<lparr>head := Some b\<rparr>)"

text \<open>
  The loop of \<^verbatim>\<open>memFree\<close>: it stops at the node that ends where the block begins (\<open>Merge\<close>), at the
  first node below the block (\<open>Above\<close>), or falls off the list with \<^verbatim>\<open>b\<close> the last node, or nil if
  there was none.
\<close>

datatype free_hit = Merge nat | Above nat | Fell "nat option"

partial_function (option) free_scan ::
  "(nat \<Rightarrow> memBlock) \<Rightarrow> u64 \<Rightarrow> u64 \<Rightarrow> nat option \<Rightarrow> nat option \<Rightarrow> free_hit option" where
  "free_scan h addr end lst p =
     (case p of
        None \<Rightarrow> Some (Fell lst)
      | Some b \<Rightarrow>
          if mb_end (h b) = addr then Some (Merge b)
          else if mb_addr (h b) < end then Some (Above b)
          else free_scan h addr end (Some b) (mb_next (h b)))"

definition fl_give :: "u64 \<Rightarrow> u64 \<Rightarrow> freelist \<Rightarrow> (unit, freelist) outcome option" where
  "fl_give addr n f =
     (let end = addr + n in
      case free_scan (blk f) addr end None (head f) of
        None \<Rightarrow> None
      | Some (Merge b) \<Rightarrow>
          (case mb_prev (blk f b) of
             Some q \<Rightarrow>
               if mb_addr (blk f q) \<noteq> end
               then Some (Ret () (upd b (\<lambda>x. x\<lparr>mb_size := mb_size x + n\<rparr>) f))
               else (let f1 = upd q (\<lambda>x. x\<lparr>mb_addr := mb_addr (blk f b)\<rparr>) f;
                         f2 = upd q (\<lambda>x. x\<lparr>mb_size := mb_size x + (mb_size (blk f1 b) + n)\<rparr>) f1
                     in Some (Ret () (Remove b f2)))
           | None \<Rightarrow> Some (Ret () (upd b (\<lambda>x. x\<lparr>mb_size := mb_size x + n\<rparr>) f)))
      | Some (Above b) \<Rightarrow>
          (let (nb, f1) = InsertAfter (Some b) addr n f
           in Some (Ret () (if head f1 = Some b then f1\<lparr>head := Some nb\<rparr> else f1)))
      | Some (Fell None) \<Rightarrow> Some (Panic NilDeref f)
      | Some (Fell (Some b)) \<Rightarrow>
          if mb_addr (blk f b) = end
          then Some (Ret () (upd b (\<lambda>x. x\<lparr>mb_addr := addr, mb_size := mb_size x + n\<rparr>) f))
          else Some (Ret () (snd (InsertBefore (Some b) addr n f))))"

section \<open>Doubly linked lists in the store\<close>

definition cell :: "memBlock \<Rightarrow> u64 \<times> u64" where
  "cell b = (mb_addr b, mb_size b)"

definition view :: "freelist \<Rightarrow> nat list \<Rightarrow> (u64 \<times> u64) list" where
  "view f ids = map (\<lambda>i. cell (blk f i)) ids"

fun headp :: "nat list \<Rightarrow> nat option \<Rightarrow> nat option" where
  "headp [] q = q"
| "headp (i # is) q = Some i"

fun lastp :: "nat list \<Rightarrow> nat option \<Rightarrow> nat option" where
  "lastp [] q = q"
| "lastp (i # is) q = lastp is (Some i)"

text \<open>
  \<open>dl h pv ids nx\<close>: the nodes \<open>ids\<close> are linked in this order in both directions, with \<open>pv\<close> before
  the first and \<open>nx\<close> after the last.
\<close>

fun dl :: "(nat \<Rightarrow> memBlock) \<Rightarrow> nat option \<Rightarrow> nat list \<Rightarrow> nat option \<Rightarrow> bool" where
  "dl h pv [] nx = True"
| "dl h pv (i # is) nx =
     (mb_prev (h i) = pv \<and> mb_next (h i) = headp is nx \<and> dl h (Some i) is nx)"

lemma headp_append [simp]: "headp (xs @ ys) q = headp xs (headp ys q)"
  by (cases xs) auto

lemma lastp_append [simp]: "lastp (xs @ ys) q = lastp ys (lastp xs q)"
  by (induction xs arbitrary: q) auto

lemma lastp_in: "lastp xs q = Some i \<Longrightarrow> i \<in> set xs \<or> q = Some i"
  by (induction xs arbitrary: q) auto

lemma headp_in: "headp xs q = Some i \<Longrightarrow> i \<in> set xs \<or> q = Some i"
  by (cases xs) auto

lemma dl_append [simp]:
  "dl h pv (xs @ ys) nx \<longleftrightarrow> dl h pv xs (headp ys nx) \<and> dl h (lastp xs pv) ys nx"
  by (induction xs arbitrary: pv) auto

lemma dl_cong:
  "(\<And>i. i \<in> set ids \<Longrightarrow> mb_prev (h i) = mb_prev (h' i) \<and> mb_next (h i) = mb_next (h' i)) \<Longrightarrow>
     dl h pv ids nx = dl h' pv ids nx"
  by (induction ids arbitrary: pv) auto

lemma dl_other: "i \<notin> set ids \<Longrightarrow> dl (h(i := b)) pv ids nx = dl h pv ids nx"
  by (rule dl_cong) auto

lemma blk_upd [simp]: "blk (upd i g f) = (blk f)(i := g (blk f i))"
  "pool (upd i g f) = pool f" "fresh (upd i g f) = fresh f" "head (upd i g f) = head f"
  by (simp_all add: upd_def)

lemma upd_opt_fields [simp]:
  "pool (upd_opt p g f) = pool f" "fresh (upd_opt p g f) = fresh f" "head (upd_opt p g f) = head f"
  by (simp_all add: upd_opt_def split: option.split)

lemma blk_upd_opt: "blk (upd_opt p g f) i = (if p = Some i then g (blk f i) else blk f i)"
  by (auto simp: upd_opt_def split: option.split)

lemma dl_last_next:
  assumes "dl (blk f) pv xs nx" and "distinct xs" and "pv \<noteq> None \<Longrightarrow> the pv \<notin> set xs"
  shows "dl (blk (upd_opt (lastp xs pv) (\<lambda>x. x\<lparr>mb_next := m\<rparr>) f)) pv xs m"
  using assms
proof (induction xs arbitrary: pv)
  case (Cons i xs)
  show ?case
  proof (cases xs)
    case Nil
    with Cons.prems show ?thesis by (simp add: blk_upd_opt)
  next
    case (Cons j ys)
    define h where "h = blk (upd_opt (lastp xs (Some i)) (\<lambda>x. x\<lparr>mb_next := m\<rparr>) f)"
    have "dl h (Some i) xs m"
      unfolding h_def using Cons.prems by (intro Cons.IH) auto
    moreover have "lastp xs (Some i) \<noteq> Some i"
      using Cons.prems(2) lastp_in [of ys "Some j" i] Cons by auto
    then have "h i = blk f i" by (simp add: h_def blk_upd_opt)
    ultimately have "dl h pv (i # xs) m" using Cons.prems(1) Cons by simp
    then show ?thesis by (simp only: h_def lastp.simps)
  qed
qed simp

lemma dl_first_prev:
  assumes "dl (blk f) pv ys nx" and "distinct ys" and "nx = None"
  shows "dl (blk (upd_opt (headp ys nx) (\<lambda>x. x\<lparr>mb_prev := p\<rparr>) f)) p ys nx"
  using assms by (cases ys) (auto simp: upd_opt_def dl_other)

section \<open>The list the store represents\<close>

definition fl_rep :: "freelist \<Rightarrow> nat list \<Rightarrow> bool" where
  "fl_rep f ids \<longleftrightarrow> head f = headp ids None \<and> dl (blk f) None ids None \<and>
     distinct ids \<and> distinct (pool f) \<and> set ids \<inter> set (pool f) = {} \<and>
     (\<forall>i \<in> set ids \<union> set (pool f). i < fresh f) \<and>
     (\<forall>i \<in> set (pool f). mb_prev (blk f i) = None \<and> mb_next (blk f i) = None)"

lemma fl_rep_empty: "fl_rep empty_freelist []"
  by (simp add: fl_rep_def empty_freelist_def)

lemma view_simps [simp]:
  "view f [] = []" "view f (i # is) = cell (blk f i) # view f is"
  "view f (xs @ ys) = view f xs @ view f ys" "(view f ids = []) = (ids = [])"
  by (simp_all add: view_def)

lemma view_cong: "(\<And>i. i \<in> set ids \<Longrightarrow> cell (blk f i) = cell (blk f' i)) \<Longrightarrow> view f ids = view f' ids"
  by (simp add: view_def)

lemma alloc_scan_find:
  "dl h pv ids None \<Longrightarrow>
     alloc_scan h n (headp ids None) = Some (find (\<lambda>i. n \<le> mb_size (h i)) ids)"
proof (induction ids arbitrary: pv)
  case Nil
  show ?case by (subst alloc_scan.simps) simp
next
  case (Cons i ids)
  then show ?case by (subst alloc_scan.simps) auto
qed

fun scan_list :: "(nat \<Rightarrow> memBlock) \<Rightarrow> u64 \<Rightarrow> u64 \<Rightarrow> nat option \<Rightarrow> nat list \<Rightarrow> free_hit" where
  "scan_list h addr end lst [] = Fell lst"
| "scan_list h addr end lst (b # bs) =
     (if mb_end (h b) = addr then Merge b
      else if mb_addr (h b) < end then Above b
      else scan_list h addr end (Some b) bs)"

lemma free_scan_list:
  "dl h pv ids None \<Longrightarrow>
     free_scan h addr end lst (headp ids None) = Some (scan_list h addr end lst ids)"
proof (induction ids arbitrary: pv lst)
  case Nil
  show ?case by (subst free_scan.simps) simp
next
  case (Cons i ids)
  then show ?case by (subst free_scan.simps) auto
qed

section \<open>The node operations on the represented list\<close>

lemma dl_upd_opt_other:
  "(\<And>j. p = Some j \<Longrightarrow> j \<notin> set ids) \<Longrightarrow> dl (blk (upd_opt p g f)) pv ids nx = dl (blk f) pv ids nx"
  by (rule dl_cong) (auto simp: blk_upd_opt)

lemma cell_links [simp]:
  "cell (b\<lparr>mb_prev := p\<rparr>) = cell b" "cell (b\<lparr>mb_next := p\<rparr>) = cell b"
  by (simp_all add: cell_def)

lemma pool_Get_rep:
  assumes "fl_rep f ids" and "pool_Get f = (b, f1)"
  shows "fl_rep f1 ids" and "b \<notin> set ids" and "b \<notin> set (pool f1)" and "b < fresh f1"
    and "mb_prev (blk f1 b) = None" and "view f1 ids = view f ids"
proof -
  have "fl_rep f1 ids \<and> b \<notin> set ids \<and> b \<notin> set (pool f1) \<and> b < fresh f1 \<and>
        mb_prev (blk f1 b) = None \<and> view f1 ids = view f ids"
  proof (cases "pool f")
    case Nil
    with assms have fb: "b = fresh f"
      and f1: "f1 = f\<lparr>fresh := Suc b, blk := (blk f)(b := zero_block)\<rparr>"
      by (auto simp: pool_Get_def)
    have "b \<notin> set ids" using assms(1) fb by (auto simp: fl_rep_def)
    then show ?thesis
      using assms(1) Nil by (auto simp: f1 fb fl_rep_def dl_other zero_block_def view_def)
  next
    case (Cons c ps)
    with assms have "b = c" and "f1 = f\<lparr>pool := ps\<rparr>" by (auto simp: pool_Get_def)
    with assms(1) Cons show ?thesis by (auto simp: fl_rep_def view_def)
  qed
  then show "fl_rep f1 ids" and "b \<notin> set ids" and "b \<notin> set (pool f1)" and "b < fresh f1"
    and "mb_prev (blk f1 b) = None" and "view f1 ids = view f ids" by auto
qed

lemma fl_repD:
  assumes "fl_rep f ids"
  shows "head f = headp ids None" and "dl (blk f) None ids None" and "distinct ids"
    and "distinct (pool f)" and "set ids \<inter> set (pool f) = {}"
    and "\<And>i. i \<in> set ids \<Longrightarrow> i < fresh f" and "\<And>i. i \<in> set (pool f) \<Longrightarrow> i < fresh f"
    and "\<And>i. i \<in> set (pool f) \<Longrightarrow> mb_prev (blk f i) = None \<and> mb_next (blk f i) = None"
  using assms by (auto simp: fl_rep_def)

lemma InsertAfter_rep:
  assumes rep: "fl_rep f (xs @ i # ys)" and ins: "InsertAfter (Some i) a n f = (b, f')"
  shows "fl_rep (f'\<lparr>head := headp (xs @ [b]) None\<rparr>) (xs @ b # i # ys)"
    and "view f' (xs @ b # i # ys) = view f xs @ (a, n) # view f (i # ys)"
    and "head f' = head f"
proof -
  obtain f1 where get: "pool_Get f = (b, f1)"
    using ins by (auto simp: InsertAfter_def Let_def split: prod.splits)
  note g = pool_Get_rep [OF rep get]
  note r = fl_repD [OF g(1)]
  define f2 where "f2 = upd b (\<lambda>x. x\<lparr>mb_addr := a, mb_size := n, mb_next := Some i\<rparr>) f1"
  define f3 where "f3 = upd b (\<lambda>x. x\<lparr>mb_prev := mb_prev (blk f2 i)\<rparr>) f2"
  define f4 where "f4 = upd_opt (mb_prev (blk f3 i)) (\<lambda>x. x\<lparr>mb_next := Some b\<rparr>) f3"
  have f': "f' = upd i (\<lambda>x. x\<lparr>mb_prev := Some b\<rparr>) f4"
    using ins get by (auto simp: InsertAfter_def Let_def f2_def f3_def f4_def)
  have bi: "b \<noteq> i" "b \<notin> set xs" "b \<notin> set ys" and di: "i \<notin> set xs" "i \<notin> set ys"
    "distinct xs" "set xs \<inter> set ys = {}" using g(2) r(3) by auto
  have pi: "mb_prev (blk f1 i) = lastp xs None" using r(2) by simp
  have f4: "f4 = upd_opt (lastp xs None) (\<lambda>x. x\<lparr>mb_next := Some b\<rparr>) f3"
    using bi pi by (simp add: f4_def f3_def f2_def)
  have lx: "j \<in> set xs" if "lastp xs None = Some j" for j using lastp_in [OF that] by simp
  have x3: "dl (blk f3) None xs (Some i)" and y3: "dl (blk f3) (Some i) ys None"
    using r(2) bi by (simp_all add: f3_def f2_def dl_other)
  have x4: "dl (blk f4) None xs (Some b)"
    unfolding f4 using x3 di(3) by (rule dl_last_next) simp
  have b4: "blk f4 b = blk f3 b" "blk f4 i = blk f1 i"
    using lx bi di by (auto simp: f4 f3_def f2_def blk_upd_opt)
  have y4: "dl (blk f4) (Some i) ys None"
    unfolding f4 using lx di by (subst dl_upd_opt_other) (auto intro: y3)
  have new: "mb_prev (blk f3 b) = lastp xs None" "mb_next (blk f3 b) = Some i" "cell (blk f3 b) = (a, n)"
    using bi pi by (simp_all add: f3_def f2_def cell_def)
  have "dl (blk f') None (xs @ b # i # ys) None"
    using x4 y4 b4 new bi di r(2) by (simp add: f' dl_other)
  moreover have keep: "cell (blk f' j) = cell (blk f1 j)" if "j \<noteq> b" for j
    using that by (auto simp: f' f4 f3_def f2_def blk_upd_opt)
  moreover have links: "blk f' j = blk f1 j" if "j \<in> set (pool f1)" for j
    using that g(3) r(5) lx by (auto simp: f' f4 f3_def f2_def blk_upd_opt)
  moreover have flds: "pool f' = pool f1" "fresh f' = fresh f1" "head f' = head f1"
    by (simp_all add: f' f4 f3_def f2_def)
  ultimately show "fl_rep (f'\<lparr>head := headp (xs @ [b]) None\<rparr>) (xs @ b # i # ys)"
    using r g by (auto simp: fl_rep_def)
  have "cell (blk f' b) = (a, n)" using b4 bi new by (simp add: f')
  have keep': "cell (blk f' j) = cell (blk f j)" if "j \<in> set (xs @ i # ys)" for j
  proof -
    from that bi have "j \<noteq> b" by auto
    from keep [OF this] that g(6) show ?thesis by (auto simp: view_def)
  qed
  with keep' \<open>cell (blk f' b) = (a, n)\<close> show "view f' (xs @ b # i # ys) = view f xs @ (a, n) # view f (i # ys)"
    by (auto simp: view_def)
  show "head f' = head f" using flds get by (auto simp: pool_Get_def split: list.splits)
qed

lemma InsertBefore_rep:
  assumes rep: "fl_rep f (xs @ i # ys)" and ins: "InsertBefore (Some i) a n f = (b, f')"
  shows "fl_rep f' (xs @ i # b # ys)"
    and "view f' (xs @ i # b # ys) = view f (xs @ [i]) @ (a, n) # view f ys"
proof -
  obtain f1 where get: "pool_Get f = (b, f1)"
    using ins by (auto simp: InsertBefore_def Let_def split: prod.splits)
  note g = pool_Get_rep [OF rep get]
  note r = fl_repD [OF g(1)]
  define f2 where "f2 = upd b (\<lambda>x. x\<lparr>mb_addr := a, mb_size := n, mb_prev := Some i\<rparr>) f1"
  define f3 where "f3 = upd b (\<lambda>x. x\<lparr>mb_next := mb_next (blk f2 i)\<rparr>) f2"
  define f4 where "f4 = upd_opt (mb_next (blk f3 i)) (\<lambda>x. x\<lparr>mb_prev := Some b\<rparr>) f3"
  have f': "f' = upd i (\<lambda>x. x\<lparr>mb_next := Some b\<rparr>) f4"
    using ins get by (auto simp: InsertBefore_def Let_def f2_def f3_def f4_def)
  have bi: "b \<noteq> i" "b \<notin> set xs" "b \<notin> set ys" and di: "i \<notin> set xs" "i \<notin> set ys"
    "distinct ys" "set xs \<inter> set ys = {}" using g(2) r(3) by auto
  have ni: "mb_next (blk f1 i) = headp ys None" using r(2) by simp
  have f4: "f4 = upd_opt (headp ys None) (\<lambda>x. x\<lparr>mb_prev := Some b\<rparr>) f3"
    using bi ni by (simp add: f4_def f3_def f2_def)
  have hy: "j \<in> set ys" if "headp ys None = Some j" for j using headp_in [OF that] by simp
  have x3: "dl (blk f3) None xs (Some i)" and y3: "dl (blk f3) (Some i) ys None"
    using r(2) bi by (simp_all add: f3_def f2_def dl_other)
  have y4: "dl (blk f4) (Some b) ys None"
    unfolding f4 using y3 di(3) by (rule dl_first_prev) simp
  have b4: "blk f4 b = blk f3 b" "blk f4 i = blk f1 i"
    using hy bi di by (auto simp: f4 f3_def f2_def blk_upd_opt)
  have x4: "dl (blk f4) None xs (Some i)"
    unfolding f4 using hy di by (subst dl_upd_opt_other) (auto intro: x3)
  have new: "mb_next (blk f3 b) = headp ys None" "mb_prev (blk f3 b) = Some i" "cell (blk f3 b) = (a, n)"
    using bi ni by (simp_all add: f3_def f2_def cell_def)
  have "dl (blk f') None (xs @ i # b # ys) None"
    using x4 y4 b4 new bi di r(2) by (simp add: f' dl_other)
  moreover have keep: "cell (blk f' j) = cell (blk f1 j)" if "j \<noteq> b" for j
    using that by (auto simp: f' f4 f3_def f2_def blk_upd_opt)
  moreover have links: "blk f' j = blk f1 j" if "j \<in> set (pool f1)" for j
    using that g(3) r(5) hy by (auto simp: f' f4 f3_def f2_def blk_upd_opt)
  moreover have flds: "pool f' = pool f1" "fresh f' = fresh f1" "head f' = head f1"
    by (simp_all add: f' f4 f3_def f2_def)
  ultimately show "fl_rep f' (xs @ i # b # ys)"
    using r g by (auto simp: fl_rep_def)
  have "cell (blk f' b) = (a, n)" using b4 bi new by (simp add: f')
  have keep': "cell (blk f' j) = cell (blk f j)" if "j \<in> set (xs @ i # ys)" for j
  proof -
    from that bi have "j \<noteq> b" by auto
    from keep [OF this] that g(6) show ?thesis by (auto simp: view_def)
  qed
  with keep' \<open>cell (blk f' b) = (a, n)\<close> show "view f' (xs @ i # b # ys) = view f (xs @ [i]) @ (a, n) # view f ys"
    by (auto simp: view_def)
qed

lemma Remove_rep:
  assumes rep: "fl_rep f (xs @ i # ys)"
  shows "fl_rep ((Remove i f)\<lparr>head := headp (xs @ ys) None\<rparr>) (xs @ ys)"
    and "view (Remove i f) (xs @ ys) = view f xs @ view f ys" and "head (Remove i f) = head f"
proof -
  note r = fl_repD [OF rep]
  have di: "i \<notin> set xs" "i \<notin> set ys" "distinct xs" "distinct ys" "set xs \<inter> set ys = {}"
    using r(3) by auto
  have li: "mb_prev (blk f i) = lastp xs None" "mb_next (blk f i) = headp ys None" using r(2) by simp_all
  have lx: "j \<in> set xs" if "lastp xs None = Some j" for j using lastp_in [OF that] by simp
  have hy: "j \<in> set ys" if "headp ys None = Some j" for j using headp_in [OF that] by simp
  define f1 where "f1 = upd_opt (lastp xs None) (\<lambda>x. x\<lparr>mb_next := headp ys None\<rparr>) f"
  have b1: "blk f1 i = blk f i" using lx di by (auto simp: f1_def blk_upd_opt)
  define f2 where "f2 = upd_opt (headp ys None) (\<lambda>x. x\<lparr>mb_prev := lastp xs None\<rparr>) f1"
  define f3 where "f3 = upd i (\<lambda>x. x\<lparr>mb_prev := None, mb_next := None\<rparr>) f2"
  have rem: "Remove i f = f3\<lparr>pool := i # pool f3\<rparr>"
    unfolding Remove_def Let_def li f1_def [symmetric] b1 f2_def [symmetric] f3_def [symmetric] ..
  have x0: "dl (blk f) None xs (Some i)" and y0: "dl (blk f) (Some i) ys None" using r(2) by simp_all
  have x1: "dl (blk f1) None xs (headp ys None)"
    unfolding f1_def using x0 di(3) by (rule dl_last_next) simp
  have y1: "dl (blk f1) (Some i) ys None"
    unfolding f1_def using lx di by (subst dl_upd_opt_other) (auto intro: y0)
  have x2: "dl (blk f2) None xs (headp ys None)"
    unfolding f2_def using hy di by (subst dl_upd_opt_other) (auto intro: x1)
  have y2: "dl (blk f2) (lastp xs None) ys None"
    unfolding f2_def using y1 di(4) by (rule dl_first_prev) simp
  have "dl (blk f3) None (xs @ ys) None" using x2 y2 di by (simp add: f3_def dl_other)
  moreover have keep: "cell (blk f3 j) = cell (blk f j)" for j
    by (auto simp: f3_def f2_def f1_def blk_upd_opt)
  moreover have "blk f3 j = blk f j" if "j \<in> set (pool f)" for j
    using that r(5) lx hy by (auto simp: f3_def f2_def f1_def blk_upd_opt)
  moreover have flds: "pool f3 = pool f" "fresh f3 = fresh f" "head f3 = head f"
    by (simp_all add: f3_def f2_def f1_def)
  moreover have "i \<notin> set (pool f)" using r(5) by auto
  moreover have "mb_prev (blk f3 i) = None" "mb_next (blk f3 i) = None" by (simp_all add: f3_def)
  ultimately show "fl_rep ((Remove i f)\<lparr>head := headp (xs @ ys) None\<rparr>) (xs @ ys)"
    using r by (auto simp: fl_rep_def rem)
  show "view (Remove i f) (xs @ ys) = view f xs @ view f ys"
    using keep by (simp add: rem view_def)
  show "head (Remove i f) = head f" by (simp add: rem flds)
qed

end
