(* ===== verification/Arena.thy ===== *)
theory Arena
  imports FreeList
begin

text \<open>
  The contract of the free list. \<open>take_list\<close> and \<open>give_list\<close> are the allocation and the release on a
  plain list of address ranges, in the order of the code's list; the store operations of \<open>FreeList\<close>
  are proved to refine them. The locale \<open>arena\<close> states what the allocator relies on, over the set
  of addresses the free list holds, and is interpreted by the store operations.
\<close>

section \<open>Allocation and release on a list of ranges\<close>

fun take_list :: "u64 \<Rightarrow> (u64 \<times> u64) list \<Rightarrow> (u64 \<times> (u64 \<times> u64) list) option" where
  "take_list n [] = None"
| "take_list n ((a, m) # xs) =
     (if n \<le> m then Some (a, if m - n = 0 then xs else (a + n, m - n) # xs)
      else map_option (map_prod id ((#) (a, m))) (take_list n xs))"

text \<open>\<open>give_list a n pre xs\<close> has passed the ranges \<open>pre\<close> (the last passed one first).\<close>

fun give_list ::
  "u64 \<Rightarrow> u64 \<Rightarrow> (u64 \<times> u64) list \<Rightarrow> (u64 \<times> u64) list \<Rightarrow> (u64 \<times> u64) list option" where
  "give_list a n [] [] = None"
| "give_list a n ((b, m) # pre) [] =
     Some (rev pre @ (if b = a + n then [(a, m + n)] else [(b, m), (a, n)]))"
| "give_list a n pre ((b, m) # xs) =
     (if b + m = a then
        (case pre of
           [] \<Rightarrow> Some ((b, m + n) # xs)
         | (c, k) # pre' \<Rightarrow>
             if c \<noteq> a + n then Some (rev pre @ (b, m + n) # xs)
             else Some (rev pre' @ (b, k + (m + n)) # xs))
      else if b < a + n then Some (rev pre @ (a, n) # (b, m) # xs)
      else give_list a n ((b, m) # pre) xs)"

lemma take_list_hit: "q \<in> set xs \<Longrightarrow> n \<le> snd q \<Longrightarrow> take_list n xs \<noteq> None"
  by (induction xs) auto

lemma take_list_at:
  assumes "\<forall>(b, m) \<in> set pre. \<not> n \<le> m" and "n \<le> m"
  shows "take_list n (pre @ (a, m) # post) =
           Some (a, pre @ (if m - n = 0 then post else (a + n, m - n) # post))"
  using assms by (induction pre) auto

lemma take_list_none: "(\<forall>(b, m) \<in> set xs. \<not> n \<le> m) \<Longrightarrow> take_list n xs = None"
  by (induction xs) auto

lemma give_list_skip:
  "(\<forall>(b, m) \<in> set xs. b + m \<noteq> a \<and> \<not> b < a + n) \<Longrightarrow>
     give_list a n pre (xs @ zs) = give_list a n (rev xs @ pre) zs"
  by (induction xs arbitrary: pre) auto

section \<open>The store refines the list\<close>

lemma find_split:
  "find P xs = Some b \<Longrightarrow> \<exists>ys zs. xs = ys @ b # zs \<and> P b \<and> (\<forall>y \<in> set ys. \<not> P y)"
proof (induction xs)
  case (Cons x xs)
  show ?case
  proof (cases "P x")
    case True
    with Cons.prems have "x = b" by simp
    with True show ?thesis by (intro exI [of _ "[]"] exI [of _ xs]) auto
  next
    case False
    with Cons.prems obtain ys zs where "xs = ys @ b # zs" "P b" "\<forall>y \<in> set ys. \<not> P y"
      using Cons.IH by auto
    with False show ?thesis by (intro exI [of _ "x # ys"] exI [of _ zs]) auto
  qed
qed simp

lemma view_upd_other: "i \<notin> set ids \<Longrightarrow> view (upd i g f) ids = view f ids"
  by (auto simp: view_def)

lemma fl_rep_upd:
  assumes "fl_rep f ids" and "i \<in> set ids"
    and "mb_prev (g (blk f i)) = mb_prev (blk f i)" and "mb_next (g (blk f i)) = mb_next (blk f i)"
  shows "fl_rep (upd i g f) ids"
proof -
  have "dl (blk (upd i g f)) None ids None = dl (blk f) None ids None"
    by (rule dl_cong) (use assms(3,4) in auto)
  with assms(1,2) show ?thesis by (auto simp: fl_rep_def)
qed

theorem fl_take_refines:
  assumes rep: "fl_rep f ids"
  shows "case fl_take n f of
           None \<Rightarrow> False
         | Some None \<Rightarrow> take_list n (view f ids) = None
         | Some (Some (a, f')) \<Rightarrow>
             \<exists>ids'. fl_rep f' ids' \<and> take_list n (view f ids) = Some (a, view f' ids')"
proof -
  note r = fl_repD [OF rep]
  have scan: "alloc_scan (blk f) n (head f) = Some (find (\<lambda>i. n \<le> mb_size (blk f i)) ids)"
    using alloc_scan_find [OF r(2)] r(1) by simp
  show ?thesis
  proof (cases "find (\<lambda>i. n \<le> mb_size (blk f i)) ids")
    case None
    then have "\<forall>i \<in> set ids. \<not> n \<le> mb_size (blk f i)" by (auto simp: find_None_iff)
    then have "take_list n (view f ids) = None"
      by (intro take_list_none) (auto simp: view_def cell_def)
    then show ?thesis using scan None by (simp add: fl_take_def)
  next
    case (Some b)
    from find_split [OF Some] obtain xs ys where ids: "ids = xs @ b # ys"
      and fit: "n \<le> mb_size (blk f b)" and no: "\<forall>y \<in> set xs. \<not> n \<le> mb_size (blk f y)" by blast
    have nb: "b \<notin> set xs" "b \<notin> set ys" using r(3) ids by auto
    define f1 where "f1 = upd b (\<lambda>x. x\<lparr>mb_size := mb_size x - n\<rparr>) f"
    have rep1: "fl_rep f1 (xs @ b # ys)"
      using rep unfolding f1_def ids by (rule fl_rep_upd) simp_all
    have v1: "view f1 xs = view f xs" "view f1 ys = view f ys"
      using nb by (simp_all add: f1_def view_upd_other)
    have tl: "take_list n (view f ids) =
        Some (mb_addr (blk f b), view f xs @
          (if mb_size (blk f b) - n = 0 then view f ys
           else (mb_addr (blk f b) + n, mb_size (blk f b) - n) # view f ys))"
      unfolding ids view_simps using no fit
      by (simp only: cell_def) (intro take_list_at, auto simp: view_def cell_def)
    show ?thesis
    proof (cases "mb_size (blk f b) - n = 0")
      case True
      define f2 where "f2 = (if head f1 = Some b then f1\<lparr>head := mb_next (blk f1 b)\<rparr> else f1)"
      have hd: "(Remove b f2) = (Remove b f1)\<lparr>head := headp (xs @ ys) None\<rparr>"
      proof -
        have "head f1 = headp xs (Some b)" using fl_repD(1) [OF rep1] by simp
        moreover have "mb_next (blk f1 b) = headp ys None" using fl_repD(2) [OF rep1] by simp
        moreover have "headp xs (Some b) = Some b \<longleftrightarrow> xs = []" using nb by (cases xs) auto
        moreover have "Remove b (f1\<lparr>head := q\<rparr>) = (Remove b f1)\<lparr>head := q\<rparr>" for q
          by (simp add: Remove_def Let_def upd_opt_def upd_def split: option.split)
        moreover have "Remove b f1 = (Remove b f1)\<lparr>head := head f1\<rparr>"
          using Remove_rep(3) [OF rep1] by (metis freelist.surjective freelist.update_convs(4))
        moreover have "headp xs None = headp xs (Some b)" if "xs \<noteq> []" using that by (cases xs) auto
        ultimately show ?thesis by (cases xs) (auto simp: f2_def)
      qed
      have "fl_take n f = Some (Some (mb_addr (blk f b), Remove b f2))"
        using scan Some True by (simp add: fl_take_def f1_def f2_def Let_def)
      moreover have "fl_rep (Remove b f2) (xs @ ys)"
        unfolding hd by (rule Remove_rep(1) [OF rep1])
      moreover have "view (Remove b f2) (xs @ ys) = view f xs @ view f ys"
        using Remove_rep(2) [OF rep1] v1 by (simp add: hd view_def)
      ultimately show ?thesis using tl True by auto
    next
      case False
      define f2 where "f2 = upd b (\<lambda>x. x\<lparr>mb_addr := mb_addr (blk f b) + n\<rparr>) f1"
      have "fl_take n f = Some (Some (mb_addr (blk f b), f2))"
        using scan Some False by (simp add: fl_take_def f1_def f2_def Let_def)
      moreover have "fl_rep f2 ids"
        unfolding f2_def ids using rep1 by (rule fl_rep_upd) simp_all
      moreover have "view f2 ids = view f xs @ (mb_addr (blk f b) + n, mb_size (blk f b) - n) # view f ys"
        using v1 nb by (simp add: ids f2_def view_upd_other) (simp add: f1_def cell_def)
      ultimately show ?thesis using tl False by auto
    qed
  qed
qed

lemma scan_split:
  "\<exists>xs ys. ids = xs @ ys \<and> (\<forall>y \<in> set xs. mb_end (h y) \<noteq> a \<and> \<not> mb_addr (h y) < e) \<and>
     (case scan_list h a e lst ids of
        Merge b \<Rightarrow> (\<exists>zs. ys = b # zs) \<and> mb_end (h b) = a
      | Above b \<Rightarrow> (\<exists>zs. ys = b # zs) \<and> mb_end (h b) \<noteq> a \<and> mb_addr (h b) < e
      | Fell q \<Rightarrow> ys = [] \<and> q = lastp xs lst)"
proof (induction ids arbitrary: lst)
  case Nil
  show ?case by simp
next
  case (Cons i ids)
  show ?case
  proof (cases "mb_end (h i) = a \<or> mb_addr (h i) < e")
    case True
    then show ?thesis by (intro exI [of _ "[]"] exI [of _ "i # ids"]) auto
  next
    case False
    then have go: "scan_list h a e lst (i # ids) = scan_list h a e (Some i) ids" by simp
    from Cons.IH [of "Some i"] obtain xs ys where
      "ids = xs @ ys" "\<forall>y \<in> set xs. mb_end (h y) \<noteq> a \<and> \<not> mb_addr (h y) < e"
      and "case scan_list h a e (Some i) ids of
        Merge b \<Rightarrow> (\<exists>zs. ys = b # zs) \<and> mb_end (h b) = a
      | Above b \<Rightarrow> (\<exists>zs. ys = b # zs) \<and> mb_end (h b) \<noteq> a \<and> mb_addr (h b) < e
      | Fell q \<Rightarrow> ys = [] \<and> q = lastp xs (Some i)" by blast
    with False show ?thesis
      by (intro exI [of _ "i # xs"] exI [of _ ys]) (auto simp: go split: free_hit.splits)
  qed
qed

lemma lastp_snoc: "xs \<noteq> [] \<Longrightarrow> lastp xs q = Some (last xs)"
  by (induction xs arbitrary: q) auto

lemma lastp_None: "lastp xs None = None \<longleftrightarrow> xs = []"
  using lastp_snoc by fastforce

theorem fl_give_refines:
  assumes rep: "fl_rep f ids"
  shows "case fl_give a n f of
           None \<Rightarrow> False
         | Some (Panic p f') \<Rightarrow> p = NilDeref \<and> f' = f \<and> ids = [] \<and> give_list a n [] (view f ids) = None
         | Some (Ret u f') \<Rightarrow>
             \<exists>ids'. fl_rep f' ids' \<and> give_list a n [] (view f ids) = Some (view f' ids')"
proof -
  note r = fl_repD [OF rep]
  let ?s = "scan_list (blk f) a (a + n) None ids"
  have scan: "free_scan (blk f) a (a + n) None (head f) = Some ?s"
    using free_scan_list [OF r(2)] r(1) by simp
  obtain xs ys where ids: "ids = xs @ ys"
    and pass: "\<forall>y \<in> set xs. mb_end (blk f y) \<noteq> a \<and> \<not> mb_addr (blk f y) < a + n"
    and hit: "case ?s of
        Merge b \<Rightarrow> (\<exists>zs. ys = b # zs) \<and> mb_end (blk f b) = a
      | Above b \<Rightarrow> (\<exists>zs. ys = b # zs) \<and> mb_end (blk f b) \<noteq> a \<and> mb_addr (blk f b) < a + n
      | Fell q \<Rightarrow> ys = [] \<and> q = lastp xs None"
    using scan_split [of ids "blk f" a "a + n" None] by blast
  have skip: "give_list a n [] (view f ids) = give_list a n (rev (view f xs)) (view f ys)"
    unfolding ids view_simps using pass
    by (subst give_list_skip) (auto simp: view_def cell_def mb_end_def)
  show ?thesis
  proof (cases ?s)
    case (Merge b)
    with hit obtain zs where ys: "ys = b # zs" and e: "mb_end (blk f b) = a" by auto
    have nb: "b \<notin> set xs" "b \<notin> set zs" using r(3) ids ys by auto
    have pv: "mb_prev (blk f b) = lastp xs None" using r(2) ids ys by simp
    let ?grow = "upd b (\<lambda>x. x\<lparr>mb_size := mb_size x + n\<rparr>) f"
    have grow: "fl_rep ?grow (xs @ b # zs)"
      using rep unfolding ids ys by (rule fl_rep_upd) simp_all
    have vg: "view ?grow (xs @ b # zs) = view f xs @ (mb_addr (blk f b), mb_size (blk f b) + n) # view f zs"
      using nb by (simp add: view_upd_other) (simp add: cell_def)
    show ?thesis
    proof (cases xs rule: rev_cases)
      case Nil
      have "give_list a n [] (view f ids) = Some (view ?grow (xs @ b # zs))"
        unfolding skip ys vg using Nil e by (simp add: cell_def mb_end_def)
      with grow scan Merge pv Nil show ?thesis
        by (auto simp: fl_give_def Let_def)
    next
      case (snoc ws q)
      have pq: "mb_prev (blk f b) = Some q" using pv snoc by simp
      have nq: "q \<noteq> b" "q \<notin> set ws" "q \<notin> set zs" using r(3) ids ys snoc by auto
      show ?thesis
      proof (cases "mb_addr (blk f q) = a + n")
        case False
        have "give_list a n [] (view f ids) = Some (view ?grow (xs @ b # zs))"
          unfolding skip ys vg using snoc e False by (simp add: cell_def mb_end_def)
        with grow scan Merge pq False show ?thesis
          by (auto simp: fl_give_def Let_def)
      next
        case True
        define f1 where "f1 = upd q (\<lambda>x. x\<lparr>mb_addr := mb_addr (blk f b)\<rparr>) f"
        define f2 where "f2 = upd q (\<lambda>x. x\<lparr>mb_size := mb_size x + (mb_size (blk f1 b) + n)\<rparr>) f1"
        have "fl_rep f1 (xs @ b # zs)"
          unfolding f1_def using rep[unfolded ids ys] by (rule fl_rep_upd) (use snoc in auto)
        then have rep2: "fl_rep f2 (xs @ b # zs)"
          unfolding f2_def by (rule fl_rep_upd) (use snoc in auto)
        have v2: "view f2 (xs @ zs) = view f ws @
            (mb_addr (blk f b), mb_size (blk f q) + (mb_size (blk f b) + n)) # view f zs"
          using nq by (simp add: snoc f2_def f1_def view_upd_other) (simp add: cell_def)
        have "fl_give a n f = Some (Ret () (Remove b f2))"
          using scan Merge pq True by (simp add: fl_give_def Let_def f1_def f2_def)
        moreover have "fl_rep (Remove b f2) (xs @ zs)"
        proof -
          have "head f2 = headp (xs @ zs) None"
            using fl_repD(1) [OF rep2] snoc by (cases ws) auto
          then have "Remove b f2 = (Remove b f2)\<lparr>head := headp (xs @ zs) None\<rparr>"
            using Remove_rep(3) [OF rep2] by simp
          with Remove_rep(1) [OF rep2] show ?thesis by metis
        qed
        moreover have "give_list a n [] (view f ids) = Some (view (Remove b f2) (xs @ zs))"
          unfolding skip ys using Remove_rep(2) [OF rep2] v2 snoc e True
          by (simp add: cell_def mb_end_def)
        ultimately show ?thesis by auto
      qed
    qed
  next
    case (Above b)
    with hit obtain zs where ys: "ys = b # zs" and e: "mb_end (blk f b) \<noteq> a" "mb_addr (blk f b) < a + n"
      by auto
    obtain nb f1 where ins: "InsertAfter (Some b) a n f = (nb, f1)" by (cases "InsertAfter (Some b) a n f") auto
    note i = InsertAfter_rep [OF rep [unfolded ids ys] ins]
    have nbx: "b \<notin> set xs" using r(3) ids ys by auto
    let ?f = "if head f1 = Some b then f1\<lparr>head := Some nb\<rparr> else f1"
    have h: "?f = f1\<lparr>head := headp (xs @ [nb]) None\<rparr>"
      using i(3) r(1) nbx by (cases xs) (auto simp: ids ys)
    have "fl_give a n f = Some (Ret () ?f)"
      using scan Above ins by (simp add: fl_give_def Let_def)
    moreover have "fl_rep ?f (xs @ nb # b # zs)" unfolding h by (rule i(1))
    moreover have "view ?f (xs @ nb # b # zs) = view f1 (xs @ nb # b # zs)" by (simp add: view_def)
    moreover have "give_list a n [] (view f ids) = Some (view f xs @ (a, n) # view f ys)"
      unfolding skip ys using e by (cases "rev (view f xs)") (auto simp: cell_def mb_end_def)
    ultimately show ?thesis using i(2) ys by auto
  next
    case (Fell q)
    with hit have ys: "ys = []" and q: "q = lastp xs None" by auto
    show ?thesis
    proof (cases xs rule: rev_cases)
      case Nil
      with ys q Fell scan ids show ?thesis by (simp add: fl_give_def Let_def)
    next
      case (snoc ws b)
      have qb: "q = Some b" using q snoc by simp
      have nb: "b \<notin> set ws" using r(3) ids snoc by auto
      show ?thesis
      proof (cases "mb_addr (blk f b) = a + n")
        case True
        let ?f = "upd b (\<lambda>x. x\<lparr>mb_addr := a, mb_size := mb_size x + n\<rparr>) f"
        have "fl_give a n f = Some (Ret () ?f)"
          using scan Fell qb True by (simp add: fl_give_def Let_def)
        moreover have "fl_rep ?f ids"
          using rep by (rule fl_rep_upd) (use ids snoc in auto)
        moreover have "give_list a n [] (view f ids) = Some (view ?f ids)"
          unfolding skip using ids ys snoc True nb by (simp add: view_upd_other) (simp add: cell_def)
        ultimately show ?thesis by auto
      next
        case False
        obtain c f1 where ins: "InsertBefore (Some b) a n f = (c, f1)"
          by (cases "InsertBefore (Some b) a n f") auto
        have "fl_rep f (ws @ b # [])" using rep ids ys snoc by simp
        note i = InsertBefore_rep [OF this ins]
        have "fl_give a n f = Some (Ret () f1)"
          using scan Fell qb False ins by (simp add: fl_give_def Let_def)
        moreover have "give_list a n [] (view f ids) = Some (view f1 (ws @ [b, c]))"
          unfolding skip using i(2) ys snoc False by (simp add: cell_def)
        ultimately show ?thesis using i(1) by auto
      qed
    qed
  qed
qed

theorem fl_push_refines:
  assumes rep: "fl_rep f ids"
  shows "\<exists>b. fl_rep (fl_push a n f) (b # ids) \<and> view (fl_push a n f) (b # ids) = (a, n) # view f ids"
proof (cases ids)
  case (Cons i ys)
  obtain b f1 where ins: "InsertAfter (Some i) a n f = (b, f1)" by (cases "InsertAfter (Some i) a n f") auto
  have "fl_rep f ([] @ i # ys)" using rep Cons by simp
  note p = InsertAfter_rep [OF this ins]
  have "fl_push a n f = f1\<lparr>head := Some b\<rparr>"
    using fl_repD(1) [OF rep] Cons ins by (simp add: fl_push_def)
  with p(1,2) Cons show ?thesis by (intro exI [of _ b]) (simp add: view_def)
next
  case Nil
  obtain b f1 where get: "pool_Get f = (b, f1)" by (cases "pool_Get f") auto
  note g = pool_Get_rep [OF rep get]
  have "fl_push a n f = (upd b (\<lambda>x. x\<lparr>mb_addr := a, mb_size := n, mb_next := None\<rparr>) f1)\<lparr>head := Some b\<rparr>"
    using fl_repD(1) [OF rep] Nil get by (simp add: fl_push_def InsertAfter_def)
  with g Nil show ?thesis
    by (intro exI [of _ b]) (auto simp: fl_rep_def view_def cell_def)
qed

section \<open>Ranges as sets of addresses\<close>

definition fcov :: "(u64 \<times> u64) list \<Rightarrow> nat set" where
  "fcov xs = (\<Union>(a, n) \<in> set xs. span a n)"

text \<open>
  The order of the free list: descending, without overlap, no range empty, none reaching the end
  of the address space.
\<close>

definition below :: "u64 \<times> u64 \<Rightarrow> u64 \<times> u64 \<Rightarrow> bool" where
  "below p q \<longleftrightarrow> unat (fst q) + unat (snd q) \<le> unat (fst p)"

definition range_ok :: "u64 \<times> u64 \<Rightarrow> bool" where
  "range_ok p \<longleftrightarrow> 0 < unat (snd p) \<and> unat (fst p) + unat (snd p) < 2 ^ 64"

definition fdesc :: "(u64 \<times> u64) list \<Rightarrow> bool" where
  "fdesc xs \<longleftrightarrow> sorted_wrt below xs \<and> (\<forall>p \<in> set xs. range_ok p)"

lemma fcov_simps [simp]:
  "fcov [] = {}" "fcov ((a, n) # xs) = span a n \<union> fcov xs" "fcov (xs @ ys) = fcov xs \<union> fcov ys"
  "fcov (rev xs) = fcov xs"
  by (auto simp: fcov_def)

lemma fdesc_simps [simp]:
  "fdesc []" "fdesc (p # xs) \<longleftrightarrow> range_ok p \<and> (\<forall>q \<in> set xs. below p q) \<and> fdesc xs"
  "fdesc (xs @ ys) \<longleftrightarrow> fdesc xs \<and> fdesc ys \<and> (\<forall>p \<in> set xs. \<forall>q \<in> set ys. below p q)"
  by (auto simp: fdesc_def sorted_wrt_append)

lemma span_disjoint:
  "0 < unat n \<Longrightarrow> 0 < unat m \<Longrightarrow> span a n \<inter> span b m = {} \<Longrightarrow>
     unat a + unat n \<le> unat b \<or> unat b + unat m \<le> unat a"
proof (rule ccontr)
  assume "0 < unat n" "0 < unat m" "span a n \<inter> span b m = {}"
    and "\<not> (unat a + unat n \<le> unat b \<or> unat b + unat m \<le> unat a)"
  then have "max (unat a) (unat b) \<in> span a n \<inter> span b m" by (auto simp: span_def)
  with \<open>span a n \<inter> span b m = {}\<close> show False by blast
qed

lemma span_in_fcov: "(a, n) \<in> set xs \<Longrightarrow> span a n \<subseteq> fcov xs"
  by (auto simp: fcov_def)

text \<open>Every range that is left after an allocation lies in one that was there before.\<close>

definition inside :: "u64 \<times> u64 \<Rightarrow> u64 \<times> u64 \<Rightarrow> bool" where
  "inside p q \<longleftrightarrow> unat (fst q) \<le> unat (fst p) \<and>
     unat (fst p) + unat (snd p) \<le> unat (fst q) + unat (snd q)"

lemma below_inside: "below p q \<Longrightarrow> inside r q \<Longrightarrow> below p r"
  by (simp add: below_def inside_def)

lemma inside_below: "below p q \<Longrightarrow> inside r p \<Longrightarrow> below r q"
  by (simp add: below_def inside_def)

lemma below_disjoint: "below (a, n) (b, m) \<Longrightarrow> span a n \<inter> span b m = {}"
  by (auto simp: below_def span_def)

lemma below_fcov: "\<forall>q \<in> set xs. below (a, n) q \<Longrightarrow> span a n \<inter> fcov xs = {}"
  by (fastforce simp: fcov_def below_def span_def)

lemma take_list_sound:
  assumes "fdesc xs" and "0 < unat n" and "take_list n xs = Some (a, ys)"
  shows "fdesc ys" and "span a n \<subseteq> fcov xs" and "fcov ys = fcov xs - span a n"
    and "unat a + unat n < 2 ^ 64" and "\<And>p. p \<in> set ys \<Longrightarrow> \<exists>q \<in> set xs. inside p q"
proof -
  from assms have "fdesc ys \<and> span a n \<subseteq> fcov xs \<and> fcov ys = fcov xs - span a n \<and>
    unat a + unat n < 2 ^ 64 \<and> (\<forall>p \<in> set ys. \<exists>q \<in> set xs. inside p q)"
  proof (induction xs arbitrary: ys)
    case (Cons p xs)
    obtain b m where p: "p = (b, m)" by (cases p)
    have ok: "0 < unat m" "unat b + unat m < 2 ^ 64" and xs: "fdesc xs"
      and bel: "\<forall>q \<in> set xs. below (b, m) q" using Cons.prems(1) p by (auto simp: range_ok_def)
    have self: "inside q q" for q by (simp add: inside_def)
    show ?case
    proof (cases "n \<le> m")
      case True
      have nm: "unat n \<le> unat m" using True by (simp add: addr_nat)
      have a: "a = b" and ys: "ys = (if m - n = 0 then xs else (b + n, m - n) # xs)"
        using Cons.prems(3) p True by auto
      have ar: "unat (b + n) = unat b + unat n" "unat (m - n) = unat m - unat n"
        using nm ok by (simp_all add: addr_nat)
      have z: "m - n = 0 \<longleftrightarrow> unat n = unat m" using ar(2) nm by (auto simp: word_eq_nat)
      have dis: "span b m \<inter> fcov xs = {}" by (rule below_fcov [OF bel])
      have ins: "inside (b + n, m - n) (b, m)" using ar nm by (simp add: inside_def)
      have c: "fcov ys = (span b m - span b n) \<union> fcov xs"
        using ar nm z by (auto simp: ys span_def)
      have sub: "span b n \<subseteq> span b m" using nm by (auto simp: span_def)
      show ?thesis
      proof (intro conjI ballI)
        show "fdesc ys"
        proof (cases "m - n = 0")
          case False
          then have "range_ok (b + n, m - n)" using ar nm ok z by (simp add: range_ok_def)
          moreover have "\<forall>q \<in> set xs. below (b + n, m - n) q" using bel inside_below ins by blast
          ultimately show ?thesis using False xs by (simp add: ys)
        qed (simp add: ys xs)
        show "span a n \<subseteq> fcov (p # xs)" using sub by (auto simp: a p)
        show "fcov ys = fcov (p # xs) - span a n" using sub dis by (simp add: c a p) blast
        show "unat a + unat n < 2 ^ 64" using a nm ok by simp
        fix q assume "q \<in> set ys"
        then have "q = (b + n, m - n) \<or> q \<in> set xs" by (auto simp: ys split: if_splits)
        then show "\<exists>r \<in> set (p # xs). inside q r" by (metis p ins self list.set_intros)
      qed
    next
      case False
      then obtain zs where t: "take_list n xs = Some (a, zs)" and ys: "ys = (b, m) # zs"
        using Cons.prems(3) p by auto
      note IH = Cons.IH [OF xs Cons.prems(2) t]
      have dis: "span b m \<inter> fcov xs = {}" by (rule below_fcov [OF bel])
      have bz: "\<forall>q \<in> set zs. below (b, m) q" using IH bel by (blast intro: below_inside)
      show ?thesis
      proof (intro conjI ballI)
        show "fdesc ys" using IH bz ok by (simp add: ys range_ok_def)
        show "span a n \<subseteq> fcov (p # xs)" using IH by (auto simp: p)
        show "fcov ys = fcov (p # xs) - span a n" using IH dis by (simp add: p ys) blast
        show "unat a + unat n < 2 ^ 64" using IH by simp
        fix q assume "q \<in> set ys"
        then have "q = (b, m) \<or> q \<in> set zs" by (simp add: ys)
        then show "\<exists>r \<in> set (p # xs). inside q r" using IH self by (metis p list.set_intros)
      qed
    qed
  qed simp
  then show "fdesc ys" and "span a n \<subseteq> fcov xs" and "fcov ys = fcov xs - span a n"
    and "unat a + unat n < 2 ^ 64" and "\<And>p. p \<in> set ys \<Longrightarrow> \<exists>q \<in> set xs. inside p q" by blast+
qed

text \<open>What is known of the block being released while \<open>give_list\<close> runs down the list.\<close>

definition give_inv :: "u64 \<Rightarrow> u64 \<Rightarrow> (u64 \<times> u64) list \<Rightarrow> (u64 \<times> u64) list \<Rightarrow> bool" where
  "give_inv a n pre xs \<longleftrightarrow> fdesc (rev pre @ xs) \<and> range_ok (a, n) \<and>
     span a n \<inter> fcov (rev pre @ xs) = {} \<and> (\<forall>p \<in> set pre. below p (a, n))"

lemma give_inv_next:
  assumes "give_inv a n pre ((b, m) # xs)"
  shows "(b + m = a \<or> b < a + n) \<longleftrightarrow> below (a, n) (b, m)"
    and "b + m = a \<longleftrightarrow> unat b + unat m = unat a" and "\<not> below (a, n) (b, m) \<Longrightarrow> below (b, m) (a, n)"
proof -
  have ok: "range_ok (b, m)" "range_ok (a, n)" and d: "span a n \<inter> span b m = {}"
    using assms by (auto simp: give_inv_def)
  then have e: "unat (b + m) = unat b + unat m" "unat (a + n) = unat a + unat n"
    by (simp_all add: range_ok_def addr_nat)
  have "unat a + unat n \<le> unat b \<or> unat b + unat m \<le> unat a"
    using ok d by (intro span_disjoint) (simp_all add: range_ok_def)
  with ok e show "(b + m = a \<or> b < a + n) \<longleftrightarrow> below (a, n) (b, m)"
    and "b + m = a \<longleftrightarrow> unat b + unat m = unat a" and "\<not> below (a, n) (b, m) \<Longrightarrow> below (b, m) (a, n)"
    by (auto simp: below_def range_ok_def word_eq_nat addr_nat)
qed

lemma below_trans: "below p q \<Longrightarrow> below q r \<Longrightarrow> below p r"
  by (simp add: below_def)

lemma span_join: "unat c = unat a + unat n \<Longrightarrow> unat (n + k) = unat n + unat k \<Longrightarrow>
  span a (n + k) = span a n \<union> span c k"
  by (auto simp: span_def)

lemma give_list_sound:
  assumes "give_inv a n pre xs" and "pre \<noteq> [] \<or> xs \<noteq> []"
  shows "\<exists>ys. give_list a n pre xs = Some ys \<and> fdesc ys \<and> fcov ys = fcov (rev pre @ xs) \<union> span a n \<and>
           (\<exists>q \<in> set ys. unat n \<le> unat (snd q))"
  using assms
proof (induction a n pre xs rule: give_list.induct)
  case (2 a n b m pre)
  have ok: "range_ok (b, m)" "range_ok (a, n)" and bel: "below (b, m) (a, n)"
    and pre: "\<forall>p \<in> set pre. below p (b, m)" and pre2: "\<forall>p \<in> set pre. below p (a, n)" and f: "fdesc (rev pre)"
    using "2.prems"(1) by (auto simp: give_inv_def)
  show ?case
  proof (cases "b = a + n")
    case True
    then have e: "unat b = unat a + unat n" using ok by (simp add: range_ok_def addr_nat)
    have e2: "unat (m + n) = unat n + unat m" using ok e by (simp add: range_ok_def addr_nat)
    have "span a (m + n) = span a n \<union> span b m"
      using span_join [OF e, of m] e2 by (simp add: add.commute)
    moreover have "\<forall>p \<in> set pre. below p (a, m + n)"
      using pre e e2 by (auto simp: below_def)
    ultimately show ?thesis
      using True f e2 e ok by (auto simp: range_ok_def)
  next
    case False
    with ok bel pre pre2 f show ?thesis by auto
  qed
next
  case (3 a n pre b m xs)
  note inv = "3.prems"(1)
  note nx = give_inv_next [OF inv]
  have ok: "range_ok (b, m)" "range_ok (a, n)" and pre: "\<forall>p \<in> set pre. below p (b, m) \<and> below p (a, n)"
    and px: "\<forall>p \<in> set pre. \<forall>q \<in> set xs. below p q"
    and bx: "\<forall>q \<in> set xs. below (b, m) q" and f: "fdesc (rev pre)" "fdesc xs"
    using inv by (auto simp: give_inv_def)
  show ?case
  proof (cases "b + m = a")
    case True
    then have e: "unat a = unat b + unat m" using nx(2) by simp
    have e2: "unat (m + n) = unat m + unat n" using ok e by (simp add: range_ok_def addr_nat)
    have j: "span b (m + n) = span b m \<union> span a n" by (rule span_join [OF e e2])
    have bx2: "\<forall>q \<in> set xs. below (b, r) q" for r using bx by (simp add: below_def)
    have g: "range_ok (b, m + n)" using ok e e2 by (auto simp: range_ok_def)
    have pre2: "\<forall>p \<in> set pre. below p (b, m + n)" using pre e e2 by (auto simp: below_def)
    show ?thesis
    proof (cases pre)
      case Nil
      with True f bx2 g j e2 show ?thesis by auto
    next
      case (Cons p ps)
      obtain c k where p: "p = (c, k)" by (cases p)
      show ?thesis
      proof (cases "c = a + n")
        case False
        with True f bx2 g j Cons p pre2 px e2 show ?thesis by auto
      next
        case True
        have okc: "range_ok (c, k)" and psc: "\<forall>q \<in> set ps. below q (c, k)" using f(1) Cons p by auto
        have e3: "unat c = unat b + unat (m + n)" using True ok e e2 by (simp add: range_ok_def addr_nat)
        have e4: "unat (k + (m + n)) = unat (m + n) + unat k"
          using okc e3 by (simp add: range_ok_def addr_nat)
        have j2: "span b (k + (m + n)) = span b (m + n) \<union> span c k"
          using span_join [OF e3, of k] e4 by (simp add: add.commute)
        have "range_ok (b, k + (m + n))" using okc e3 e4 by (auto simp: range_ok_def)
        moreover have "\<forall>q \<in> set ps. below q (b, k + (m + n))" using psc e3 e4 by (auto simp: below_def)
        ultimately show ?thesis
          using True \<open>b + m = a\<close> f bx2 j j2 Cons p px e2 e4 by auto
      qed
    qed
  next
    case False
    show ?thesis
    proof (cases "b < a + n")
      case True
      then have ab: "below (a, n) (b, m)" using nx(1) by simp
      then have "\<forall>q \<in> set xs. below (a, n) q"
        using bx ok below_trans by blast
      with False True ab f pre px bx ok show ?thesis by (auto split: prod.splits)
    next
      case F: False
      have "below (b, m) (a, n)" using nx(1,3) F False by simp
      then have "give_inv a n ((b, m) # pre) xs"
        using inv by (auto simp: give_inv_def)
      from "3.IH" [OF False F this] False F show ?thesis by auto
    qed
  qed
qed simp

section \<open>The contract of the free list\<close>

locale arena =
  fixes take_from :: "u64 \<Rightarrow> 'f \<Rightarrow> (u64 \<times> 'f) option option"
    and give_back :: "u64 \<Rightarrow> u64 \<Rightarrow> 'f \<Rightarrow> (unit, 'f) outcome option"
    and push_top :: "u64 \<Rightarrow> u64 \<Rightarrow> 'f \<Rightarrow> 'f"
    and cov :: "'f \<Rightarrow> nat set"
    and inv :: "'f \<Rightarrow> bool"
  assumes take_ok: "inv f \<Longrightarrow> 0 < unat n \<Longrightarrow>
      (case take_from n f of
         None \<Rightarrow> False
       | Some None \<Rightarrow> True
       | Some (Some (a, f')) \<Rightarrow> inv f' \<and> span a n \<subseteq> cov f \<and> cov f' = cov f - span a n \<and>
           unat a + unat n < 2 ^ 64)"
    and give_ok: "inv f \<Longrightarrow> range_ok (a, n) \<Longrightarrow> span a n \<inter> cov f = {} \<Longrightarrow>
      (case give_back a n f of
         None \<Rightarrow> False
       | Some (Panic p f') \<Rightarrow> p = NilDeref \<and> f' = f \<and> cov f = {}
       | Some (Ret u f') \<Rightarrow> inv f' \<and> cov f' = cov f \<union> span a n \<and> cov f \<noteq> {})"
    and give_take: "inv f \<Longrightarrow> range_ok (a, n) \<Longrightarrow> span a n \<inter> cov f = {} \<Longrightarrow>
      give_back a n f = Some (Ret u f') \<Longrightarrow> unat k \<le> unat n \<Longrightarrow> take_from k f' \<noteq> Some None"
    and push_ok: "inv f \<Longrightarrow> range_ok (a, n) \<Longrightarrow> (\<forall>x \<in> cov f. x < unat a) \<Longrightarrow>
      inv (push_top a n f) \<and> cov (push_top a n f) = cov f \<union> span a n"
begin

text \<open>
  A client keeps the blocks it handed out in a table; together with the free list they cover the
  arena without overlap.
\<close>

lemma take_total: "inv f \<Longrightarrow> 0 < unat n \<Longrightarrow> \<exists>r. take_from n f = Some r"
  using take_ok [of f n] by (auto split: option.splits)

lemma take_live:
  assumes "inv f" "table_ok used" "covered used \<inter> cov f = {}" "0 < unat n"
    and t: "take_from n f = Some (Some (a, f'))"
  shows "inv f'" and "table_ok (mapStore a n used)" and "covered (mapStore a n used) \<inter> cov f' = {}"
    and "covered (mapStore a n used) \<union> cov f' = covered used \<union> cov f"
    and "span a n \<subseteq> cov f" and "covered (mapStore a n used) = covered used \<union> span a n"
    and "unat a + unat n < 2 ^ 64"
proof -
  from take_ok [OF assms(1,4)] t have i: "inv f'" and s: "span a n \<subseteq> cov f"
    and c: "cov f' = cov f - span a n" and b: "unat a + unat n < 2 ^ 64" by auto
  from s assms(3) have "covered used \<inter> span a n = {}" by blast
  note m = mapStore_correct [OF assms(2) this assms(4) b]
  show "inv f'" "span a n \<subseteq> cov f" by (rule i, rule s)
  show "table_ok (mapStore a n used)" by (rule m(1))
  show "covered (mapStore a n used) \<inter> cov f' = {}"
    and "covered (mapStore a n used) \<union> cov f' = covered used \<union> cov f"
    and "covered (mapStore a n used) = covered used \<union> span a n"
    using m(2) c s assms(3) by blast+
  show "unat a + unat n < 2 ^ 64" by (rule b)
qed

lemma give_live:
  assumes "inv f" "table_ok used" "covered used \<inter> cov f = {}" and u: "gm_get used a = Some n"
  shows "case give_back a n f of
           None \<Rightarrow> False
         | Some (Panic p f') \<Rightarrow> p = NilDeref \<and> f' = f \<and> cov f = {}
         | Some (Ret _ f') \<Rightarrow> inv f' \<and> table_ok (gm_del a used) \<and>
             covered (gm_del a used) \<inter> cov f' = {} \<and>
             covered (gm_del a used) \<union> cov f' = covered used \<union> cov f \<and> cov f \<noteq> {}"
proof -
  have r: "range_ok (a, n)"
    using table_ok_pos [OF assms(2) u] table_ok_bound [OF assms(2) u] by (simp add: range_ok_def)
  have s: "span a n \<subseteq> covered used" by (rule covered_get [OF u])
  with assms(3) have "span a n \<inter> cov f = {}" by blast
  from give_ok [OF assms(1) r this] show ?thesis
    using s assms(3) table_ok_del [OF assms(2), of a] covered_del [OF assms(2) u]
    by (auto split: option.splits outcome.splits)
qed

end

section \<open>The store provides the contract\<close>

definition fl_inv :: "freelist \<Rightarrow> bool" where
  "fl_inv f \<longleftrightarrow> (\<exists>ids. fl_rep f ids \<and> fdesc (view f ids))"

definition fl_cov :: "freelist \<Rightarrow> nat set" where
  "fl_cov f = {x. \<exists>ids. fl_rep f ids \<and> x \<in> fcov (view f ids)}"

lemma dl_unique:
  "dl h pv ids None \<Longrightarrow> dl h pv' ids' None \<Longrightarrow> headp ids None = headp ids' None \<Longrightarrow> ids = ids'"
proof (induction ids arbitrary: pv pv' ids')
  case Nil
  then show ?case by (cases ids') auto
next
  case (Cons i ids)
  then show ?case by (cases ids') auto
qed

lemma fl_rep_unique: "fl_rep f ids \<Longrightarrow> fl_rep f ids' \<Longrightarrow> ids = ids'"
  by (metis dl_unique fl_repD(1,2))

lemma fl_cov_rep: "fl_rep f ids \<Longrightarrow> fl_cov f = fcov (view f ids)"
  using fl_rep_unique by (auto simp: fl_cov_def)

lemma fl_invI: "fl_rep f ids \<Longrightarrow> fdesc (view f ids) \<Longrightarrow> fl_inv f"
  by (auto simp: fl_inv_def)

lemma fl_inv_empty: "fl_inv empty_freelist" and fl_cov_empty: "fl_cov empty_freelist = {}"
  using fl_rep_empty by (auto intro: fl_invI simp: fl_cov_rep [OF fl_rep_empty])

lemma fcov_empty: "fdesc xs \<Longrightarrow> fcov xs = {} \<longleftrightarrow> xs = []"
  by (cases xs) (auto simp: range_ok_def span_def)

lemma fl_take_ok:
  assumes "fl_inv f" and "0 < unat n"
  shows "case fl_take n f of
         None \<Rightarrow> False
       | Some None \<Rightarrow> True
       | Some (Some (a, f')) \<Rightarrow> fl_inv f' \<and> span a n \<subseteq> fl_cov f \<and> fl_cov f' = fl_cov f - span a n \<and>
           unat a + unat n < 2 ^ 64"
proof -
  obtain ids where rep: "fl_rep f ids" and d: "fdesc (view f ids)" using assms(1) by (auto simp: fl_inv_def)
  note ref = fl_take_refines [OF rep, of n]
  show ?thesis
  proof (cases "\<exists>a f'. fl_take n f = Some (Some (a, f'))")
    case True
    then obtain a f' where t: "fl_take n f = Some (Some (a, f'))" by blast
    with ref obtain ids' where rep': "fl_rep f' ids'"
      and "take_list n (view f ids) = Some (a, view f' ids')" by auto
    note snd = take_list_sound [OF d assms(2) this(2)]
    show ?thesis
      using snd(2-4) fl_invI [OF rep' snd(1)]
      by (simp add: t fl_cov_rep [OF rep] fl_cov_rep [OF rep'])
  next
    case False
    with ref show ?thesis by (auto split: option.splits)
  qed
qed

lemma fl_give_ok:
  assumes "fl_inv f" and "range_ok (a, n)" and "span a n \<inter> fl_cov f = {}"
  shows "case fl_give a n f of
         None \<Rightarrow> False
       | Some (Panic p f') \<Rightarrow> p = NilDeref \<and> f' = f \<and> fl_cov f = {}
       | Some (Ret u f') \<Rightarrow> fl_inv f' \<and> fl_cov f' = fl_cov f \<union> span a n \<and> fl_cov f \<noteq> {}"
proof -
  obtain ids where rep: "fl_rep f ids" and d: "fdesc (view f ids)" using assms(1) by (auto simp: fl_inv_def)
  note c = fl_cov_rep [OF rep]
  have gi: "give_inv a n [] (view f ids)" using d assms(2,3) c by (simp add: give_inv_def)
  show ?thesis
  proof (cases ids)
    case Nil
    with fl_give_refines [OF rep, of a n] c show ?thesis
      by (auto split: option.splits outcome.splits)
  next
    case (Cons i js)
    with give_list_sound [OF gi] obtain ys where ys: "give_list a n [] (view f ids) = Some ys"
      "fdesc ys" "fcov ys = fcov (view f ids) \<union> span a n" by auto
    have "fl_cov f \<noteq> {}" using fcov_empty [OF d] c Cons by simp
    with fl_give_refines [OF rep, of a n] ys c Cons show ?thesis
      by (auto split: option.splits outcome.splits simp: fl_cov_rep intro: fl_invI)
  qed
qed

lemma fl_give_take:
  assumes "fl_inv f" and "range_ok (a, n)" and "span a n \<inter> fl_cov f = {}"
    and g: "fl_give a n f = Some (Ret u f')" and k: "unat k \<le> unat n"
  shows "fl_take k f' \<noteq> Some None"
proof -
  obtain ids where rep: "fl_rep f ids" and d: "fdesc (view f ids)" using assms(1) by (auto simp: fl_inv_def)
  have gi: "give_inv a n [] (view f ids)"
    using d assms(2,3) fl_cov_rep [OF rep] by (simp add: give_inv_def)
  from fl_give_refines [OF rep, of a n] g obtain ids' where rep': "fl_rep f' ids'"
    and ys: "give_list a n [] (view f ids) = Some (view f' ids')" by auto
  then have "view f ids \<noteq> []" by (metis give_list.simps(1) option.distinct(1))
  with give_list_sound [OF gi] ys obtain q where "q \<in> set (view f' ids')" "unat n \<le> unat (snd q)" by auto
  with k have "take_list k (view f' ids') \<noteq> None" by (intro take_list_hit [of q]) (simp_all add: addr_nat)
  with fl_take_refines [OF rep', of k] show ?thesis by auto
qed

lemma fl_push_ok:
  assumes "fl_inv f" and "range_ok (a, n)" and top: "\<forall>x \<in> fl_cov f. x < unat a"
  shows "fl_inv (fl_push a n f) \<and> fl_cov (fl_push a n f) = fl_cov f \<union> span a n"
proof -
  obtain ids where rep: "fl_rep f ids" and d: "fdesc (view f ids)" using assms(1) by (auto simp: fl_inv_def)
  note c = fl_cov_rep [OF rep]
  obtain b where b: "fl_rep (fl_push a n f) (b # ids)" and v: "view (fl_push a n f) (b # ids) = (a, n) # view f ids"
    using fl_push_refines [OF rep] by blast
  have "below (a, n) q" if q: "q \<in> set (view f ids)" for q
  proof -
    obtain e m where em: "q = (e, m)" by (cases q)
    have "0 < unat m" using d q em by (auto simp: fdesc_def range_ok_def)
    then have "unat e + unat m - 1 \<in> span e m" by (auto simp: span_def)
    then have "unat e + unat m - 1 \<in> fl_cov f" using q em c by (auto simp: fcov_def)
    with top \<open>0 < unat m\<close> show ?thesis by (force simp: em below_def)
  qed
  then have "fdesc (view (fl_push a n f) (b # ids))" using d assms(2) by (simp only: v fdesc_simps) auto
  with b show ?thesis
    using fl_cov_rep [OF b] v c by (auto intro: fl_invI simp del: view_simps)
qed

interpretation fl: arena fl_take fl_give fl_push fl_cov fl_inv
  by unfold_locales (fact fl_take_ok fl_give_ok fl_give_take fl_push_ok)+

end
