(* ===== verification/MemManager.thy ===== *)
theory MemManager
  imports Arena
begin

text \<open>
  The memory manager of \<^verbatim>\<open>internal/debugger/mem.go\<close>: mapping and unmapping through the emulator, with
  the table of mapped regions beside it, and the allocator \<^verbatim>\<open>memAlloc\<close>, \<^verbatim>\<open>memFree\<close>, \<^verbatim>\<open>memSize\<close> on top
  of it. Each function takes the emulator's operations, the manager's state and the emulator's
  state. \<^verbatim>\<open>dbg.mainThreadRun(f)\<close> runs \<open>f\<close> once, on whichever thread; it is a plain call here. The
  mutexes serialise the functions, so each is one atomic step.
\<close>

record mem_state =
  mapAddr :: u64
  maps :: map_table
  used :: map_table
  fl :: freelist
  binds :: "(u64, nat) gomap"

text \<open>\<^verbatim>\<open>ctor\<close>\<close>

definition mem_ctor :: mem_state where
  "mem_ctor = \<lparr>mapAddr = 0x400000, maps = [], used = [], fl = empty_freelist, binds = []\<rparr>"

definition memMap ::
  "'e emulator \<Rightarrow> u64 \<Rightarrow> u64 \<Rightarrow> mem_prot \<Rightarrow> mem_state \<Rightarrow> 'e \<Rightarrow> mem_region res \<times> mem_state \<times> 'e" where
  "memMap E addr n prot s e =
     (let addr = Align addr (PageSize E);
          n = Align n (PageSize E)
      in case EmuMemMap E addr n prot e of
           (Some err, e') \<Rightarrow> (Inl err, s, e')
         | (None, e') \<Rightarrow>
             (Inr \<lparr>Addr = addr, Size = n, Prot = prot\<rparr>, s\<lparr>maps := mapStore addr n (maps s)\<rparr>, e'))"

definition memUnmap ::
  "'e emulator \<Rightarrow> u64 \<Rightarrow> u64 \<Rightarrow> mem_state \<Rightarrow> 'e \<Rightarrow> goerr option \<times> mem_state \<times> 'e" where
  "memUnmap E addr n s e =
     (let addr = Align addr (PageSize E);
          n = Align n (PageSize E)
      in case EmuMemUnmap E addr n e of
           (Some err, e') \<Rightarrow> (Some err, s, e')
         | (None, e') \<Rightarrow> (None, s\<lparr>maps := mapDelete addr n (maps s)\<rparr>, e'))"

definition memProtect ::
  "'e emulator \<Rightarrow> u64 \<Rightarrow> u64 \<Rightarrow> mem_prot \<Rightarrow> 'e \<Rightarrow> goerr option \<times> 'e" where
  "memProtect E addr n prot e = EmuMemProtect E addr (Align n (PageSize E)) prot e"

definition mapAlloc ::
  "'e emulator \<Rightarrow> u64 \<Rightarrow> mem_prot \<Rightarrow> mem_state \<Rightarrow> 'e \<Rightarrow> mem_region res \<times> mem_state \<times> 'e" where
  "mapAlloc E n prot s e =
     (let n = Align n (PageSize E);
          s1 = s\<lparr>mapAddr := mapAddr s + n\<rparr>;
          addr = mapAddr s1 - n
      in case EmuMemMap E addr n prot e of
           (Some err, e') \<Rightarrow> (Inl err, s1, e')
         | (None, e') \<Rightarrow>
             (Inr \<lparr>Addr = addr, Size = n, Prot = prot\<rparr>, s1\<lparr>maps := mapStore addr n (maps s1)\<rparr>, e'))"

definition mapFree ::
  "'e emulator \<Rightarrow> u64 \<Rightarrow> u64 \<Rightarrow> mem_state \<Rightarrow> 'e \<Rightarrow> goerr option \<times> mem_state \<times> 'e" where
  "mapFree E addr n s e =
     (let n = Align n (PageSize E)
      in case EmuMemUnmap E addr n e of
           (Some err, e') \<Rightarrow> (Some err, s, e')
         | (None, e') \<Rightarrow> (None, s\<lparr>maps := mapDelete addr n (maps s)\<rparr>, e'))"

text \<open>
  \<^verbatim>\<open>memAlloc\<close>: from the free list, or from a new mapping whose rest goes to the head of the free
  list. \<open>None\<close> only if the search of the free list did not return.
\<close>

definition memAlloc ::
  "'e emulator \<Rightarrow> u64 \<Rightarrow> mem_state \<Rightarrow> 'e \<Rightarrow> (u64 res \<times> mem_state \<times> 'e) option" where
  "memAlloc E n s e =
     (if n = 0 then Some (Inl ErrArgumentInvalid, s, e)
      else case fl_take n (fl s) of
        None \<Rightarrow> None
      | Some (Some (addr, f')) \<Rightarrow>
          Some (Inr addr, s\<lparr>fl := f', used := gm_set addr n (used s)\<rparr>, e)
      | Some None \<Rightarrow>
          (case mapAlloc E n (MEM_PROT_READ OR MEM_PROT_WRITE) s e of
             (Inl err, s1, e') \<Rightarrow> Some (Inl err, s1, e')
           | (Inr region, s1, e') \<Rightarrow>
               (let s2 = (if n < Size region
                          then s1\<lparr>fl := fl_push (Addr region + n) (Size region - n) (fl s1)\<rparr> else s1)
                in Some (Inr (Addr region), s2\<lparr>used := gm_set (Addr region) n (used s2)\<rparr>, e'))))"

text \<open>
  \<^verbatim>\<open>memFree\<close>. The entry of \<^verbatim>\<open>used\<close> is deleted before the free list is touched, so it is gone even
  when the function panics.
\<close>

definition memFree :: "u64 \<Rightarrow> mem_state \<Rightarrow> (goerr option, mem_state) outcome option" where
  "memFree addr s =
     (if addr = 0 then Some (Ret (Some ErrAddressInvalid) s)
      else case gm_get (used s) addr of
        None \<Rightarrow> Some (Ret (Some ErrAddressInvalid) s)
      | Some n \<Rightarrow>
          (let s1 = s\<lparr>used := gm_del addr (used s)\<rparr>
           in case fl_give addr n (fl s1) of
                None \<Rightarrow> None
              | Some (Panic p f') \<Rightarrow> Some (Panic p (s1\<lparr>fl := f'\<rparr>))
              | Some (Ret u f') \<Rightarrow> Some (Ret None (s1\<lparr>fl := f'\<rparr>))))"

definition memSize :: "u64 \<Rightarrow> mem_state \<Rightarrow> u64" where
  "memSize addr s = gm_get0 (used s) addr"

section \<open>The allocator's invariant\<close>

text \<open>
  The blocks in use and the free list never overlap, and both lie below \<open>mapAddr\<close>, the address of
  the next new mapping.
\<close>

definition arena_of :: "mem_state \<Rightarrow> nat set" where
  "arena_of s = covered (used s) \<union> fl_cov (fl s)"

definition mem_inv :: "mem_state \<Rightarrow> bool" where
  "mem_inv s \<longleftrightarrow> fl_inv (fl s) \<and> table_ok (used s) \<and> covered (used s) \<inter> fl_cov (fl s) = {} \<and>
     arena_of s \<subseteq> {..<unat (mapAddr s)}"

text \<open>An allocation of \<open>n\<close> bytes neither wraps when it is rounded up nor reaches the end of the address space.\<close>

definition room :: "'e emulator \<Rightarrow> u64 \<Rightarrow> mem_state \<Rightarrow> bool" where
  "room E n s \<longleftrightarrow> unat n + unat (PageSize E) \<le> 2 ^ 64 \<and>
     unat (mapAddr s) + unat (Align n (PageSize E)) < 2 ^ 64"

lemma mem_inv_ctor: "mem_inv mem_ctor"
  by (simp add: mem_inv_def mem_ctor_def arena_of_def fl_inv_empty fl_cov_empty table_ok_empty covered_def)

lemma Align_room:
  assumes "emu_paged E" and "room E n s"
  shows "unat n \<le> unat (Align n (PageSize E))"
    and "unat (mapAddr s + Align n (PageSize E)) = unat (mapAddr s) + unat (Align n (PageSize E))"
    and "mapAddr s + Align n (PageSize E) - Align n (PageSize E) = mapAddr s"
  using assms unat_Align64 [of "PageSize E" n] round_up_ge [of "unat (PageSize E)" "unat n"]
    emu_paged_pos [OF assms(1)]
  by (auto simp: emu_paged_def room_def addr_nat)

lemma mapAlloc_cases:
  assumes "emu_paged E" and "room E n s"
  shows "(\<exists>err e'. mapAlloc E n prot s e =
            (Inl err, s\<lparr>mapAddr := mapAddr s + Align n (PageSize E)\<rparr>, e')) \<or>
         (\<exists>e'. mapAlloc E n prot s e =
            (Inr \<lparr>Addr = mapAddr s, Size = Align n (PageSize E), Prot = prot\<rparr>,
             s\<lparr>mapAddr := mapAddr s + Align n (PageSize E),
               maps := mapStore (mapAddr s) (Align n (PageSize E)) (maps s)\<rparr>, e'))"
  using Align_room [OF assms]
  by (auto simp: mapAlloc_def Let_def split: prod.splits option.splits)

lemma mem_inv_grow:
  assumes "mem_inv s" and "unat (mapAddr s) \<le> unat a"
  shows "mem_inv (s\<lparr>mapAddr := a\<rparr>)" and "mem_inv (s\<lparr>mapAddr := a, maps := m\<rparr>)"
  using assms by (auto simp: mem_inv_def arena_of_def)

lemma mem_inv_fresh:
  assumes inv: "mem_inv s" and n: "0 < unat n" and le: "unat n \<le> unat m"
    and fits: "unat (mapAddr s) + unat m < 2 ^ 64"
  defines "s2 \<equiv> (if n < m then s\<lparr>fl := fl_push (mapAddr s + n) (m - n) (fl s)\<rparr> else s)"
  shows "mem_inv (s2\<lparr>used := gm_set (mapAddr s) n (used s2), mapAddr := mapAddr s + m\<rparr>)"
    and "covered (gm_set (mapAddr s) n (used s)) = covered (used s) \<union> span (mapAddr s) n"
    and "gm_get (used s) (mapAddr s) = None"
    and "span (mapAddr s) n \<inter> arena_of s = {}"
proof -
  note ts = mapStore_correct [unfolded mapStore_def]
  have d: "span (mapAddr s) n \<inter> arena_of s = {}"
    using inv by (fastforce simp: mem_inv_def span_def)
  have t: "table_ok (used s)" using inv by (simp add: mem_inv_def)
  have "covered (used s) \<inter> span (mapAddr s) n = {}" using d by (auto simp: arena_of_def)
  moreover have "unat (mapAddr s) + unat n < 2 ^ 64" using fits le by simp
  ultimately have c: "table_ok (gm_set (mapAddr s) n (used s))"
    "covered (gm_set (mapAddr s) n (used s)) = covered (used s) \<union> span (mapAddr s) n"
    using ts [OF t _ n] by auto
  have e: "unat (mapAddr s + m) = unat (mapAddr s) + unat m" using fits by (simp add: addr_nat)
  have f2: "fl_inv (fl s2) \<and> fl_cov (fl s2) = fl_cov (fl s) \<union> (span (mapAddr s) m - span (mapAddr s) n)"
  proof (cases "n < m")
    case True
    have r: "unat (mapAddr s + n) = unat (mapAddr s) + unat n" "unat (m - n) = unat m - unat n"
      using fits le by (simp_all add: addr_nat)
    have "range_ok (mapAddr s + n, m - n)" using True r fits le by (simp add: range_ok_def addr_nat)
    moreover have "\<forall>x \<in> fl_cov (fl s). x < unat (mapAddr s + n)"
      using inv r by (fastforce simp: mem_inv_def arena_of_def)
    moreover have "span (mapAddr s + n) (m - n) = span (mapAddr s) m - span (mapAddr s) n"
      using r le by (auto simp: span_def)
    ultimately show ?thesis using fl.push_ok [of "fl s"] inv True by (simp add: s2_def mem_inv_def)
  next
    case False
    then have "unat n = unat m" using le by (simp add: addr_nat)
    then show ?thesis using inv False by (simp add: s2_def mem_inv_def span_def)
  qed
  have u2: "used s2 = used s" by (simp add: s2_def)
  have sub: "span (mapAddr s) n \<subseteq> span (mapAddr s) m" using le by (auto simp: span_def)
  have top: "span (mapAddr s) m \<inter> arena_of s = {}"
    using inv by (fastforce simp: mem_inv_def span_def)
  have cap: "(covered (used s) \<union> span (mapAddr s) n) \<inter> fl_cov (fl s2) = {}"
    using f2 inv top sub by (auto simp: mem_inv_def arena_of_def)
  have lim: "covered (used s) \<union> span (mapAddr s) n \<union> fl_cov (fl s2) \<subseteq> {..<unat (mapAddr s + m)}"
    using f2 inv e le by (fastforce simp: mem_inv_def arena_of_def span_def)
  show "mem_inv (s2\<lparr>used := gm_set (mapAddr s) n (used s2), mapAddr := mapAddr s + m\<rparr>)"
    using c f2 cap lim by (simp add: mem_inv_def arena_of_def u2)
  show "covered (gm_set (mapAddr s) n (used s)) = covered (used s) \<union> span (mapAddr s) n" by (rule c(2))
  show "gm_get (used s) (mapAddr s) = None"
  proof (rule ccontr)
    assume "gm_get (used s) (mapAddr s) \<noteq> None"
    then obtain k where k: "gm_get (used s) (mapAddr s) = Some k" by blast
    with table_ok_pos [OF t] have "unat (mapAddr s) \<in> span (mapAddr s) k" by (simp add: span_def)
    with covered_get [OF k] inv show False by (auto simp: mem_inv_def arena_of_def)
  qed
  show "span (mapAddr s) n \<inter> arena_of s = {}" by (rule d)
qed

section \<open>Allocation and release\<close>

lemma memAlloc_zero: "memAlloc E 0 s e = Some (Inl ErrArgumentInvalid, s, e)"
  by (simp add: memAlloc_def)

lemma memAlloc_hit:
  assumes "n \<noteq> 0" and "fl_take n (fl s) = Some (Some (a, f'))"
  shows "memAlloc E n s e = Some (Inr a, s\<lparr>fl := f', used := gm_set a n (used s)\<rparr>, e)"
  using assms by (simp add: memAlloc_def)

lemma memAlloc_map:
  assumes "n \<noteq> 0" and "fl_take n (fl s) = Some None" and "emu_paged E" and "room E n s"
  defines "m \<equiv> Align n (PageSize E)"
  defines "s2 \<equiv> if n < m then s\<lparr>fl := fl_push (mapAddr s + n) (m - n) (fl s)\<rparr> else s"
  shows "(\<exists>err e'. memAlloc E n s e = Some (Inl err, s\<lparr>mapAddr := mapAddr s + m\<rparr>, e')) \<or>
         (\<exists>e'. memAlloc E n s e = Some (Inr (mapAddr s),
            s2\<lparr>used := gm_set (mapAddr s) n (used s2), mapAddr := mapAddr s + m,
               maps := mapStore (mapAddr s) m (maps s)\<rparr>, e'))"
  using mapAlloc_cases [OF assms(3,4), of "MEM_PROT_READ OR MEM_PROT_WRITE" e] assms(1,2)
  by (auto simp: memAlloc_def s2_def m_def)

text \<open>What an allocation promises, whichever way it was served.\<close>

definition alloc_post :: "u64 \<Rightarrow> mem_state \<Rightarrow> u64 res \<times> mem_state \<times> 'e \<Rightarrow> bool" where
  "alloc_post n s r = (case r of
     (Inl err, s', e') \<Rightarrow> mem_inv s' \<and> used s' = used s \<and> fl s' = fl s
   | (Inr a, s', e') \<Rightarrow> mem_inv s' \<and> n \<noteq> 0 \<and> gm_get (used s) a = None \<and>
       used s' = gm_set a n (used s) \<and> unat a + unat n < 2 ^ 64 \<and>
       span a n \<inter> covered (used s) = {} \<and> arena_of s' \<supseteq> arena_of s)"

lemma memAlloc_ok:
  assumes inv: "mem_inv s" and E: "emu_paged E" "room E n s"
  shows "\<exists>r. memAlloc E n s e = Some r \<and> alloc_post n s r"
proof (cases "n = 0")
  case True
  then show ?thesis using inv by (simp add: memAlloc_zero alloc_post_def)
next
  case False
  then have n: "0 < unat n" by (simp add: unat_gt_0)
  have i: "fl_inv (fl s)" "table_ok (used s)" "covered (used s) \<inter> fl_cov (fl s) = {}"
    using inv by (simp_all add: mem_inv_def)
  obtain r where r: "fl_take n (fl s) = Some r" using fl.take_total [OF i(1) n] by blast
  show ?thesis
  proof (cases r)
    case (Some p)
    then obtain a f' where t: "fl_take n (fl s) = Some (Some (a, f'))" using r by (cases p) auto
    note l = fl.take_live [OF i n t, unfolded mapStore_def]
    have "gm_get (used s) a = None"
    proof (rule ccontr)
      assume "gm_get (used s) a \<noteq> None"
      then obtain k where k: "gm_get (used s) a = Some k" by blast
      with table_ok_pos [OF i(2)] have "unat a \<in> span a k" by (simp add: span_def)
      moreover have "unat a \<in> span a n" using n by (simp add: span_def)
      ultimately show False using covered_get [OF k] l(5) i(3) by blast
    qed
    moreover have "span a n \<inter> covered (used s) = {}" using l(5) i(3) by blast
    moreover have "mem_inv (s\<lparr>fl := f', used := gm_set a n (used s)\<rparr>)"
      using l inv by (simp add: mem_inv_def arena_of_def)
    ultimately show ?thesis
      using l(4,7) False by (auto simp: memAlloc_hit [OF False t] alloc_post_def arena_of_def)
  next
    case None
    note c = memAlloc_map [OF False r [unfolded None] E, of e]
    note ar = Align_room [OF E]
    have up: "unat (mapAddr s) \<le> unat (mapAddr s + Align n (PageSize E))" using ar by simp
    have fits: "unat (mapAddr s) + unat (Align n (PageSize E)) < 2 ^ 64" using E(2) by (simp add: room_def)
    note f = mem_inv_fresh [OF inv n ar(1) fits]
    define s2 where "s2 = (if n < Align n (PageSize E)
      then s\<lparr>fl := fl_push (mapAddr s + n) (Align n (PageSize E) - n) (fl s)\<rparr> else s)"
    note f = f [folded s2_def] and c = c [folded s2_def]
    let ?s = "s2\<lparr>used := gm_set (mapAddr s) n (used s2), mapAddr := mapAddr s + Align n (PageSize E),
      maps := mapStore (mapAddr s) (Align n (PageSize E)) (maps s)\<rparr>"
    have u2: "used s2 = used s" by (simp add: s2_def)
    have sup: "arena_of s \<subseteq> arena_of ?s"
    proof -
      have "fl_cov (fl s) \<subseteq> fl_cov (fl s2)"
      proof (cases "n < Align n (PageSize E)")
        case True
        have q: "unat (mapAddr s + n) = unat (mapAddr s) + unat n" using fits ar(1) by (simp add: addr_nat)
        have "range_ok (mapAddr s + n, Align n (PageSize E) - n)"
          using True fits q by (simp add: range_ok_def addr_nat)
        moreover have "\<forall>x \<in> fl_cov (fl s). x < unat (mapAddr s + n)"
          using inv q by (fastforce simp: mem_inv_def arena_of_def)
        ultimately show ?thesis using fl.push_ok [OF i(1)] True by (simp add: s2_def)
      qed (simp add: s2_def)
      then show ?thesis using f(2) by (auto simp: arena_of_def u2)
    qed
    have "mem_inv ?s" using f(1) by (simp add: mem_inv_def arena_of_def)
    moreover have "span (mapAddr s) n \<inter> covered (used s) = {}" using f(4) by (auto simp: arena_of_def)
    ultimately have "alloc_post n s (Inr (mapAddr s), ?s, e')" for e' :: 'a
      using f(3) False sup fits ar(1) by (simp add: alloc_post_def u2)
    moreover have "alloc_post n s (Inl err, s\<lparr>mapAddr := mapAddr s + Align n (PageSize E)\<rparr>, e')"
      for err and e' :: 'a
      using mem_inv_grow(1) [OF inv up] by (simp add: alloc_post_def)
    ultimately show ?thesis using c by metis
  qed
qed

text \<open>What a release promises.\<close>

definition free_post :: "u64 \<Rightarrow> mem_state \<Rightarrow> (goerr option, mem_state) outcome \<Rightarrow> bool" where
  "free_post a s r = (case r of
     Ret (Some err) s' \<Rightarrow> err = ErrAddressInvalid \<and> s' = s \<and> (a = 0 \<or> gm_get (used s) a = None)
   | Ret None s' \<Rightarrow> a \<noteq> 0 \<and> gm_get (used s) a \<noteq> None \<and> mem_inv s' \<and> used s' = gm_del a (used s) \<and>
       arena_of s' = arena_of s \<and> mapAddr s' = mapAddr s \<and> maps s' = maps s \<and> fl_cov (fl s) \<noteq> {}
   | Panic p s' \<Rightarrow> p = NilDeref \<and> a \<noteq> 0 \<and> gm_get (used s) a \<noteq> None \<and> fl_cov (fl s) = {} \<and>
       s' = s\<lparr>used := gm_del a (used s)\<rparr> \<and> mem_inv s')"

lemma memFree_ok:
  assumes inv: "mem_inv s"
  shows "\<exists>r. memFree a s = Some r \<and> free_post a s r"
proof (cases "a = 0 \<or> gm_get (used s) a = None")
  case True
  then show ?thesis by (auto simp: memFree_def free_post_def)
next
  case False
  then obtain n where n: "gm_get (used s) a = Some n" and a: "a \<noteq> 0" by auto
  have i: "fl_inv (fl s)" "table_ok (used s)" "covered (used s) \<inter> fl_cov (fl s) = {}"
    and lim: "covered (used s) \<union> fl_cov (fl s) \<subseteq> {..<unat (mapAddr s)}"
    using inv by (simp_all add: mem_inv_def arena_of_def)
  note g = fl.give_live [OF i n]
  show ?thesis
  proof (cases "fl_give a n (fl s)")
    case None
    with g show ?thesis by simp
  next
    case (Some r)
    show ?thesis
    proof (cases r)
      case (Ret u f')
      with Some g have "fl_inv f'" "table_ok (gm_del a (used s))"
        "covered (gm_del a (used s)) \<inter> fl_cov f' = {}"
        "covered (gm_del a (used s)) \<union> fl_cov f' = covered (used s) \<union> fl_cov (fl s)" "fl_cov (fl s) \<noteq> {}"
        by simp_all
      moreover from this(4) lim have "covered (gm_del a (used s)) \<subseteq> {..<unat (mapAddr s)}"
        "fl_cov f' \<subseteq> {..<unat (mapAddr s)}" by blast+
      ultimately show ?thesis
        using Some Ret n a by (simp add: memFree_def free_post_def mem_inv_def arena_of_def)
    next
      case (Panic p f')
      with Some g have p: "p = NilDeref" "f' = fl s" "fl_cov (fl s) = {}" by simp_all
      have "mem_inv (s\<lparr>used := gm_del a (used s)\<rparr>)"
        using i lim p(3) table_ok_del [OF i(2), of a] covered_del [OF i(2) n]
        by (auto simp: mem_inv_def arena_of_def)
      with Some Panic n a p show ?thesis by (simp add: memFree_def free_post_def)
    qed
  qed
qed

text \<open>A block just released can be allocated again, whole or in part, without a new mapping.\<close>

lemma memFree_reuse:
  assumes inv: "mem_inv s" and n: "gm_get (used s) a = Some n" and a: "a \<noteq> 0"
    and live: "fl_cov (fl s) \<noteq> {}" and k: "0 < unat k" "unat k \<le> unat n"
  shows "\<exists>s' b s''. memFree a s = Some (Ret None s') \<and> memAlloc E k s' e = Some (Inr b, s'', e) \<and>
           mapAddr s'' = mapAddr s \<and> maps s'' = maps s"
proof -
  have i: "fl_inv (fl s)" "table_ok (used s)" "covered (used s) \<inter> fl_cov (fl s) = {}"
    using inv by (simp_all add: mem_inv_def)
  have r: "range_ok (a, n)"
    using table_ok_pos [OF i(2) n] table_ok_bound [OF i(2) n] by (simp add: range_ok_def)
  have d: "span a n \<inter> fl_cov (fl s) = {}" using covered_get [OF n] i(3) by blast
  from fl.give_ok [OF i(1) r d] live obtain u f' where g: "fl_give a n (fl s) = Some (Ret u f')"
    and f': "fl_inv f'" by (auto split: option.splits outcome.splits)
  obtain t where t: "fl_take k f' = Some t" using fl.take_total [OF f' k(1)] by blast
  with fl.give_take [OF i(1) r d g k(2)] obtain b f'' where t: "fl_take k f' = Some (Some (b, f''))"
    by (cases t) auto
  let ?s = "s\<lparr>used := gm_del a (used s), fl := f'\<rparr>"
  have fr: "memFree a s = Some (Ret None ?s)" using g n a by (simp add: memFree_def)
  have "k \<noteq> 0" using k(1) by auto
  from memAlloc_hit [OF this, of ?s b f'' E e] t
  have al: "memAlloc E k ?s e = Some (Inr b, ?s\<lparr>fl := f'', used := gm_set b k (used ?s)\<rparr>, e)" by simp
  show ?thesis by (intro exI conjI, rule fr, rule al) simp_all
qed

section \<open>The table of mappings and the emulator\<close>

text \<open>
  What the manager relies on of the emulator's mapping functions, over \<open>M\<close>, the set of addresses an
  emulator state has mapped: a mapping that succeeds was of a non-empty range not mapped yet and maps
  exactly that range; an unmapping that succeeds unmaps exactly its range; a call that fails changes
  nothing. Of ranges that reach the end of the address space nothing is said: the table of the manager
  mistakes them, because their end is 0.
\<close>

definition emu_maps :: "'e emulator \<Rightarrow> ('e \<Rightarrow> nat set) \<Rightarrow> bool" where
  "emu_maps E M \<longleftrightarrow>
     (\<forall>a n prot e. case EmuMemMap E a n prot e of
        (None, e') \<Rightarrow> unat a + unat n < 2 ^ 64 \<longrightarrow>
          0 < unat n \<and> span a n \<inter> M e = {} \<and> M e' = M e \<union> span a n
      | (Some err, e') \<Rightarrow> M e' = M e) \<and>
     (\<forall>a n e. case EmuMemUnmap E a n e of
        (None, e') \<Rightarrow> unat a + unat n < 2 ^ 64 \<longrightarrow> M e' = M e - span a n
      | (Some err, e') \<Rightarrow> M e' = M e)"

lemma emu_mapsD:
  assumes "emu_maps E M"
  shows "EmuMemMap E a n prot e = (None, e') \<Longrightarrow> unat a + unat n < 2 ^ 64 \<Longrightarrow>
           0 < unat n \<and> span a n \<inter> M e = {} \<and> M e' = M e \<union> span a n"
    and "EmuMemMap E a n prot e = (Some err, e') \<Longrightarrow> M e' = M e"
    and "EmuMemUnmap E a n e = (None, e') \<Longrightarrow> unat a + unat n < 2 ^ 64 \<Longrightarrow> M e' = M e - span a n"
    and "EmuMemUnmap E a n e = (Some err, e') \<Longrightarrow> M e' = M e"
proof -
  note all = assms [unfolded emu_maps_def]
  from conjunct1 [OF all, rule_format, where a = a and n = n and prot = prot and e = e]
  show "EmuMemMap E a n prot e = (None, e') \<Longrightarrow> unat a + unat n < 2 ^ 64 \<Longrightarrow>
           0 < unat n \<and> span a n \<inter> M e = {} \<and> M e' = M e \<union> span a n"
    and "EmuMemMap E a n prot e = (Some err, e') \<Longrightarrow> M e' = M e" by auto
  from conjunct2 [OF all, rule_format, where a = a and n = n and e = e]
  show "EmuMemUnmap E a n e = (None, e') \<Longrightarrow> unat a + unat n < 2 ^ 64 \<Longrightarrow> M e' = M e - span a n"
    and "EmuMemUnmap E a n e = (Some err, e') \<Longrightarrow> M e' = M e" by auto
qed

text \<open>The table records exactly what the emulator has mapped.\<close>

definition agree :: "('e \<Rightarrow> nat set) \<Rightarrow> mem_state \<Rightarrow> 'e \<Rightarrow> bool" where
  "agree M s e \<longleftrightarrow> table_ok (maps s) \<and> covered (maps s) = M e"

lemma agree_cong: "maps s' = maps s \<Longrightarrow> agree M s' e = agree M s e"
  by (simp add: agree_def)

lemma map_agree:
  assumes "emu_maps E M" and "agree M s e" and "EmuMemMap E a n prot e = (None, e')"
    and "unat a + unat n < 2 ^ 64"
  shows "agree M (s\<lparr>maps := mapStore a n (maps s)\<rparr>) e'"
  using emu_mapsD(1) [OF assms(1,3,4)] mapStore_correct [of "maps s" a n] assms(2,4)
  by (auto simp: agree_def)

lemma unmap_agree:
  assumes "emu_maps E M" and "agree M s e" and "EmuMemUnmap E a n e = (None, e')"
    and "unat a + unat n < 2 ^ 64"
  shows "agree M (s\<lparr>maps := mapDelete a n (maps s)\<rparr>) e'"
  using emu_mapsD(3) [OF assms(1,3,4)] mapDelete_correct [of "maps s" a n] assms(2,4)
  by (auto simp: agree_def)

text \<open>
  Each call keeps the agreement, unless the emulator has granted a range that reaches the end of the
  address space.
\<close>

definition top_map :: "'e emulator \<Rightarrow> mem_prot \<Rightarrow> 'e \<Rightarrow> 'e \<Rightarrow> u64 \<Rightarrow> u64 \<Rightarrow> bool" where
  "top_map E prot e e' a n \<longleftrightarrow> 2 ^ 64 \<le> unat a + unat n \<and> EmuMemMap E a n prot e = (None, e')"

definition top_unmap :: "'e emulator \<Rightarrow> 'e \<Rightarrow> 'e \<Rightarrow> u64 \<Rightarrow> u64 \<Rightarrow> bool" where
  "top_unmap E e e' a n \<longleftrightarrow> 2 ^ 64 \<le> unat a + unat n \<and> EmuMemUnmap E a n e = (None, e')"

lemma memMap_agree:
  assumes "emu_maps E M" and "agree M s e" and "memMap E a n prot s e = (r, s', e')"
  shows "agree M s' e' \<or> top_map E prot e e' (Align a (PageSize E)) (Align n (PageSize E))"
proof (cases "EmuMemMap E (Align a (PageSize E)) (Align n (PageSize E)) prot e")
  case (Pair o1 e1)
  show ?thesis
  proof (cases o1)
    case None
    with map_agree [OF assms(1,2)] Pair assms(3) show ?thesis
      by (auto simp: memMap_def Let_def top_map_def not_le)
  next
    case (Some err)
    with emu_mapsD(2) [OF assms(1)] Pair assms(2,3) show ?thesis
      by (auto simp: memMap_def Let_def agree_def)
  qed
qed

lemma memUnmap_agree:
  assumes "emu_maps E M" and "agree M s e" and "memUnmap E a n s e = (r, s', e')"
  shows "agree M s' e' \<or> top_unmap E e e' (Align a (PageSize E)) (Align n (PageSize E))"
proof (cases "EmuMemUnmap E (Align a (PageSize E)) (Align n (PageSize E)) e")
  case (Pair o1 e1)
  show ?thesis
  proof (cases o1)
    case None
    with unmap_agree [OF assms(1,2)] Pair assms(3) show ?thesis
      by (auto simp: memUnmap_def Let_def top_unmap_def not_le)
  next
    case (Some err)
    with emu_mapsD(4) [OF assms(1)] Pair assms(2,3) show ?thesis
      by (auto simp: memUnmap_def Let_def agree_def)
  qed
qed

lemma mapFree_agree:
  assumes "emu_maps E M" and "agree M s e" and "mapFree E a n s e = (r, s', e')"
  shows "agree M s' e' \<or> top_unmap E e e' a (Align n (PageSize E))"
proof (cases "EmuMemUnmap E a (Align n (PageSize E)) e")
  case (Pair o1 e1)
  show ?thesis
  proof (cases o1)
    case None
    with unmap_agree [OF assms(1,2)] Pair assms(3) show ?thesis
      by (auto simp: mapFree_def Let_def top_unmap_def not_le)
  next
    case (Some err)
    with emu_mapsD(4) [OF assms(1)] Pair assms(2,3) show ?thesis
      by (auto simp: mapFree_def Let_def agree_def)
  qed
qed

lemma mapAlloc_agree:
  assumes "emu_maps E M" and "agree M s e" and "mapAlloc E n prot s e = (r, s', e')"
  shows "agree M s' e' \<or> top_map E prot e e' (mapAddr s) (Align n (PageSize E))"
proof -
  let ?n = "Align n (PageSize E)"
  let ?s = "s\<lparr>mapAddr := mapAddr s + ?n\<rparr>"
  have s1: "agree M ?s e" using assms(2) by (simp add: agree_def)
  obtain o1 e1 where P: "EmuMemMap E (mapAddr s) ?n prot e = (o1, e1)" by (meson surj_pair)
  show ?thesis
  proof (cases o1)
    case None
    with map_agree [OF assms(1) s1] P assms(3) show ?thesis
      by (auto simp: mapAlloc_def Let_def top_map_def not_le)
  next
    case (Some err)
    with emu_mapsD(2) [OF assms(1)] P s1 assms(3) show ?thesis
      by (auto simp: mapAlloc_def Let_def agree_def)
  qed
qed

lemma memAlloc_agree:
  assumes "emu_maps E M" and "agree M s e" and "memAlloc E n s e = Some (r, s', e')"
  shows "agree M s' e' \<or> (\<exists>prot. top_map E prot e e' (mapAddr s) (Align n (PageSize E)))"
proof -
  define prot where "prot = MEM_PROT_READ OR MEM_PROT_WRITE"
  obtain r1 s1 e1 where P: "mapAlloc E n prot s e = (r1, s1, e1)" by (metis prod_cases3)
  have "maps s' = maps s \<and> e' = e \<or> maps s' = maps s1 \<and> e' = e1"
    using assms(3) P
    by (auto simp: memAlloc_def Let_def prot_def split: if_splits option.splits sum.splits prod.splits)
  with assms(2) mapAlloc_agree [OF assms(1,2) P] show ?thesis by (auto simp: agree_def)
qed

lemma memFree_maps: "memFree a s = Some (Ret r s') \<or> memFree a s = Some (Panic p s') \<Longrightarrow> maps s' = maps s"
  by (auto simp: memFree_def Let_def split: if_splits option.splits outcome.splits)

section \<open>Runs of the manager\<close>

datatype mem_op =
    OpMap u64 u64 mem_prot | OpUnmap u64 u64 | OpMapAlloc u64 mem_prot | OpMapFree u64 u64
  | OpAlloc u64 | OpFree u64

text \<open>
  One call of the manager, whatever it returns, also a release that panics and is recovered from.
  Allocations and new mappings must fit (\<open>room\<close>).
\<close>

inductive mem_step :: "'e emulator \<Rightarrow> mem_state \<times> 'e \<Rightarrow> mem_op \<Rightarrow> mem_state \<times> 'e \<Rightarrow> bool"
  for E :: "'e emulator" where
  st_map: "memMap E a n prot s e = (r, s', e') \<Longrightarrow> mem_step E (s, e) (OpMap a n prot) (s', e')"
| st_unmap: "memUnmap E a n s e = (r, s', e') \<Longrightarrow> mem_step E (s, e) (OpUnmap a n) (s', e')"
| st_mapAlloc: "room E n s \<Longrightarrow> mapAlloc E n prot s e = (r, s', e') \<Longrightarrow>
    mem_step E (s, e) (OpMapAlloc n prot) (s', e')"
| st_mapFree: "mapFree E a n s e = (r, s', e') \<Longrightarrow> mem_step E (s, e) (OpMapFree a n) (s', e')"
| st_alloc: "room E n s \<Longrightarrow> memAlloc E n s e = Some (r, s', e') \<Longrightarrow>
    mem_step E (s, e) (OpAlloc n) (s', e')"
| st_free: "memFree a s = Some (Ret r s') \<Longrightarrow> mem_step E (s, e) (OpFree a) (s', e)"
| st_free_panic: "memFree a s = Some (Panic p s') \<Longrightarrow> mem_step E (s, e) (OpFree a) (s', e)"

inductive_cases mem_stepE: "mem_step E (s, e) op c"

inductive mem_reach :: "'e emulator \<Rightarrow> 'e \<Rightarrow> mem_state \<times> 'e \<Rightarrow> bool"
  for E :: "'e emulator" and e0 :: 'e where
  rc_start: "mem_reach E e0 (mem_ctor, e0)"
| rc_step: "mem_reach E e0 c \<Longrightarrow> mem_step E c op c' \<Longrightarrow> mem_reach E e0 c'"

lemma mem_inv_maps [simp]: "mem_inv (s\<lparr>maps := m\<rparr>) = mem_inv s"
  by (simp add: mem_inv_def arena_of_def)

lemma mem_step_inv:
  assumes "emu_paged E" and "mem_step E c op c'" and "mem_inv (fst c)"
  shows "mem_inv (fst c')"
  using assms(2,3)
proof (cases rule: mem_step.cases)
  case (st_mapAlloc n s prot e r s' e')
  then have "unat (mapAddr s) \<le> unat (mapAddr s + Align n (PageSize E))"
    using Align_room(2) [OF assms(1)] by simp
  with mapAlloc_cases [OF assms(1) st_mapAlloc(4), of prot e] st_mapAlloc assms(3) mem_inv_grow
  show ?thesis by fastforce
next
  case (st_alloc n s e r s' e')
  then show ?thesis
    using memAlloc_ok [OF _ assms(1) st_alloc(4), of e] assms(3)
    by (auto simp: alloc_post_def split: sum.splits)
next
  case (st_free a s r s' e)
  then show ?thesis
    using memFree_ok [of s a] assms(3) by (auto simp: free_post_def split: option.splits)
next
  case (st_free_panic a s p s' e)
  then show ?thesis
    using memFree_ok [of s a] assms(3) by (auto simp: free_post_def)
qed (auto simp: memMap_def memUnmap_def mapFree_def Let_def split: prod.splits option.splits)

lemma mem_reach_inv: "mem_reach E e0 c \<Longrightarrow> emu_paged E \<Longrightarrow> mem_inv (fst c)"
proof (induction rule: mem_reach.induct)
  case rc_start
  show ?case by (simp add: mem_inv_ctor)
next
  case (rc_step c op c')
  then show ?case using mem_step_inv by blast
qed

text \<open>The calls whose range, rounded to pages, ends below the end of the address space.\<close>

fun below_top :: "'e emulator \<Rightarrow> mem_op \<Rightarrow> bool" where
  "below_top E (OpMap a n prot) = (unat (Align a (PageSize E)) + unat (Align n (PageSize E)) < 2 ^ 64)"
| "below_top E (OpUnmap a n) = (unat (Align a (PageSize E)) + unat (Align n (PageSize E)) < 2 ^ 64)"
| "below_top E (OpMapFree a n) = (unat a + unat (Align n (PageSize E)) < 2 ^ 64)"
| "below_top E _ = True"

inductive mem_reach_below :: "'e emulator \<Rightarrow> 'e \<Rightarrow> mem_state \<times> 'e \<Rightarrow> bool"
  for E :: "'e emulator" and e0 :: 'e where
  rb_start: "mem_reach_below E e0 (mem_ctor, e0)"
| rb_step: "mem_reach_below E e0 c \<Longrightarrow> mem_step E c op c' \<Longrightarrow> below_top E op \<Longrightarrow> mem_reach_below E e0 c'"

lemma mem_step_agree:
  assumes "emu_maps E M" and "mem_step E c op c'" and "below_top E op" and "agree M (fst c) (snd c)"
  shows "agree M (fst c') (snd c')"
  using assms(2-4)
proof (cases rule: mem_step.cases)
  case (st_free a s r s' e)
  then show ?thesis using assms(4) memFree_maps by (metis agree_cong fst_conv snd_conv)
next
  case (st_free_panic a s p s' e)
  then show ?thesis using assms(4) memFree_maps by (metis agree_cong fst_conv snd_conv)
next
  case (st_map a n prot s e r s' e')
  then show ?thesis using assms(3,4) memMap_agree [OF assms(1) _ st_map(4)] by (auto simp: top_map_def)
next
  case (st_unmap a n s e r s' e')
  then show ?thesis using assms(3,4) memUnmap_agree [OF assms(1) _ st_unmap(4)] by (auto simp: top_unmap_def)
next
  case (st_mapAlloc n s prot e r s' e')
  then show ?thesis using assms(4) mapAlloc_agree [OF assms(1) _ st_mapAlloc(5)]
    by (auto simp: top_map_def room_def)
next
  case (st_mapFree a n s e r s' e')
  then show ?thesis using assms(3,4) mapFree_agree [OF assms(1) _ st_mapFree(4)] by (auto simp: top_unmap_def)
next
  case (st_alloc n s e r s' e')
  then show ?thesis using assms(4) memAlloc_agree [OF assms(1) _ st_alloc(5)]
    by (auto simp: top_map_def room_def)
qed

lemma mem_reach_agree:
  "mem_reach_below E e0 c \<Longrightarrow> emu_maps E M \<Longrightarrow> M e0 = {} \<Longrightarrow> agree M (fst c) (snd c)"
proof (induction rule: mem_reach_below.induct)
  case rb_start
  then show ?case by (simp add: agree_def mem_ctor_def table_ok_empty covered_def)
next
  case (rb_step c op c')
  then show ?case using mem_step_agree by blast
qed

end
