(* ===== verification/GoRun.thy ===== *)
theory GoRun
  imports Emulator
begin

text \<open>
  Running Go code that may return an error or panic: a computation takes a state and ends in an
  \<open>outcome\<close>. \<open>seq\<close> runs two computations one after the other, \<open>attempt\<close> is the
  \<^verbatim>\<open>if err != nil { return err }\<close> between two calls, \<open>each\<close> a loop that stops at the first
  error. The section on bytes holds the views \<^verbatim>\<open>unsafe\<close> gives of a value: its bytes on a
  little-endian host.
\<close>

section \<open>Computations\<close>

type_synonym ('a, 's) go = "'s \<Rightarrow> ('a, 's) outcome"

definition ret :: "'a \<Rightarrow> ('a, 's) go" where
  "ret a = Ret a"

definition crash :: "panic \<Rightarrow> ('a, 's) go" where
  "crash p = Panic p"

definition seq :: "('a, 's) go \<Rightarrow> ('a \<Rightarrow> ('b, 's) go) \<Rightarrow> ('b, 's) go" where
  "seq m k = (\<lambda>s. case m s of Ret a s' \<Rightarrow> k a s' | Panic p s' \<Rightarrow> Panic p s')"

definition attempt :: "('a res, 's) go \<Rightarrow> ('a \<Rightarrow> ('b res, 's) go) \<Rightarrow> ('b res, 's) go" where
  "attempt m k = seq m (\<lambda>r. case r of Inl err \<Rightarrow> ret (Inl err) | Inr a \<Rightarrow> k a)"

definition get :: "('s, 's) go" where
  "get s = Ret s s"

definition update :: "('s \<Rightarrow> 's) \<Rightarrow> (unit res, 's) go" where
  "update f s = Ret (Inr ()) (f s)"

primrec each :: "('x \<Rightarrow> (unit res, 's) go) \<Rightarrow> 'x list \<Rightarrow> (unit res, 's) go" where
  "each f [] = ret (Inr ())"
| "each f (x # xs) = attempt (f x) (\<lambda>_. each f xs)"

text \<open>A computation on one part of the state.\<close>

definition on_fst :: "('a, 's) go \<Rightarrow> ('a, 's \<times> 'v) go" where
  "on_fst m = (\<lambda>(s, v). case m s of Ret a s' \<Rightarrow> Ret a (s', v) | Panic p s' \<Rightarrow> Panic p (s', v))"

definition on_snd :: "('a, 'v) go \<Rightarrow> ('a, 's \<times> 'v) go" where
  "on_snd m = (\<lambda>(s, v). case m v of Ret a v' \<Rightarrow> Ret a (s, v') | Panic p v' \<Rightarrow> Panic p (s, v'))"

text \<open>An operation of the emulator that may fail, as a computation.\<close>

definition errable :: "('v \<Rightarrow> goerr option \<times> 'v) \<Rightarrow> (unit res, 'v) go" where
  "errable f v = (case f v of (None, v') \<Rightarrow> Ret (Inr ()) v' | (Some err, v') \<Rightarrow> Ret (Inl err) v')"

definition reading :: "('v \<Rightarrow> 'a res) \<Rightarrow> ('a res, 'v) go" where
  "reading f v = Ret (f v) v"

lemmas go_defs = ret_def crash_def seq_def attempt_def get_def update_def on_fst_def on_snd_def
  errable_def reading_def

lemma seq_assoc: "seq (seq m k) h = seq m (\<lambda>a. seq (k a) h)"
  by (auto simp: seq_def fun_eq_iff split: outcome.splits)

lemma attempt_assoc: "attempt (attempt m k) h = attempt m (\<lambda>a. attempt (k a) h)"
  by (auto simp: attempt_def seq_def ret_def fun_eq_iff split: outcome.splits sum.splits)

lemma seq_ret [simp]: "seq (ret a) k = k a" "seq m ret = m"
  by (auto simp: seq_def ret_def fun_eq_iff split: outcome.splits)

lemma attempt_ok [simp]: "attempt (ret (Inr a)) k = k a" "attempt (ret (Inl err)) k = ret (Inl err)"
  by (auto simp: attempt_def)

lemma attempt_done [simp]: "attempt m (\<lambda>a. ret (Inr a)) = m" "attempt m (\<lambda>_. ret (Inr ())) = m"
  by (auto simp: attempt_def seq_def ret_def fun_eq_iff split: outcome.splits sum.splits)

lemma attempt_run: "m s = Ret (Inr a) s' \<Longrightarrow> attempt m k s = k a s'"
  by (simp add: attempt_def seq_def)

lemma each_append: "each f (xs @ ys) = attempt (each f xs) (\<lambda>_. each f ys)"
  by (induction xs) (simp_all add: attempt_assoc)

lemma each_map: "each f (map g xs) = each (\<lambda>x. f (g x)) xs"
  by (induction xs) simp_all

section \<open>Bytes\<close>

fun le_bytes :: "nat \<Rightarrow> u64 \<Rightarrow> byte list" where
  "le_bytes 0 v = []"
| "le_bytes (Suc n) v = ucast v # le_bytes n (drop_bit 8 v)"

fun of_le :: "byte list \<Rightarrow> u64" where
  "of_le [] = 0"
| "of_le (b # bs) = ucast b OR push_bit 8 (of_le bs)"

lemma length_le_bytes [simp]: "length (le_bytes n v) = n"
  by (induction n arbitrary: v) simp_all

lemma low_byte: "(ucast (ucast b OR push_bit 8 v :: u64) :: byte) = b"
  by (rule bit_eqI) (auto simp: bit_simps)

lemma high_bytes: "(\<forall>i \<ge> 56. \<not> bit v i) \<Longrightarrow>
    drop_bit 8 (ucast (b :: byte) OR push_bit 8 v :: u64) = v"
proof (rule bit_eqI)
  fix i assume hi: "\<forall>i \<ge> 56. \<not> bit v i" and "possible_bit TYPE(64 word) i"
  have "\<not> bit b (8 + i)" using bit_imp_le_length [of b "8 + i"] by auto
  then show "bit (drop_bit 8 (ucast b OR push_bit 8 v :: u64)) i = bit v i"
    using hi by (cases "i < 56") (auto simp: bit_simps)
qed

lemma of_le_bits: "i \<ge> 8 * length bs \<Longrightarrow> \<not> bit (of_le bs) i"
proof (induction bs arbitrary: i)
  case (Cons b bs)
  then have "\<not> bit b i" using bit_imp_le_length [of b i] by auto
  with Cons show ?case by (auto simp: bit_simps)
qed simp

lemma le_bytes_of_le: "length bs \<le> 8 \<Longrightarrow> le_bytes (length bs) (of_le bs) = bs"
proof (induction bs)
  case (Cons b bs)
  have "\<forall>i \<ge> 56. \<not> bit (of_le bs) i" using Cons.prems of_le_bits [of bs] by auto
  then have "drop_bit 8 (ucast b OR push_bit 8 (of_le bs)) = of_le bs" by (intro high_bytes) auto
  with Cons show ?case by (simp add: low_byte)
qed simp

lemma le_bytes_take: "k \<le> n \<Longrightarrow> take k (le_bytes n v) = le_bytes k v"
proof (induction n arbitrary: k v)
  case (Suc n)
  then show ?case by (cases k) simp_all
qed simp

lemma of_le_le_bytes: "(\<forall>i \<ge> 8 * n. \<not> bit v i) \<Longrightarrow> of_le (le_bytes n v) = v"
proof (induction n arbitrary: v)
  case 0 then show ?case by (auto intro: bit_eqI)
next
  case (Suc n)
  have "\<forall>i \<ge> 8 * n. \<not> bit (drop_bit 8 v) i" using Suc.prems by (auto simp: bit_simps)
  then have "of_le (le_bytes (Suc n) v) = ucast (ucast v :: byte) OR push_bit 8 (drop_bit 8 v)"
    using Suc.IH by simp
  also have "\<dots> = v" proof (rule bit_eqI)
    fix i show "bit (ucast (ucast v :: byte) OR push_bit 8 (drop_bit 8 v) :: u64) i = bit v i"
      by (cases "i < 8") (auto simp: bit_simps dest: bit_imp_le_length)
  qed
  finally show ?case .
qed

lemma of_le_le_bytes8 [simp]: "of_le (le_bytes 8 v) = v"
proof (rule of_le_le_bytes, intro allI impI)
  fix i :: nat assume "8 * 8 \<le> i" then show "\<not> bit v i" using bit_imp_le_length [of v i] by auto
qed

section \<open>Byte-addressed memory\<close>

fun read_bytes :: "u64 \<Rightarrow> nat \<Rightarrow> (u64 \<Rightarrow> byte) \<Rightarrow> byte list" where
  "read_bytes a 0 m = []"
| "read_bytes a (Suc k) m = m a # read_bytes (a + 1) k m"

fun write_bytes :: "u64 \<Rightarrow> byte list \<Rightarrow> (u64 \<Rightarrow> byte) \<Rightarrow> (u64 \<Rightarrow> byte)" where
  "write_bytes a [] m = m"
| "write_bytes a (b # bs) m = write_bytes (a + 1) bs (m(a := b))"

end
