(* ===== verification/SampleEmu.thy ===== *)
theory SampleEmu
  imports MemManager GoRun
begin

text \<open>
  A concrete emulator, on which the laws the model assumes of an emulator can be checked to hold and
  the theorems be applied to concrete runs: a table of mapped regions, a flat memory, registers and
  a list of hooks. It models no code of the repository.
\<close>

record semu =
  s_tab :: map_table
  s_mem :: "u64 \<Rightarrow> byte"
  s_regs :: "(reg, u64) gomap"
  s_hooks :: "nat list"
  s_next :: nat

definition semu0 :: semu where
  "semu0 = \<lparr>s_tab = [], s_mem = (\<lambda>_. 0), s_regs = [], s_hooks = [], s_next = 0\<rparr>"

text \<open>An executable test that a table is well-formed, and that a range meets no region of it.\<close>

definition clear_tab :: "u64 \<Rightarrow> u64 \<Rightarrow> map_table \<Rightarrow> bool" where
  "clear_tab a n m = list_all (\<lambda>(b, t). unat a + unat n \<le> unat b \<or> unat b + unat t \<le> unat a) m"

fun tab_ok :: "map_table \<Rightarrow> bool" where
  "tab_ok [] = True"
| "tab_ok ((a, n) # m) = (0 < unat n \<and> unat a + unat n < 2 ^ 64 \<and> clear_tab a n m \<and> tab_ok m)"

definition semu_map :: "u64 \<Rightarrow> u64 \<Rightarrow> mem_prot \<Rightarrow> semu \<Rightarrow> goerr option \<times> semu" where
  "semu_map a n prot e =
     (if 0 < unat n \<and> unat a + unat n < 2 ^ 64 \<and> tab_ok (s_tab e) \<and> clear_tab a n (s_tab e)
      then (None, e\<lparr>s_tab := mapStore a n (s_tab e)\<rparr>) else (Some (Foreign 1), e))"

definition semu_unmap :: "u64 \<Rightarrow> u64 \<Rightarrow> semu \<Rightarrow> goerr option \<times> semu" where
  "semu_unmap a n e =
     (if unat a + unat n < 2 ^ 64 \<and> tab_ok (s_tab e)
      then (None, e\<lparr>s_tab := mapDelete a n (s_tab e)\<rparr>) else (Some (Foreign 2), e))"

definition sample_emu :: "arch \<Rightarrow> semu emulator" where
  "sample_emu ar = \<lparr>
     EmuArch = ar,
     PageSize = 0x1000,
     EmuMemMap = semu_map,
     EmuMemUnmap = semu_unmap,
     EmuMemProtect = (\<lambda>a n p e. (None, e)),
     EmuMemRead = (\<lambda>a n e. Inr (read_bytes a (unat n) (s_mem e))),
     EmuMemWrite = (\<lambda>a bs e. (None, e\<lparr>s_mem := write_bytes a bs (s_mem e)\<rparr>)),
     EmuRegRead = (\<lambda>r e. Inr (gm_get0 (s_regs e) r)),
     EmuRegWrite = (\<lambda>r v e. (None, e\<lparr>s_regs := gm_set r v (s_regs e)\<rparr>)),
     EmuHook = (\<lambda>typ b n e. (Inr (s_next e), e\<lparr>s_hooks := s_next e # s_hooks e, s_next := Suc (s_next e)\<rparr>)),
     EmuHookClose = (\<lambda>h e. e\<lparr>s_hooks := remove1 h (s_hooks e)\<rparr>)\<rparr>"

section \<open>It satisfies the assumed laws\<close>

lemma clear_tab_get: "clear_tab a n m \<Longrightarrow> gm_get m b = Some t \<Longrightarrow>
    unat a + unat n \<le> unat b \<or> unat b + unat t \<le> unat a"
  by (induction m) (auto simp: clear_tab_def split: if_splits)

lemma tab_ok_pos: "tab_ok m \<Longrightarrow> (a, t) \<in> set m \<Longrightarrow> 0 < unat t"
  by (induction m rule: tab_ok.induct) auto

lemma tab_ok_distinct: "tab_ok m \<Longrightarrow> gm_ok m"
proof (induction m rule: tab_ok.induct)
  case (2 a n m)
  have "a \<notin> fst ` set m"
  proof
    assume "a \<in> fst ` set m"
    then obtain t where "(a, t) \<in> set m" by auto
    moreover from 2 this have "0 < unat t" using tab_ok_pos [of m] by simp
    ultimately show False using 2 by (fastforce simp: clear_tab_def list_all_iff)
  qed
  with 2 show ?case by (simp add: gm_ok_def)
qed (simp add: gm_ok_def)

lemma tab_ok_table_ok: "tab_ok m \<Longrightarrow> table_ok m"
proof (induction m rule: tab_ok.induct)
  case (2 a n m)
  then have m: "table_ok m" "clear_tab a n m" and gm: "gm_ok ((a, n) # m)"
    using tab_ok_distinct [of "(a, n) # m"] by auto
  have "table_ok (gm_set a n m)"
    using 2 clear_tab_get [OF m(2)] by (intro table_ok_put m(1)) auto
  moreover have "gm_get ((a, n) # m) = gm_get (gm_set a n m)"
    by (auto simp: gm.get_put fun_eq_iff)
  ultimately show ?case using gm by (metis table_ok_cong)
qed (simp add: table_ok_empty)

lemma table_ok_tab_ok: "table_ok m \<Longrightarrow> tab_ok m"
proof (induction m rule: tab_ok.induct)
  case (2 a n m)
  have d: "gm_ok m" "a \<notin> fst ` set m" using table_ok_gm [OF 2(2)] by (auto simp: gm_ok_def)
  then have none: "gm_get m a = None" by (simp add: gm_get_def map_of_eq_None_iff)
  have get: "gm_get ((a, n) # m) b = Some t" if "gm_get m b = Some t" for b t
    using that none by (cases "b = a") auto
  have "table_ok m"
    using 2(2) d(1) unfolding table_ok_def by (blast intro: get)
  moreover have "clear_tab a n m"
    unfolding clear_tab_def list_all_iff
  proof safe
    fix b t assume bt: "(b, t) \<in> set m" and n: "\<not> unat b + unat t \<le> unat a"
    from bt d(1) have "gm_get m b = Some t" by (simp add: gm_get_def gm_ok_def map_of_eq_Some_iff)
    with bt d(2) n table_ok_disjoint [OF 2(2), of a n b t] get [of b t]
    show "unat a + unat n \<le> unat b" by force
  qed
  ultimately show ?case
    using 2(1) table_ok_pos [OF 2(2), of a n] table_ok_bound [OF 2(2), of a n] by simp
qed simp

lemma sample_paged: "emu_paged (sample_emu ar)"
proof -
  have "PageSize (sample_emu ar) = 2 ^ 12" by (simp add: sample_emu_def)
  then show ?thesis unfolding emu_paged_def pow2_def by (intro bexI [of _ 12]) auto
qed

lemma clear_tab_covered: "clear_tab a n m \<Longrightarrow> covered m \<inter> span a n = {}"
  using clear_tab_get [of a n m] by (fastforce simp: covered_def span_def)

lemma sample_maps: "emu_maps (sample_emu ar) (\<lambda>e. covered (s_tab e))"
  unfolding emu_maps_def
proof (intro conjI allI)
  fix a n prot e
  show "case EmuMemMap (sample_emu ar) a n prot e of
        (None, e') \<Rightarrow> unat a + unat n < 2 ^ 64 \<longrightarrow> 0 < unat n \<and> span a n \<inter> covered (s_tab e) = {} \<and>
          covered (s_tab e') = covered (s_tab e) \<union> span a n
      | (Some err, e') \<Rightarrow> covered (s_tab e') = covered (s_tab e)"
    using clear_tab_covered [of a n "s_tab e"] mapStore_correct [of "s_tab e" a n]
      tab_ok_table_ok [of "s_tab e"]
    by (auto simp: sample_emu_def semu_map_def)
next
  fix a n e
  show "case EmuMemUnmap (sample_emu ar) a n e of
        (None, e') \<Rightarrow> unat a + unat n < 2 ^ 64 \<longrightarrow> covered (s_tab e') = covered (s_tab e) - span a n
      | (Some err, e') \<Rightarrow> covered (s_tab e') = covered (s_tab e)"
    using mapDelete_correct [of "s_tab e" a n] tab_ok_table_ok [of "s_tab e"]
    by (auto simp: sample_emu_def semu_unmap_def)
qed

end
