(* ===== verification/MemProps.thy ===== *)
theory MemProps
  imports SampleEmu
begin

text \<open>
  The properties of the memory manager: what its allocator promises in every state it can reach,
  that its table of mappings and the emulator agree, and the cases where the code falls short.
\<close>

section \<open>A run on the sample emulator\<close>

text \<open>
  The evaluation of the free list's two searches, which are partial functions, one step at a time.
\<close>

lemmas run_simps = alloc_scan.simps free_scan.simps fl_take_def fl_give_def fl_push_def InsertAfter_def
  InsertBefore_def Remove_def pool_Get_def upd_def empty_freelist_def zero_block_def mb_end_def

lemmas mgr_simps = memAlloc_def memFree_def mapAlloc_def mem_ctor_def mapStore_def
  MEM_PROT_READ_def MEM_PROT_WRITE_def

lemmas emu_simps = sample_emu_def semu_map_def semu_unmap_def semu0_def clear_tab_def

definition E0 :: "semu emulator" where "E0 = sample_emu ARCH_ARM64"

lemma E0_page [simp]: "PageSize E0 = 0x1000"
  by (simp add: E0_def sample_emu_def)

lemma Align_page [simp]:
  "Align 0x10 0x1000 = (0x1000 :: u64)" "Align 0x1000 0x1000 = (0x1000 :: u64)"
  by (simp_all add: Align_def)

text \<open>The state after an allocation of 16 bytes in a fresh manager.\<close>

definition st1 :: "mem_state \<times> semu" where
  "st1 = (case memAlloc E0 0x10 mem_ctor semu0 of Some (r, s, e) \<Rightarrow> (s, e))"

lemma run1: "memAlloc E0 0x10 mem_ctor semu0 = Some (Inr 0x400000, st1)"
  by (simp add: st1_def mgr_simps run_simps emu_simps E0_def)

lemma st1_fields:
  "used (fst st1) = [(0x400000, 0x10)]" "mapAddr (fst st1) = 0x401000"
  "maps (fst st1) = [(0x400000, 0x1000)]" "binds (fst st1) = []"
  by (simp_all add: st1_def mgr_simps run_simps emu_simps E0_def)

lemma st1_step: "mem_step E0 (mem_ctor, semu0) (OpAlloc 0x10) st1"
proof -
  have "room E0 0x10 mem_ctor" by (simp add: room_def mem_ctor_def)
  then show ?thesis
    using st_alloc [of E0 "0x10" mem_ctor semu0 "Inr 0x400000" "fst st1" "snd st1"] run1 by simp
qed

lemma st1_reach: "mem_reach E0 semu0 st1"
  by (rule rc_step [OF rc_start st1_step])

lemma st1_inv: "mem_inv (fst st1)"
  using mem_reach_inv [OF st1_reach] sample_paged by (simp add: E0_def)

section \<open>The allocator\<close>

text \<open>C1: In every state the memory manager can reach, whatever the order of its calls, the blocks
  handed out by \<^verbatim>\<open>memAlloc\<close> and not yet released are non-empty, do not reach the end of the address
  space, are pairwise disjoint and disjoint from every block of the free list.\<close>

theorem live_blocks_disjoint:
  assumes "mem_reach E e0 (s, e)" and "emu_paged E" and "gm_get (used s) a = Some n"
  shows "0 < unat n \<and> unat a + unat n < 2 ^ 64 \<and> span a n \<inter> fl_cov (fl s) = {} \<and>
    (\<forall>b k. gm_get (used s) b = Some k \<longrightarrow> b \<noteq> a \<longrightarrow> span a n \<inter> span b k = {})"
proof -
  have inv: "mem_inv s" using mem_reach_inv [OF assms(1,2)] by simp
  then have t: "table_ok (used s)" and d: "covered (used s) \<inter> fl_cov (fl s) = {}"
    by (simp_all add: mem_inv_def)
  have "span a n \<inter> span b k = {}" if "gm_get (used s) b = Some k" "b \<noteq> a" for b k
    using table_ok_disjoint [OF t assms(3) that(1)] that(2) by (auto simp: span_def)
  with table_ok_pos [OF t assms(3)] table_ok_bound [OF t assms(3)] covered_get [OF assms(3)] d
  show ?thesis by blast
qed

lemma live_blocks_disjoint_witness:
  "0 < unat (0x10 :: u64) \<and> span 0x400000 0x10 \<inter> fl_cov (fl (fst st1)) = {}"
  using live_blocks_disjoint [of E0 semu0 "fst st1" "snd st1" "0x400000" "0x10"] st1_reach st1_fields
  by (simp add: sample_paged E0_def)

text \<open>C16: In every reachable state an allocation returns: it fails without changing what is allocated,
  or it returns a block that was not in use, that overlaps no block in use and that is recorded
  with its size; the allocator's invariant holds again. It never loses free memory.\<close>

theorem memAlloc_reachable:
  assumes "mem_reach E e0 (s, e)" and "emu_paged E" and "room E n s"
  shows "\<exists>r s' e'. memAlloc E n s e = Some (r, s', e') \<and> mem_inv s' \<and>
    (case r of
       Inl err \<Rightarrow> used s' = used s \<and> fl s' = fl s
     | Inr a \<Rightarrow> n \<noteq> 0 \<and> gm_get (used s) a = None \<and> used s' = gm_set a n (used s) \<and>
         unat a + unat n < 2 ^ 64 \<and> span a n \<inter> covered (used s) = {} \<and> arena_of s \<subseteq> arena_of s')"
proof -
  have inv: "mem_inv s" using mem_reach_inv [OF assms(1,2)] by simp
  obtain r s' e' where "memAlloc E n s e = Some (r, s', e')" "alloc_post n s (r, s', e')"
    using memAlloc_ok [OF inv assms(2,3), of e] by auto
  then show ?thesis by (auto simp: alloc_post_def split: sum.splits)
qed

lemma memAlloc_reachable_witness:
  "\<exists>r s' e'. memAlloc E0 0x20 (fst st1) (snd st1) = Some (r, s', e') \<and> mem_inv s'"
proof -
  have "room E0 0x20 (fst st1)" by (simp add: room_def st1_fields Align_def)
  with memAlloc_reachable [of E0 semu0 "fst st1" "snd st1" "0x20"] st1_reach
  show ?thesis by (auto simp: sample_paged E0_def)
qed

text \<open>C15: In every reachable state a release returns or panics. An unknown address is refused and
  changes nothing. A known one is forgotten; if the free list holds any memory then the block goes
  back to it, with nothing gained or lost, and if the free list is empty then \<^verbatim>\<open>memFree\<close> panics
  with a nil dereference, the block already forgotten.\<close>

theorem memFree_reachable:
  assumes "mem_reach E e0 (s, e)" and "emu_paged E"
  shows "\<exists>r. memFree a s = Some r \<and>
    (if a = 0 \<or> gm_get (used s) a = None then r = Ret (Some ErrAddressInvalid) s
     else if fl_cov (fl s) = {} then r = Panic NilDeref (s\<lparr>used := gm_del a (used s)\<rparr>)
     else \<exists>s'. r = Ret None s' \<and> mem_inv s' \<and> used s' = gm_del a (used s) \<and>
       arena_of s' = arena_of s \<and> maps s' = maps s)"
proof -
  have inv: "mem_inv s" using mem_reach_inv [OF assms] by simp
  obtain r where r: "memFree a s = Some r" "free_post a s r" using memFree_ok [OF inv] by blast
  then show ?thesis
    by (cases r) (auto simp: free_post_def split: option.splits)
qed

lemma memFree_reachable_witness:
  "\<exists>r. memFree 0x400000 (fst st1) = Some r \<and> r \<noteq> Ret (Some ErrAddressInvalid) (fst st1)"
  using memFree_reachable [of E0 semu0 "fst st1" "snd st1" "0x400000"] st1_reach
  by (auto simp: sample_paged E0_def st1_fields split: if_splits)

text \<open>C21: A released block can be allocated again, whole or in part, from the free list: the
  emulator is not called and no new memory is mapped.\<close>

theorem memFree_then_memAlloc:
  assumes "mem_reach E e0 (s, e)" and "emu_paged E" and "gm_get (used s) a = Some n" and "a \<noteq> 0"
    and "fl_cov (fl s) \<noteq> {}" and "k \<noteq> 0" and "k \<le> n"
  shows "\<exists>s' b s''. memFree a s = Some (Ret None s') \<and> memAlloc E k s' e = Some (Inr b, s'', e) \<and>
    mapAddr s'' = mapAddr s \<and> maps s'' = maps s"
  using memFree_reuse [OF _ assms(3-5), of k] mem_reach_inv [OF assms(1,2)] assms(6,7)
  by (simp add: word_le_nat_alt unat_gt_0)

lemma st1_free: "fl_cov (fl (fst st1)) \<noteq> {}"
proof
  assume e: "fl_cov (fl (fst st1)) = {}"
  have "memFree 0x400000 (fst st1) \<noteq> Some (Panic NilDeref ((fst st1)\<lparr>used := []\<rparr>))"
    by (simp add: st1_def mgr_simps run_simps emu_simps E0_def)
  moreover obtain r where "memFree 0x400000 (fst st1) = Some r" "free_post 0x400000 (fst st1) r"
    using memFree_ok [OF st1_inv] by blast
  ultimately show False
    using e by (cases r) (auto simp: free_post_def st1_fields split: option.splits)
qed

lemma memFree_then_memAlloc_witness:
  "\<exists>s' b s''. memFree 0x400000 (fst st1) = Some (Ret None s') \<and>
     memAlloc E0 0x8 s' (snd st1) = Some (Inr b, s'', snd st1)"
  using memFree_then_memAlloc [of E0 semu0 "fst st1" "snd st1" "0x400000" "0x10" "0x8"]
    st1_reach st1_free by (auto simp: sample_paged E0_def st1_fields)

text \<open>C22: Allocating exactly a page in a fresh manager leaves the free list empty, so that the
  release of the page panics. The panic leaves the block out of \<^verbatim>\<open>used\<close> and out of the free list: a
  caller that recovers cannot release it again, and no allocation gets it back.\<close>

theorem memFree_panics_after_page_alloc:
  assumes "PageSize E = 0x1000"
    and "EmuMemMap E 0x400000 0x1000 (MEM_PROT_READ OR MEM_PROT_WRITE) e = (None, e')"
  shows "\<exists>s s'. memAlloc E 0x1000 mem_ctor e = Some (Inr 0x400000, s, e') \<and>
    memFree 0x400000 s = Some (Panic NilDeref s') \<and> memSize 0x400000 s' = 0 \<and>
    memFree 0x400000 s' = Some (Ret (Some ErrAddressInvalid) s') \<and> arena_of s' = {}"
proof -
  let ?s = "mem_ctor\<lparr>mapAddr := 0x401000, maps := [(0x400000, 0x1000)], used := [(0x400000, 0x1000)]\<rparr>"
  have "memAlloc E 0x1000 mem_ctor e = Some (Inr 0x400000, ?s, e')"
    using assms by (simp add: mgr_simps run_simps)
  moreover have "memFree 0x400000 ?s = Some (Panic NilDeref (?s\<lparr>used := []\<rparr>))"
    by (simp add: mgr_simps run_simps)
  moreover have "arena_of (?s\<lparr>used := []\<rparr>) = {}"
    by (simp add: arena_of_def mem_ctor_def fl_cov_empty covered_def)
  ultimately show ?thesis
    by (intro exI [of _ ?s] exI [of _ "?s\<lparr>used := []\<rparr>"]) (simp add: memSize_def memFree_def)
qed

lemma memFree_panics_after_page_alloc_witness:
  "\<exists>s s' e'. memAlloc E0 0x1000 mem_ctor semu0 = Some (Inr 0x400000, s, e') \<and>
     memFree 0x400000 s = Some (Panic NilDeref s')"
proof -
  obtain e' where "EmuMemMap E0 0x400000 0x1000 (MEM_PROT_READ OR MEM_PROT_WRITE) semu0 = (None, e')"
    by (simp add: emu_simps E0_def)
  with memFree_panics_after_page_alloc [of E0 semu0 e'] show ?thesis by auto
qed

section \<open>The free list\<close>

text \<open>C19: On a well-formed free list the allocator's search finds the first block that is large
  enough and cuts the request off its lower end, dropping the block when it is used up; the
  doubly-linked list stays well-formed. It always returns.\<close>

theorem free_list_take:
  assumes "fl_rep f ids"
  shows "case fl_take n f of
      None \<Rightarrow> False
    | Some None \<Rightarrow> take_list n (view f ids) = None
    | Some (Some (a, f')) \<Rightarrow> \<exists>ids'. fl_rep f' ids' \<and> take_list n (view f ids) = Some (a, view f' ids')"
  using fl_take_refines [OF assms, of n] by (auto split: option.splits prod.splits)

definition fl1 :: freelist where
  "fl1 = fl_push 0x2000 0x100 empty_freelist"

lemma fl1_rep: "fl_rep fl1 [0]"
  by (simp add: fl1_def fl_rep_def run_simps)

lemma fl1_view: "view fl1 [0] = [(0x2000, 0x100)]"
  by (simp add: fl1_def view_def cell_def run_simps)

lemma free_list_take_witness:
  "case fl_take 0x10 fl1 of Some (Some (a, f')) \<Rightarrow> \<exists>ids'. fl_rep f' ids' \<and> a = 0x2000 | _ \<Rightarrow> False"
  using free_list_take [OF fl1_rep, of "0x10"] fl1_view by (auto split: option.splits prod.splits)

text \<open>C18: On a well-formed free list a release follows the abstract routine on the list of ranges:
  it joins the block with the range that ends where it starts, and that one with the range before
  it when the gap closes, inserts it above the first range that starts below its end, or
  appends it at the low end. It always returns, and panics exactly on the empty list.\<close>

theorem free_list_give:
  assumes "fl_rep f ids"
  shows "case fl_give a n f of
      None \<Rightarrow> False
    | Some (Panic p f') \<Rightarrow> p = NilDeref \<and> f' = f \<and> ids = []
    | Some (Ret u f') \<Rightarrow> \<exists>ids'. fl_rep f' ids' \<and> give_list a n [] (view f ids) = Some (view f' ids')"
  using fl_give_refines [OF assms, of a n] by (auto split: option.splits outcome.splits)

lemma free_list_give_witness:
  "case fl_give 0x2100 0x10 fl1 of
     Some (Ret u f') \<Rightarrow> \<exists>ids'. fl_rep f' ids' \<and> view f' ids' = [(0x2000, 0x110)] | _ \<Rightarrow> False"
  using free_list_give [OF fl1_rep, of "0x2100" "0x10"] fl1_view
  by (auto split: option.splits outcome.splits)

text \<open>C20: Splicing a node into the doubly-linked list after or before a node of it (the names are
  those of the code, which keeps the list in descending order), or taking one out, gives a
  well-formed list with exactly that change: links in both directions agree and no node of the
  recycling pool is linked. (\<^verbatim>\<open>InsertAfter\<close> and \<^verbatim>\<open>Remove\<close> leave the head to the caller.)\<close>

theorem splice_well_formed:
  assumes "fl_rep f (xs @ i # ys)"
  shows "(case InsertAfter (Some i) a n f of (b, f') \<Rightarrow>
      fl_rep (f'\<lparr>head := headp (xs @ [b]) None\<rparr>) (xs @ b # i # ys) \<and>
      view f' (xs @ b # i # ys) = view f xs @ (a, n) # view f (i # ys)) \<and>
    (case InsertBefore (Some i) a n f of (b, f') \<Rightarrow>
      fl_rep f' (xs @ i # b # ys) \<and>
      view f' (xs @ i # b # ys) = view f (xs @ [i]) @ (a, n) # view f ys) \<and>
    fl_rep ((Remove i f)\<lparr>head := headp (xs @ ys) None\<rparr>) (xs @ ys) \<and>
    view (Remove i f) (xs @ ys) = view f xs @ view f ys"
  using InsertAfter_rep [OF assms, of a n] InsertBefore_rep [OF assms, of a n] Remove_rep [OF assms]
  by (auto split: prod.splits)

lemma splice_well_formed_witness:
  "case InsertBefore (Some 0) 0x1000 0x10 fl1 of (b, f') \<Rightarrow>
     view f' [0, b] = [(0x2000, 0x100), (0x1000, 0x10)]"
  using splice_well_formed [of fl1 "[]" 0 "[]" "0x1000" "0x10"] fl1_rep fl1_view
  by (auto simp: view_def split: prod.splits)

section \<open>The table of mappings\<close>

text \<open>C17: \<^verbatim>\<open>mapDelete\<close> cuts exactly the given range out of a well-formed table, however the range
  overlaps the regions (a part of one, several, the gaps between them), and keeps the table
  well-formed.\<close>

theorem mapDelete_exactly:
  assumes "table_ok m" and "unat addr + unat sz < 2 ^ 64"
  shows "table_ok (mapDelete addr sz m) \<and> covered (mapDelete addr sz m) = covered m - span addr sz"
  using mapDelete_correct [OF assms] by simp

lemma mapDelete_exactly_witness:
  "table_ok (mapDelete 0x1800 0x2000 [(0x1000, 0x1000), (0x3000, 0x2000)]) \<and>
   mapDelete 0x1800 0x2000 [(0x1000, 0x1000), (0x3000, 0x2000)] = [(0x1000, 0x800), (0x3800, 0x1800)]"
proof -
  have "table_ok [(0x1000, 0x1000), (0x3000, 0x2000)]"
    by (rule tab_ok_table_ok) (simp add: clear_tab_def)
  from mapDelete_exactly [OF this, of "0x1800" "0x2000"] show ?thesis
    by (simp add: mapDelete_def mapDelete_exact.simps gm_keys_def calcOverlap_def Let_def gm_get0_def)
qed

text \<open>A region whose end is the end of the address space is missed: its end wraps to 0, and
  \<^verbatim>\<open>mapDelete\<close> leaves it in the table unless the range starts exactly where it does.\<close>

lemma mapDelete_misses_top:
  "mapDelete 0xFFFFFFFFFFFFE000 0x1800 [(0xFFFFFFFFFFFFF000, 0x1000)] = [(0xFFFFFFFFFFFFF000, 0x1000)] \<and>
   mapDelete 0xFFFFFFFFFFFFF000 0x1000 [(0xFFFFFFFFFFFFF000, 0x1000)] = []"
  by (simp add: mapDelete_def mapDelete_exact.simps gm_keys_def calcOverlap_def Let_def gm_get0_def)

text \<open>C10: After any sequence of calls, successful or not, whose ranges end below the end of the address
  space, the table records exactly the addresses the emulator has mapped on the manager's behalf, in
  regions that do not overlap. Of a range that reaches the end of the address space this does not
  hold: its end is 0, and the table keeps what the emulator has unmapped.\<close>

theorem table_agrees_with_emulator:
  assumes "mem_reach_below E e0 (s, e)" and "emu_maps E M" and "M e0 = {}"
  shows "covered (maps s) = M e \<and> table_ok (maps s)"
  using mem_reach_agree [OF assms] by (simp add: agree_def)

lemma table_agrees_with_emulator_witness:
  "covered (maps (fst st1)) = covered (s_tab (snd st1)) \<and> maps (fst st1) = [(0x400000, 0x1000)]"
proof -
  have "mem_reach_below E0 semu0 st1"
    using rb_step [OF rb_start st1_step] by simp
  with table_agrees_with_emulator [of E0 semu0 "fst st1" "snd st1" "\<lambda>e. covered (s_tab e)"]
    sample_maps [of ARCH_ARM64] st1_fields
  show ?thesis by (simp add: E0_def semu0_def covered_def)
qed

text \<open>With a page size that is a power of two, the rounding of a size is the least multiple of
  the page size that is not below it; a size so close to the end of the word that its rounding
  does not fit becomes 0, so that the emulator is asked for an empty mapping.\<close>

lemma page_rounding:
  assumes "emu_paged E"
  shows "(unat n + unat (PageSize E) \<le> 2 ^ 64 \<longrightarrow>
            unat n \<le> unat (Align n (PageSize E)) \<and>
            unat (Align n (PageSize E)) < unat n + unat (PageSize E) \<and>
            unat (PageSize E) dvd unat (Align n (PageSize E))) \<and>
         (2 ^ 64 < unat n + unat (PageSize E) \<longrightarrow> Align n (PageSize E) = 0)"
proof -
  have p2: "pow2 (PageSize E)" using assms by (simp add: emu_paged_def)
  from pow2D [OF p2] obtain k where k: "k < 64" "PageSize E = 2 ^ k" "unat (PageSize E) = 2 ^ k" by blast
  have "Align n (PageSize E) = 0" if "2 ^ 64 < unat n + unat (PageSize E)"
    using Align_wraps [of k n] that k by simp
  moreover have "unat n \<le> unat (Align n (PageSize E)) \<and>
      unat (Align n (PageSize E)) < unat n + unat (PageSize E) \<and>
      unat (PageSize E) dvd unat (Align n (PageSize E))" if "unat n + unat (PageSize E) \<le> 2 ^ 64"
    using unat_Align64 [OF p2 that] pow2_pos [OF p2] round_up_ge round_up_less round_up_dvd by simp
  ultimately show ?thesis by blast
qed

lemma page_rounding_witness:
  "Align (0x1001 :: u64) (PageSize E0) = 0x2000 \<and> Align 0xFFFFFFFFFFFFF001 (PageSize E0) = 0"
  using page_rounding [of E0 "0xFFFFFFFFFFFFF001"] sample_paged [of ARCH_ARM64]
  by (simp add: E0_def [symmetric] Align_def)

section \<open>The destructor\<close>

text \<open>
  What the destructor relies on, over the emulator states \<open>I\<close> it meets: unmapping a range that is
  mapped succeeds, closing a hook maps and unmaps nothing, and both stay within \<open>I\<close>.
\<close>

definition emu_closes :: "'e emulator \<Rightarrow> ('e \<Rightarrow> nat set) \<Rightarrow> ('e \<Rightarrow> bool) \<Rightarrow> bool" where
  "emu_closes E M I \<longleftrightarrow>
     (\<forall>a n e. I e \<longrightarrow> 0 < unat n \<longrightarrow> unat a + unat n < 2 ^ 64 \<longrightarrow> span a n \<subseteq> M e \<longrightarrow>
        fst (EmuMemUnmap E a n e) = None \<and> I (snd (EmuMemUnmap E a n e))) \<and>
     (\<forall>h e. I e \<longrightarrow> I (EmuHookClose E h e) \<and> M (EmuHookClose E h e) = M e)"

lemma del_hd: "gm_ok ((a, n) # m) \<Longrightarrow> gm_del a ((a, n) # m) = m"
  by (induction m) (auto simp: gm_ok_def)

lemma unmap_all:
  assumes "emu_maps E M" and "emu_closes E M I"
  shows "table_ok m \<Longrightarrow> M e = covered m \<Longrightarrow> I e \<Longrightarrow>
    M (fold (\<lambda>(a, n) e. snd (EmuMemUnmap E a n e)) m e) = {}"
proof (induction m arbitrary: e)
  case (Cons p m)
  obtain a n where p: "p = (a, n)" by (cases p)
  have g: "gm_get (p # m) a = Some n" by (simp add: p)
  note ok = table_ok_gm [OF Cons.prems(1)]
  have u: "fst (EmuMemUnmap E a n e) = None \<and> I (snd (EmuMemUnmap E a n e))"
    using assms(2) Cons.prems covered_get [OF g] table_ok_pos [OF Cons.prems(1) g]
      table_ok_bound [OF Cons.prems(1) g] unfolding emu_closes_def by blast
  then have "M (snd (EmuMemUnmap E a n e)) = covered m"
    using emu_mapsD(3) [OF assms(1), of a n e "snd (EmuMemUnmap E a n e)"] Cons.prems(2)
      table_ok_bound [OF Cons.prems(1) g]
      covered_del [OF Cons.prems(1) g] del_hd [of a n m] ok p
    by (simp add: prod_eq_iff)
  moreover have "gm_del a (p # m) = m"
    using ok del_hd by (simp only: p)
  then have "table_ok m" using table_ok_del [OF Cons.prems(1), of a] by simp
  ultimately show ?case using Cons.IH u p by simp
qed (simp add: covered_def)

lemma sample_closes:
  "emu_closes (sample_emu ar) (\<lambda>e. covered (s_tab e)) (\<lambda>e. table_ok (s_tab e))"
  using mapDelete_correct table_ok_tab_ok
  by (auto simp: emu_closes_def sample_emu_def semu_unmap_def)

end
