(* ===== verification/Paths.thy ===== *)
theory Paths
  imports Prelude
begin

text \<open>
  The path functions of Go's \<^verbatim>\<open>path/filepath\<close> the file systems use (on a host whose separator is the
  slash), and \<^verbatim>\<open>split\<close> of \<^verbatim>\<open>filesystem/virtual.go\<close> on top of them. A path is read as the list of its
  components; \<open>parts\<close> is the list \<^verbatim>\<open>split\<close> takes apart one component at a time.
\<close>

abbreviation slash :: char where "slash \<equiv> CHR ''/''"

fun comps :: "string \<Rightarrow> string list" where
  "comps [] = [[]]"
| "comps (c # cs) =
     (if c = slash then [] # comps cs
      else case comps cs of [] \<Rightarrow> [[c]] | x # xs \<Rightarrow> (c # x) # xs)"

fun join :: "string list \<Rightarrow> string" where
  "join [] = []"
| "join [x] = x"
| "join (x # xs) = x @ slash # join xs"

text \<open>
  \<^verbatim>\<open>filepath.Clean\<close> on the components; \<open>st\<close> holds the components kept so far, the last one first. A
  rooted path cannot go above its root.
\<close>

fun clean_comps :: "bool \<Rightarrow> string list \<Rightarrow> string list \<Rightarrow> string list" where
  "clean_comps r st [] = rev st"
| "clean_comps r st (x # xs) =
     (if x = [] \<or> x = ''.'' then clean_comps r st xs
      else if x = ''..'' then
        (case st of
           [] \<Rightarrow> clean_comps r (if r then [] else [''..'']) xs
         | y # ys \<Rightarrow> if y = ''..'' then clean_comps r (''..'' # st) xs else clean_comps r ys xs)
      else clean_comps r (x # st) xs)"

definition rooted :: "string \<Rightarrow> bool" where
  "rooted p = (case p of [] \<Rightarrow> False | c # _ \<Rightarrow> c = slash)"

definition Clean :: "string \<Rightarrow> string" where
  "Clean p =
     (let cs = clean_comps (rooted p) [] (comps p) in
      if rooted p then slash # join cs else if cs = [] then ''.'' else join cs)"

text \<open>\<^verbatim>\<open>filepath.ToSlash(filepath.Join("/", name))\<close>, as the file manager calls it\<close>

definition Join_root :: "string \<Rightarrow> string" where
  "Join_root name = Clean (slash # slash # name)"

text \<open>\<^verbatim>\<open>filepath.Split\<close>: the directory up to and including the last slash, and the file name\<close>

definition fp_Split :: "string \<Rightarrow> string \<times> string" where
  "fp_Split p =
     (let f = rev (takeWhile (\<lambda>c. c \<noteq> slash) (rev p)) in (take (length p - length f) p, f))"

text \<open>\<^verbatim>\<open>split\<close>\<close>

definition split_path :: "string \<Rightarrow> string \<times> string" where
  "split_path p =
     (let q = (case Clean p of [] \<Rightarrow> [] | c # cs \<Rightarrow> if c = slash then cs else c # cs) in
      (takeWhile (\<lambda>c. c \<noteq> slash) q, drop 1 (dropWhile (\<lambda>c. c \<noteq> slash) q)))"

section \<open>Components and joining\<close>

definition plain :: "string \<Rightarrow> bool" where
  "plain x \<longleftrightarrow> x \<noteq> [] \<and> x \<noteq> ''.'' \<and> slash \<notin> set x"

lemma comps_nonempty [simp]: "comps s \<noteq> []"
  by (induction s) (auto split: list.splits)

lemma comps_noslash: "x \<in> set (comps s) \<Longrightarrow> slash \<notin> set x"
  by (induction s arbitrary: x) (auto split: list.splits if_splits)

lemma comps_plain: "slash \<notin> set x \<Longrightarrow> comps x = [x]"
  by (induction x) auto

lemma comps_app: "slash \<notin> set x \<Longrightarrow> comps (x @ slash # s) = x # comps s"
  by (induction x) auto

lemma comps_join: "cs \<noteq> [] \<Longrightarrow> \<forall>x \<in> set cs. slash \<notin> set x \<Longrightarrow> comps (join cs) = cs"
  by (induction cs rule: join.induct) (auto simp: comps_plain comps_app)

lemma join_comps: "join (comps s) = s"
proof (induction s)
  case (Cons c s)
  obtain x xs where "comps s = x # xs" by (cases "comps s") auto
  with Cons show ?case by (cases xs) auto
qed simp

lemma join_Cons: "xs \<noteq> [] \<Longrightarrow> join (x # xs) = x @ slash # join xs"
  by (cases xs) auto

lemma join_empty: "\<forall>x \<in> set cs. plain x \<Longrightarrow> join cs = [] \<longleftrightarrow> cs = []"
  by (cases cs rule: join.cases) (auto simp: plain_def)

section \<open>Cleaned lists of components\<close>

text \<open>A cleaned list: plain components, with \<^verbatim>\<open>..\<close> only at the front, and not at all when rooted.\<close>

definition cleaned :: "bool \<Rightarrow> string list \<Rightarrow> bool" where
  "cleaned r cs \<longleftrightarrow> (\<forall>x \<in> set cs. plain x) \<and>
     (\<exists>k rest. cs = replicate k ''..'' @ rest \<and> ''..'' \<notin> set rest \<and> (r \<longrightarrow> k = 0))"

lemma cleaned_plain: "cleaned r cs \<Longrightarrow> x \<in> set cs \<Longrightarrow> plain x"
  by (simp add: cleaned_def)

lemma cleaned_Nil: "cleaned r []"
  by (simp add: cleaned_def)

lemma cleaned_snoc: "cleaned r cs \<Longrightarrow> plain x \<Longrightarrow> x \<noteq> ''..'' \<Longrightarrow> cleaned r (cs @ [x])"
  unfolding cleaned_def by (force intro: exI)

lemma cleaned_up: "cleaned False cs \<Longrightarrow> cs = [] \<or> last cs = ''..'' \<Longrightarrow> cleaned False (cs @ [''..''])"
proof -
  assume c: "cleaned False cs" and l: "cs = [] \<or> last cs = ''..''"
  from c obtain k rest where k: "cs = replicate k ''..'' @ rest" "''..'' \<notin> set rest"
    by (auto simp: cleaned_def)
  with l have "rest = []" by (metis append_is_Nil_conv last_appendR last_in_set)
  with k have "cs @ [''..''] = replicate (Suc k) ''..'' @ []" by (simp add: replicate_append_same)
  moreover have "\<forall>x \<in> set (cs @ [''..'']). plain x" using c by (auto simp: cleaned_def plain_def)
  ultimately show ?thesis
    unfolding cleaned_def by (intro conjI exI [of _ "Suc k"] exI [of _ "[]"]) auto
qed

lemma cleaned_butlast: "cleaned r (cs @ [x]) \<Longrightarrow> x \<noteq> ''..'' \<Longrightarrow> cleaned r cs"
proof -
  assume c: "cleaned r (cs @ [x])" and x: "x \<noteq> ''..''"
  from c obtain k rest where k: "cs @ [x] = replicate k ''..'' @ rest" "''..'' \<notin> set rest" "r \<longrightarrow> k = 0"
    by (auto simp: cleaned_def)
  have "rest \<noteq> []"
  proof
    assume "rest = []"
    then have "x \<in> set (replicate k ''..'')" using k(1) by (metis append.right_neutral in_set_conv_decomp)
    with x show False by simp
  qed
  then have "cs = replicate k ''..'' @ butlast rest"
    using k(1) by (metis butlast_append butlast_snoc)
  with c k(2,3) show ?thesis
    unfolding cleaned_def by (metis Un_iff in_set_butlastD set_append)
qed

lemma cleaned_no_up: "cleaned True cs \<Longrightarrow> ''..'' \<notin> set cs"
  by (auto simp: cleaned_def)

lemma cleaned_tl:
  assumes "cleaned r (x # cs)"
  shows "cleaned r cs"
proof -
  obtain k rest where k: "x # cs = replicate k ''..'' @ rest" "''..'' \<notin> set rest" "r \<longrightarrow> k = 0"
    using assms by (auto simp: cleaned_def)
  have "\<exists>j rest'. cs = replicate j ''..'' @ rest' \<and> ''..'' \<notin> set rest' \<and> (r \<longrightarrow> j = 0)"
  proof (cases k)
    case 0
    with k show ?thesis by (intro exI [of _ 0] exI [of _ cs]) (auto simp flip: k(1))
  next
    case (Suc j)
    with k show ?thesis by (intro exI [of _ j] exI [of _ rest]) auto
  qed
  with assms show ?thesis by (auto simp: cleaned_def)
qed

lemma clean_comps_cleaned:
  "cleaned r (rev st) \<Longrightarrow> \<forall>x \<in> set xs. slash \<notin> set x \<Longrightarrow> cleaned r (clean_comps r st xs)"
proof (induction r st xs rule: clean_comps.induct)
  case (2 r st x xs)
  consider "x = [] \<or> x = ''.''" | "x = ''..''" "st = []" | y ys where "x = ''..''" "st = y # ys" "y = ''..''"
    | y ys where "x = ''..''" "st = y # ys" "y \<noteq> ''..''" | "x \<noteq> []" "x \<noteq> ''.''" "x \<noteq> ''..''"
    by (cases st) auto
  then show ?case
  proof cases
    case 2
    then show ?thesis using "2.IH"(2) "2.prems" cleaned_up [of "[]"] by (cases r) (auto simp: cleaned_Nil)
  next
    case 3
    then have "\<not> r" using "2.prems" cleaned_no_up [of "rev st"] by auto
    with 3 show ?thesis using "2.IH"(3) "2.prems" cleaned_up [of "rev st"] by auto
  next
    case 4
    then show ?thesis using "2.IH"(4) "2.prems" cleaned_butlast by auto
  next
    case 5
    then show ?thesis using "2.IH"(5) "2.prems" cleaned_snoc [of r "rev st" x] by (auto simp: plain_def)
  qed (use 2 in auto)
qed simp

lemma clean_comps_plain:
  "\<forall>x \<in> set xs. plain x \<and> x \<noteq> ''..'' \<Longrightarrow> clean_comps r st xs = rev st @ xs"
  by (induction xs arbitrary: st) (auto simp: plain_def)

lemma clean_comps_ups:
  "clean_comps False (replicate j ''..'') (replicate k ''..'' @ xs) =
     clean_comps False (replicate (j + k) ''..'') xs"
proof (induction k arbitrary: j)
  case (Suc k)
  have "clean_comps False (replicate j ''..'') (''..'' # replicate k ''..'' @ xs) =
    clean_comps False (replicate (Suc j) ''..'') (replicate k ''..'' @ xs)"
    by (cases j) auto
  with Suc [of "Suc j"] show ?case by (simp del: replicate.simps(2) add: replicate.simps(2) [of k])
qed simp

lemma clean_comps_id:
  assumes "cleaned r cs"
  shows "clean_comps r [] cs = cs"
proof -
  obtain k rest where k: "cs = replicate k ''..'' @ rest" "''..'' \<notin> set rest" "r \<longrightarrow> k = 0"
    using assms by (auto simp: cleaned_def)
  have p: "\<forall>x \<in> set rest. plain x \<and> x \<noteq> ''..''" using assms k by (auto simp: cleaned_def)
  show ?thesis
  proof (cases r)
    case True
    with k p show ?thesis by (simp add: clean_comps_plain)
  next
    case False
    with clean_comps_ups [of 0 k rest] clean_comps_plain [OF p, of False "replicate k ''..''"] k(1)
    show ?thesis by simp
  qed
qed


section \<open>Cleaning a path, and taking its first component off\<close>

text \<open>
  The components \<^verbatim>\<open>split\<close> hands out. The unrooted empty path stands for the one component \<^verbatim>\<open>.\<close>, because
  \<^verbatim>\<open>Clean\<close> turns it into that; the root has none.
\<close>

definition parts :: "string \<Rightarrow> string list" where
  "parts p =
     (let cs = clean_comps (rooted p) [] (comps p) in
      if rooted p \<or> cs \<noteq> [] then cs else [''.''])"

lemma clean_comps_of: "cleaned (rooted p) (clean_comps (rooted p) [] (comps p))"
  by (rule clean_comps_cleaned) (auto simp: cleaned_Nil dest: comps_noslash)

lemma rooted_join: "\<forall>x \<in> set cs. plain x \<Longrightarrow> \<not> rooted (join cs)"
proof (cases cs)
  case (Cons x xs)
  assume p: "\<forall>x \<in> set cs. plain x"
  then obtain a as where "x = a # as" "a \<noteq> slash" using Cons by (cases x) (auto simp: plain_def)
  then show ?thesis by (cases xs) (auto simp: rooted_def Cons)
qed (simp add: rooted_def)

lemma comps_Cons_slash: "comps (slash # s) = [] # comps s"
  by simp

lemma cleaned_unroot: "cleaned r cs \<Longrightarrow> cleaned False cs"
  by (auto simp: cleaned_def)

lemma clean_join:
  assumes "cleaned r cs" and "cs \<noteq> []"
  shows "clean_comps False [] (comps (join cs)) = cs" and "Clean (join cs) = join cs"
    and "parts (join cs) = cs" and "\<not> rooted (join cs)"
proof -
  have p: "\<forall>x \<in> set cs. plain x" using assms(1) by (simp add: cleaned_def)
  then have c: "comps (join cs) = cs" by (intro comps_join assms(2)) (auto simp: plain_def)
  show nr: "\<not> rooted (join cs)" by (rule rooted_join [OF p])
  show cc: "clean_comps False [] (comps (join cs)) = cs"
    using clean_comps_id [OF cleaned_unroot [OF assms(1)]] c by simp
  with nr assms(2) show "Clean (join cs) = join cs" and "parts (join cs) = cs"
    by (simp_all add: Clean_def parts_def)
qed

lemma clean_join_rooted:
  assumes "cleaned True cs"
  shows "Clean (slash # join cs) = slash # join cs"
proof -
  have "clean_comps True [] (comps (slash # join cs)) = cs"
  proof (cases "cs = []")
    case False
    then have "comps (join cs) = cs"
      using assms by (intro comps_join) (auto simp: cleaned_def plain_def)
    with clean_comps_id [OF assms] show ?thesis by simp
  qed simp
  then show ?thesis by (simp add: Clean_def rooted_def)
qed

lemma take_comp:
  assumes "slash \<notin> set c"
  shows "takeWhile (\<lambda>a. a \<noteq> slash) c = c" and "dropWhile (\<lambda>a. a \<noteq> slash) c = []"
    and "takeWhile (\<lambda>a. a \<noteq> slash) (c @ slash # s) = c"
    and "dropWhile (\<lambda>a. a \<noteq> slash) (c @ slash # s) = slash # s"
  using assms by (induction c) auto

lemma first_comp:
  assumes "slash \<notin> set c"
  shows "takeWhile (\<lambda>a. a \<noteq> slash) (join (c # cs)) = c"
    and "drop 1 (dropWhile (\<lambda>a. a \<noteq> slash) (join (c # cs))) = join cs"
  by (cases cs; simp add: take_comp [OF assms])+

lemma split_parts:
  "split_path p = (case parts p of [] \<Rightarrow> ([], []) | c # cs \<Rightarrow> (c, join cs))"
proof -
  define cs where "cs = clean_comps (rooted p) [] (comps p)"
  have c: "\<forall>x \<in> set cs. plain x" using clean_comps_of [of p] by (simp add: cs_def cleaned_def)
  have cl: "Clean p = (if rooted p then slash # join cs else if cs = [] then ''.'' else join cs)"
    and pa: "parts p = (if rooted p \<or> cs \<noteq> [] then cs else [''.''])"
    unfolding Clean_def parts_def Let_def cs_def by auto
  define q where "q = (if rooted p \<or> cs \<noteq> [] then join cs else ''.'')"
  have "(case Clean p of [] \<Rightarrow> [] | c # cs \<Rightarrow> if c = slash then cs else c # cs) = q"
    using rooted_join [OF c] join_empty [OF c]
    by (auto simp: cl q_def rooted_def split: list.splits)
  then have "split_path p = (takeWhile (\<lambda>c. c \<noteq> slash) q, drop 1 (dropWhile (\<lambda>c. c \<noteq> slash) q))"
    by (simp add: split_path_def)
  then show ?thesis
  proof (cases cs)
    case (Cons x xs)
    then have "slash \<notin> set x" using c by (simp add: plain_def)
    from first_comp [OF this, of xs] \<open>split_path p = _\<close> Cons show ?thesis
      by (simp add: q_def pa)
  qed (simp add: q_def pa)
qed

lemma parts_plain_tl: "parts p = c # cs \<Longrightarrow> x \<in> set cs \<Longrightarrow> plain x"
  using cleaned_plain [OF clean_comps_of [of p]]
  by (auto simp: parts_def Let_def split: if_splits)

lemma parts_tl: "parts p = c # cs \<Longrightarrow> cs \<noteq> [] \<Longrightarrow> parts (join cs) = cs"
  using clean_join(3) [of "rooted p" cs] cleaned_tl [of "rooted p" c cs] clean_comps_of [of p]
  by (auto simp: parts_def Let_def split: if_splits)

lemma parts_comp: "parts p = c # cs \<Longrightarrow> c \<noteq> []"
  using clean_comps_of [of p] cleaned_plain [of "rooted p" _ c]
  by (auto simp: parts_def Let_def plain_def split: if_splits)

lemma parts_join_empty: "parts p = c # cs \<Longrightarrow> join cs = [] \<longleftrightarrow> cs = []"
  using parts_plain_tl [of p c cs] by (simp add: join_empty)

text \<open>\<^verbatim>\<open>filepath.Clean\<close> is idempotent, so that a path handed on after cleaning is read the same
  way again.\<close>

lemma Clean_idempotent: "Clean (Clean p) = Clean p"
proof -
  define cs where "cs = clean_comps (rooted p) [] (comps p)"
  have c: "cleaned (rooted p) cs" unfolding cs_def by (rule clean_comps_of)
  have cl: "Clean p = (if rooted p then slash # join cs else if cs = [] then ''.'' else join cs)"
    by (simp add: Clean_def cs_def)
  have "Clean ''.'' = ''.''" by (simp add: Clean_def rooted_def)
  then show ?thesis
    using clean_join(2) [OF c] clean_join_rooted [of cs] c by (cases "rooted p") (simp_all add: cl)
qed

text \<open>Whatever name a program passes, the path the file manager hands to its handlers is the root
  followed by plain components, none of them \<^verbatim>\<open>..\<close>: a program cannot name anything above the root.\<close>

lemma Join_root_confined:
  "\<exists>cs. Join_root name = slash # join cs \<and> ''..'' \<notin> set cs \<and> list_all plain cs"
proof -
  let ?p = "slash # slash # name"
  have r: "rooted ?p" by (simp add: rooted_def)
  have c: "cleaned True (clean_comps True [] (comps ?p))" using clean_comps_of [of ?p] r by simp
  have "Join_root name = slash # join (clean_comps True [] (comps ?p))"
    by (simp only: Join_root_def Clean_def Let_def r if_True)
  with c show ?thesis
    by (intro exI [of _ "clean_comps True [] (comps ?p)"]) (auto simp: cleaned_no_up list_all_iff intro: cleaned_plain)
qed

end
