(* ===== verification/VirtualFS.thy ===== *)
theory VirtualFS
  imports Paths
begin

text \<open>
  The in-memory file system of \<^verbatim>\<open>filesystem/virtual.go\<close>. Its objects (\<^verbatim>\<open>fileFS\<close>, \<^verbatim>\<open>dirFS\<close>, \<^verbatim>\<open>linkFS\<close>) live
  in a store and refer to each other by their index in it, as the Go objects do by pointer; a
  directory's \<^verbatim>\<open>sync.Map\<close> is an association list from names to indices. Objects of other
  implementations of \<^verbatim>\<open>filesystem.FS\<close> are not in the store. A method call on an interface value is a
  case distinction on the object. Methods that call each other through the store may in principle
  not return (\<open>None\<close>); on a well-formed store they do.
\<close>

section \<open>Flags, modes and objects\<close>

definition O_RDONLY :: int where "O_RDONLY = 0"
definition O_WRONLY :: int where "O_WRONLY = 1"
definition O_RDWR :: int where "O_RDWR = 2"
definition O_CREATE :: int where "O_CREATE = 0x40"
definition O_EXCL :: int where "O_EXCL = 0x80"
definition O_TRUNC :: int where "O_TRUNC = 0x200"
definition O_APPEND :: int where "O_APPEND = 0x400"

definition ModeDir :: u32 where "ModeDir = 0x80000000"
definition ModePerm :: u32 where "ModePerm = 0x1FF"

lemmas flag_defs = O_RDONLY_def O_WRONLY_def O_RDWR_def O_CREATE_def O_EXCL_def O_TRUNC_def O_APPEND_def

text \<open>\<^verbatim>\<open>fileFS\<close>, \<^verbatim>\<open>dirFS\<close> and \<^verbatim>\<open>linkFS\<close>; a modification time is an abstract number.\<close>

datatype vnode =
    FileN string u32 nat "byte list"
  | DirN string u32 nat "(string, nat) gomap"
  | LinkN string "nat option"

record fileInfo =
  fi_name :: string
  fi_size :: nat
  fi_mode :: u32
  fi_mtime :: nat

text \<open>The open files \<^verbatim>\<open>file\<close> and \<^verbatim>\<open>dir\<close>.\<close>

record vfile =
  vf_fs :: nat
  vf_flag :: int
  vf_off :: nat

record vdir =
  vd_fs :: nat
  vd_read :: "nat list"

datatype vhandle = HFile vfile | HDir vdir

type_synonym vfs = "vnode list"

definition NewVirtualFS :: vfs where
  "NewVirtualFS = [DirN [] ModeDir 0 []]"

definition SoftLink :: "string \<Rightarrow> nat option \<Rightarrow> vfs \<Rightarrow> nat \<times> vfs" where
  "SoftLink name t st = (length st, st @ [LinkN name t])"

text \<open>\<^verbatim>\<open>value.(DirFS)\<close> and \<^verbatim>\<open>value.(VirtualFS)\<close> succeed on directories and links.\<close>

fun is_DirFS :: "vnode \<Rightarrow> bool" where
  "is_DirFS (FileN _ _ _ _) = False"
| "is_DirFS _ = True"

section \<open>Looking up\<close>

partial_function (option) vfs_Sub :: "vfs \<Rightarrow> nat \<Rightarrow> string \<Rightarrow> nat res option" where
  "vfs_Sub st n p =
     (case st ! n of
        FileN _ _ _ _ \<Rightarrow> Some (Inl FsErrInvalid)
      | DirN _ _ _ subs \<Rightarrow>
          (case split_path p of (first, other) \<Rightarrow>
             if first = [] then Some (Inl FsErrInvalid)
             else case gm_get subs first of
                    None \<Rightarrow> Some (Inl FsErrNotExist)
                  | Some v \<Rightarrow> if other = [] then Some (Inr v) else vfs_Sub st v other)
      | LinkN _ t \<Rightarrow> (case t of None \<Rightarrow> Some (Inl FsErrInvalid) | Some t \<Rightarrow> vfs_Sub st t p))"

partial_function (option) vfs_Stat :: "vfs \<Rightarrow> nat \<Rightarrow> string \<Rightarrow> fileInfo res option" where
  "vfs_Stat st n name =
     (case st ! n of
        FileN nm mode t data \<Rightarrow>
          Some (if name \<noteq> [] then Inl FsErrInvalid
                else Inr \<lparr>fi_name = nm, fi_size = length data, fi_mode = mode, fi_mtime = t\<rparr>)
      | DirN nm mode t subs \<Rightarrow>
          (case fp_Split name of (dn, fn) \<Rightarrow>
             if fn = [] then Some (Inr \<lparr>fi_name = nm, fi_size = 0, fi_mode = mode, fi_mtime = t\<rparr>)
             else if dn \<noteq> [] then
               (case vfs_Sub st n dn of
                  None \<Rightarrow> None
                | Some (Inl err) \<Rightarrow> Some (Inl err)
                | Some (Inr sub) \<Rightarrow> vfs_Stat st sub fn)
             else case gm_get subs fn of
                    None \<Rightarrow> Some (Inl FsErrNotExist)
                  | Some v \<Rightarrow> vfs_Stat st v [])
      | LinkN _ t \<Rightarrow> (case t of None \<Rightarrow> Some (Inl FsErrInvalid) | Some t \<Rightarrow> vfs_Stat st t name))"

text \<open>The loop of \<^verbatim>\<open>dirFS.ReadDir\<close> over the entries, which stops at the first error\<close>

fun stat_all :: "vfs \<Rightarrow> nat list \<Rightarrow> fileInfo list res option" where
  "stat_all st [] = Some (Inr [])"
| "stat_all st (v # vs) =
     (case vfs_Stat st v [] of
        None \<Rightarrow> None
      | Some (Inl err) \<Rightarrow> Some (Inl err)
      | Some (Inr info) \<Rightarrow> map_option (map_sum id ((#) info)) (stat_all st vs))"

text \<open>\<^verbatim>\<open>ReadDir\<close>. The type assertion \<^verbatim>\<open>sub.(DirFS)\<close> panics on a file.\<close>

partial_function (option) vfs_ReadDir ::
  "vfs \<Rightarrow> nat \<Rightarrow> string \<Rightarrow> (fileInfo list res, unit) outcome option" where
  "vfs_ReadDir st n name =
     (case st ! n of
        FileN _ _ _ _ \<Rightarrow> Some (Ret (Inl FsErrInvalid) ())
      | DirN _ _ _ subs \<Rightarrow>
          (if name = [] then map_option (\<lambda>r. Ret r ()) (stat_all st (map snd subs))
           else case vfs_Sub st n name of
                  None \<Rightarrow> None
                | Some (Inl err) \<Rightarrow> Some (Ret (Inl err) ())
                | Some (Inr sub) \<Rightarrow>
                    if is_DirFS (st ! sub) then vfs_ReadDir st sub []
                    else Some (Panic (PanicMsg ''interface conversion'') ()))
      | LinkN _ t \<Rightarrow>
          (case t of
             None \<Rightarrow> Some (Ret (Inl FsErrInvalid) ())
           | Some t \<Rightarrow> if is_DirFS (st ! t) then vfs_ReadDir st t name
                       else Some (Ret (Inl FsErrInvalid) ())))"

partial_function (option) vfs_Readlink :: "vfs \<Rightarrow> nat \<Rightarrow> string \<Rightarrow> string res option" where
  "vfs_Readlink st n name =
     (case st ! n of
        FileN _ _ _ _ \<Rightarrow> Some (Inl FsErrInvalid)
      | DirN _ _ _ subs \<Rightarrow>
          (case fp_Split name of (dn, fn) \<Rightarrow>
             if fn = [] then Some (Inl FsErrNotExist)
             else if dn = [] then
               (case gm_get subs fn of
                  None \<Rightarrow> Some (Inl FsErrNotExist)
                | Some v \<Rightarrow> (case st ! v of LinkN l _ \<Rightarrow> Some (Inr l) | _ \<Rightarrow> Some (Inl FsErrInvalid)))
             else case vfs_Sub st n dn of
                    None \<Rightarrow> None
                  | Some (Inl err) \<Rightarrow> Some (Inl err)
                  | Some (Inr v) \<Rightarrow> if is_DirFS (st ! v) then vfs_Readlink st v fn
                                     else Some (Inl FsErrInvalid))
      | LinkN _ t \<Rightarrow>
          (case t of
             None \<Rightarrow> Some (Inl FsErrInvalid)
           | Some t \<Rightarrow> if is_DirFS (st ! t) then vfs_Readlink st t name else Some (Inl FsErrInvalid)))"

section \<open>Opening, making and linking\<close>

text \<open>\<^verbatim>\<open>fileFS.OpenFile\<close>. Both \<^verbatim>\<open>O_APPEND\<close> and \<^verbatim>\<open>O_TRUNC\<close> together match neither case of the switch.\<close>

definition fileFS_OpenFile :: "nat \<Rightarrow> string \<Rightarrow> int \<Rightarrow> vfs \<Rightarrow> vhandle res \<times> vfs" where
  "fileFS_OpenFile n name flag st =
     (case st ! n of
        FileN nm mode t data \<Rightarrow>
          (if name \<noteq> [] then (Inl FsErrInvalid, st)
           else if flag AND O_EXCL \<noteq> 0 then (Inl FsErrExist, st)
           else
             (let how = flag AND (O_APPEND OR O_TRUNC);
                  off = (if how = O_APPEND then length data else 0);
                  st' = (if how = O_TRUNC then st[n := FileN nm mode t []] else st)
              in (Inr (HFile \<lparr>vf_fs = n, vf_flag = flag, vf_off = off\<rparr>), st')))
      | _ \<Rightarrow> (Inl FsErrInvalid, st))"

partial_function (option) vfs_OpenFile ::
  "nat \<Rightarrow> nat \<Rightarrow> string \<Rightarrow> int \<Rightarrow> u32 \<Rightarrow> vfs \<Rightarrow> (vhandle res \<times> vfs) option" where
  "vfs_OpenFile now n name flag perm st =
     (case st ! n of
        FileN _ _ _ _ \<Rightarrow> Some (fileFS_OpenFile n name flag st)
      | DirN _ _ _ subs \<Rightarrow>
          (case fp_Split name of (dn, fn) \<Rightarrow>
             if fn = [] then
               Some (if flag \<noteq> O_RDONLY then (Inl FsErrInvalid, st)
                     else (Inr (HDir \<lparr>vd_fs = n, vd_read = []\<rparr>), st))
             else if dn = [] then
               (case gm_get subs fn of
                  None \<Rightarrow>
                    if flag AND O_CREATE = 0 then Some (Inl FsErrNotExist, st)
                    else Some (fileFS_OpenFile (length st) [] flag (st @ [FileN fn perm now []]))
                | Some sub \<Rightarrow> vfs_OpenFile now sub [] flag perm st)
             else case vfs_Sub st n dn of
                    None \<Rightarrow> None
                  | Some (Inl err) \<Rightarrow> Some (Inl err, st)
                  | Some (Inr sub) \<Rightarrow> vfs_OpenFile now sub fn flag perm st)
      | LinkN _ t \<Rightarrow>
          (case t of None \<Rightarrow> Some (Inl FsErrNotExist, st)
           | Some t \<Rightarrow> vfs_OpenFile now t name flag perm st))"

text \<open>\<^verbatim>\<open>filesystem.Open\<close>: the type assertion to \<^verbatim>\<open>fs.File\<close> panics on an open directory, which has no \<^verbatim>\<open>Read\<close>.\<close>

definition vfs_Open :: "nat \<Rightarrow> nat \<Rightarrow> string \<Rightarrow> vfs \<Rightarrow> (vhandle res, vfs) outcome option" where
  "vfs_Open now n name st =
     (case vfs_OpenFile now n name O_RDONLY 0 st of
        None \<Rightarrow> None
      | Some (Inl err, st') \<Rightarrow> Some (Ret (Inl err) st')
      | Some (Inr (HFile f), st') \<Rightarrow> Some (Ret (Inr (HFile f)) st')
      | Some (Inr (HDir d), st') \<Rightarrow> Some (Panic (PanicMsg ''interface conversion'') st'))"

text \<open>\<^verbatim>\<open>d.subs.Store\<close>\<close>

fun store_sub :: "string \<Rightarrow> nat \<Rightarrow> vnode \<Rightarrow> vnode" where
  "store_sub k v (DirN nm mode t subs) = DirN nm mode t (gm_set k v subs)"
| "store_sub k v x = x"

partial_function (option) vfs_Mkdir ::
  "nat \<Rightarrow> nat \<Rightarrow> string \<Rightarrow> u32 \<Rightarrow> vfs \<Rightarrow> (nat res \<times> vfs) option" where
  "vfs_Mkdir now n name perm st =
     (case st ! n of
        FileN _ _ _ _ \<Rightarrow> Some (Inl FsErrInvalid, st)
      | DirN _ _ _ subs \<Rightarrow>
          (case split_path name of (first, other) \<Rightarrow>
             if first = [] then Some (Inl FsErrInvalid, st)
             else case gm_get subs first of
                    Some v \<Rightarrow>
                      if \<not> is_DirFS (st ! v) then Some (Inl FsErrInvalid, st)
                      else if other = [] then Some (Inr v, st)
                      else vfs_Mkdir now v other perm st
                  | None \<Rightarrow>
                      (let v = length st;
                           st' = st[n := store_sub first v (st ! n)] @ [DirN first (perm OR ModeDir) now []]
                       in if other = [] then Some (Inr v, st')
                          else vfs_Mkdir now v other perm st'))
      | LinkN _ t \<Rightarrow>
          (case t of
             None \<Rightarrow> Some (Inl FsErrInvalid, st)
           | Some t \<Rightarrow> if is_DirFS (st ! t) then vfs_Mkdir now t name perm st
                       else Some (Inl FsErrInvalid, st)))"

partial_function (option) vfs_Link ::
  "nat \<Rightarrow> nat \<Rightarrow> string \<Rightarrow> nat \<Rightarrow> vfs \<Rightarrow> (goerr option \<times> vfs) option" where
  "vfs_Link now n name h st =
     (case st ! n of
        FileN _ _ _ _ \<Rightarrow> Some (Some FsErrInvalid, st)
      | DirN _ _ _ subs \<Rightarrow>
          (case fp_Split name of (dn, fn) \<Rightarrow>
             if dn \<noteq> [] then
               (case vfs_Mkdir now n dn ModePerm st of
                  None \<Rightarrow> None
                | Some (Inl err, st') \<Rightarrow> Some (Some err, st')
                | Some (Inr sub, st') \<Rightarrow> vfs_Link now sub fn h st')
             else case gm_get subs fn of
                    Some _ \<Rightarrow> Some (Some FsErrExist, st)
                  | None \<Rightarrow> Some (None, st[n := store_sub fn h (st ! n)]))
      | LinkN _ t \<Rightarrow>
          (case t of
             None \<Rightarrow> Some (Some FsErrInvalid, st)
           | Some t \<Rightarrow> if is_DirFS (st ! t) then vfs_Link now t name h st
                       else Some (Some FsErrInvalid, st)))"

section \<open>Open files and directories\<close>

fun fdata :: "vnode \<Rightarrow> byte list" where
  "fdata (FileN _ _ _ data) = data"
| "fdata _ = []"

fun set_fdata :: "byte list \<Rightarrow> vnode \<Rightarrow> vnode" where
  "set_fdata data (FileN nm mode t _) = FileN nm mode t data"
| "set_fdata data x = x"

definition file_Seek :: "int \<Rightarrow> int \<Rightarrow> vfs \<Rightarrow> vfile \<Rightarrow> int res \<times> vfile" where
  "file_Seek offset whence st f =
     (let n = int (length (fdata (st ! vf_fs f))) in
      case (if whence = 0 then Some offset
            else if whence = 1 then Some (int (vf_off f) + offset)
            else if whence = 2 then Some (n + offset) else None) of
        None \<Rightarrow> (Inl FsErrInvalid, f)
      | Some off \<Rightarrow>
          if off < 0 \<or> n \<le> off then (Inl FsErrInvalid, f)
          else (Inr off, f\<lparr>vf_off := nat off\<rparr>))"

text \<open>\<^verbatim>\<open>Read\<close> into a buffer of \<open>k\<close> bytes; the slice expression \<^verbatim>\<open>data[f.off:]\<close> panics beyond the end.\<close>

definition file_Read :: "nat \<Rightarrow> vfs \<Rightarrow> vfile \<Rightarrow> (byte list \<times> goerr option, vfile) outcome" where
  "file_Read k st f =
     (if vf_flag f AND O_WRONLY \<noteq> 0 then Ret ([], Some FsErrInvalid) f
      else if length (fdata (st ! vf_fs f)) < vf_off f then Panic SliceBounds f
      else
        (let data = drop (vf_off f) (fdata (st ! vf_fs f)) in
         if data = [] then Ret ([], Some ErrEOF) f
         else let b = take k data in Ret (b, None) (f\<lparr>vf_off := vf_off f + length b\<rparr>)))"

definition file_Write :: "byte list \<Rightarrow> vfs \<Rightarrow> vfile \<Rightarrow> (nat \<times> goerr option, vfs \<times> vfile) outcome" where
  "file_Write b st f =
     (if vf_flag f AND (O_WRONLY OR O_RDWR) = 0 then Ret (0, Some FsErrInvalid) (st, f)
      else
        (let old = fdata (st ! vf_fs f); off = vf_off f; n = length b in
         if length old < off then Panic SliceBounds (st, f)
         else
           (let new = (if n \<le> length (drop off old) then take off old @ b @ drop (off + n) old
                       else take off old @ b)
            in Ret (n, None) (st[vf_fs f := set_fdata new (st ! vf_fs f)], f\<lparr>vf_off := off + n\<rparr>))))"

text \<open>\<^verbatim>\<open>dir.ReadDir\<close>: the count \<open>n\<close> is only compared with 0; the entries read so far are remembered.\<close>

fun dir_loop :: "vfs \<Rightarrow> nat list \<Rightarrow> nat list \<Rightarrow> (fileInfo list res \<times> nat list) option" where
  "dir_loop st [] seen = Some (Inr [], seen)"
| "dir_loop st (v # vs) seen =
     (if v \<in> set seen then dir_loop st vs seen
      else case vfs_Stat st v [] of
        None \<Rightarrow> None
      | Some (Inl err) \<Rightarrow> Some (Inl err, seen)
      | Some (Inr info) \<Rightarrow> map_option (map_prod (map_sum id ((#) info)) id) (dir_loop st vs (v # seen)))"

definition dir_ReadDir :: "int \<Rightarrow> vfs \<Rightarrow> vdir \<Rightarrow> (fileInfo list res \<times> vdir) option" where
  "dir_ReadDir n st d =
     (if n = 0 then Some (Inr [], d)
      else case st ! vd_fs d of
        DirN _ _ _ subs \<Rightarrow>
          map_option (\<lambda>(r, seen). (r, d\<lparr>vd_read := seen\<rparr>)) (dir_loop st (map snd subs) (vd_read d))
      | _ \<Rightarrow> Some (Inr [], d))"

definition dir_Mkdir :: "nat \<Rightarrow> string \<Rightarrow> u32 \<Rightarrow> vfs \<Rightarrow> vdir \<Rightarrow> goerr option \<times> vfs" where
  "dir_Mkdir now name perm st d =
     (case fp_Split name of (dn, fn) \<Rightarrow>
        if dn \<noteq> [] then (Some FsErrInvalid, st)
        else (None, st[vd_fs d := store_sub fn (length st) (st ! vd_fs d)] @
                      [DirN fn (perm OR ModeDir) now []]))"

text \<open>What an open file or directory says of itself, and the calls it passes to the object it was opened from.\<close>

definition file_Stat :: "vfs \<Rightarrow> vfile \<Rightarrow> fileInfo res" where
  "file_Stat st f =
     (case st ! vf_fs f of
        FileN nm mode t data \<Rightarrow> Inr \<lparr>fi_name = nm, fi_size = length data, fi_mode = mode, fi_mtime = t\<rparr>
      | _ \<Rightarrow> Inl FsErrInvalid)"

definition dir_Stat :: "vfs \<Rightarrow> vdir \<Rightarrow> fileInfo res" where
  "dir_Stat st d =
     (case st ! vd_fs d of
        DirN nm mode t subs \<Rightarrow> Inr \<lparr>fi_name = nm, fi_size = 0, fi_mode = mode, fi_mtime = t\<rparr>
      | _ \<Rightarrow> Inl FsErrInvalid)"

definition dir_OpenFile ::
  "nat \<Rightarrow> string \<Rightarrow> int \<Rightarrow> u32 \<Rightarrow> vfs \<Rightarrow> vdir \<Rightarrow> (vhandle res \<times> vfs) option" where
  "dir_OpenFile now name flag perm st d = vfs_OpenFile now (vd_fs d) name flag perm st"

definition dir_Readlink :: "vfs \<Rightarrow> vdir \<Rightarrow> string \<Rightarrow> string res option" where
  "dir_Readlink st d name = vfs_Readlink st (vd_fs d) name"

section \<open>Links by themselves\<close>

text \<open>
  The methods of \<^verbatim>\<open>linkFS\<close> for a link to \<open>t\<close>, the object it points to or nothing; the operations above
  run into them when a path meets a link.
\<close>

definition link_Sub :: "nat option \<Rightarrow> vfs \<Rightarrow> string \<Rightarrow> nat res option" where
  "link_Sub t st p = (case t of Some t \<Rightarrow> vfs_Sub st t p | None \<Rightarrow> Some (Inl FsErrInvalid))"

definition link_Stat :: "nat option \<Rightarrow> vfs \<Rightarrow> string \<Rightarrow> fileInfo res option" where
  "link_Stat t st name = (case t of Some t \<Rightarrow> vfs_Stat st t name | None \<Rightarrow> Some (Inl FsErrInvalid))"

definition link_Open :: "nat \<Rightarrow> nat option \<Rightarrow> string \<Rightarrow> vfs \<Rightarrow> (vhandle res, vfs) outcome option" where
  "link_Open now t name st =
     (case t of None \<Rightarrow> Some (Ret (Inl FsErrNotExist) st) | Some t \<Rightarrow> vfs_Open now t name st)"

definition link_OpenFile ::
  "nat \<Rightarrow> nat option \<Rightarrow> string \<Rightarrow> int \<Rightarrow> u32 \<Rightarrow> vfs \<Rightarrow> (vhandle res \<times> vfs) option" where
  "link_OpenFile now t name flag perm st =
     (case t of None \<Rightarrow> Some (Inl FsErrNotExist, st) | Some t \<Rightarrow> vfs_OpenFile now t name flag perm st)"

text \<open>The target as a \<^verbatim>\<open>DirFS\<close> or \<^verbatim>\<open>VirtualFS\<close>.\<close>

definition link_dir :: "nat option \<Rightarrow> vfs \<Rightarrow> nat option" where
  "link_dir t st = (case t of None \<Rightarrow> None | Some t \<Rightarrow> if is_DirFS (st ! t) then Some t else None)"

definition link_ReadDir :: "nat option \<Rightarrow> vfs \<Rightarrow> string \<Rightarrow> (fileInfo list res, unit) outcome option" where
  "link_ReadDir t st name =
     (case link_dir t st of Some t \<Rightarrow> vfs_ReadDir st t name | None \<Rightarrow> Some (Ret (Inl FsErrInvalid) ()))"

definition link_Mkdir :: "nat \<Rightarrow> nat option \<Rightarrow> string \<Rightarrow> u32 \<Rightarrow> vfs \<Rightarrow> (nat res \<times> vfs) option" where
  "link_Mkdir now t name perm st =
     (case link_dir t st of Some t \<Rightarrow> vfs_Mkdir now t name perm st | None \<Rightarrow> Some (Inl FsErrInvalid, st))"

definition link_Readlink :: "nat option \<Rightarrow> vfs \<Rightarrow> string \<Rightarrow> string res option" where
  "link_Readlink t st name =
     (case link_dir t st of Some t \<Rightarrow> vfs_Readlink st t name | None \<Rightarrow> Some (Inl FsErrInvalid))"

definition link_Link :: "nat \<Rightarrow> nat option \<Rightarrow> string \<Rightarrow> nat \<Rightarrow> vfs \<Rightarrow> (goerr option \<times> vfs) option" where
  "link_Link now t name h st =
     (case link_dir t st of Some t \<Rightarrow> vfs_Link now t name h st | None \<Rightarrow> Some (Some FsErrInvalid, st))"

text \<open>An operation on a link is the method of its link.\<close>

lemma on_link:
  assumes "st ! n = LinkN l t"
  shows "vfs_Sub st n p = link_Sub t st p" and "vfs_Stat st n p = link_Stat t st p"
    and "vfs_OpenFile now n p flag perm st = link_OpenFile now t p flag perm st"
    and "vfs_Open now n p st = link_Open now t p st"
    and "vfs_ReadDir st n p = link_ReadDir t st p" and "vfs_Mkdir now n p perm st = link_Mkdir now t p perm st"
    and "vfs_Readlink st n p = link_Readlink t st p" and "vfs_Link now n p h st = link_Link now t p h st"
proof -
  note ops = vfs_Sub.simps [of st n p] vfs_Stat.simps [of st n p] vfs_ReadDir.simps [of st n p]
    vfs_Mkdir.simps [of now n p perm st] vfs_Readlink.simps [of st n p] vfs_Link.simps [of now n p h st]
  show "vfs_Sub st n p = link_Sub t st p" "vfs_Stat st n p = link_Stat t st p"
    "vfs_ReadDir st n p = link_ReadDir t st p" "vfs_Mkdir now n p perm st = link_Mkdir now t p perm st"
    "vfs_Readlink st n p = link_Readlink t st p" "vfs_Link now n p h st = link_Link now t p h st"
    by (subst ops, simp add: assms link_Sub_def link_Stat_def link_ReadDir_def link_Mkdir_def link_Readlink_def
        link_Link_def link_dir_def split: option.split)+
  have o: "vfs_OpenFile now n p flag perm st = link_OpenFile now t p flag perm st" for flag perm
    by (subst vfs_OpenFile.simps) (simp add: assms link_OpenFile_def split: option.split)
  then show "vfs_OpenFile now n p flag perm st = link_OpenFile now t p flag perm st" .
  show "vfs_Open now n p st = link_Open now t p st"
    unfolding vfs_Open_def o by (cases t) (simp_all add: link_OpenFile_def link_Open_def vfs_Open_def)
qed

text \<open>A link inside a link to the same object is the link's object: links are followed to the end.\<close>

lemma link_to_link:
  assumes "st ! m = LinkN k t"
  shows "link_Sub (Some m) st p = link_Sub t st p" and "link_Stat (Some m) st p = link_Stat t st p"
    and "link_OpenFile now (Some m) p flag perm st = link_OpenFile now t p flag perm st"
  using on_link [OF assms] by (simp_all add: link_Sub_def [of "Some m"] link_Stat_def [of "Some m"]
      link_OpenFile_def [of now "Some m"])

text \<open>What \<^verbatim>\<open>Stat\<close> says of an open file or directory is what it says of its path.\<close>

lemma handle_Stat:
  "vfs_Stat st n [] = Some (Inr i) \<Longrightarrow> st ! n = FileN nm mode t data \<Longrightarrow> vf_fs f = n \<Longrightarrow> file_Stat st f = Inr i"
  "vfs_Stat st n [] = Some (Inr i) \<Longrightarrow> st ! n = DirN nm mode t subs \<Longrightarrow> vd_fs d = n \<Longrightarrow> dir_Stat st d = Inr i"
  by (subst (asm) vfs_Stat.simps, simp add: file_Stat_def dir_Stat_def fp_Split_def split: prod.splits if_splits)+

end
