(* ===== verification/VfsWalk.thy ===== *)
theory VfsWalk
  imports VirtualFS
begin

text \<open>
  Well-formed stores of the virtual file system, and what its path walks mean on them: a link leads
  to an object made before it, so following links ends, and looking up a path is a walk along its
  components.
\<close>

section \<open>Well-formed stores\<close>

fun node_ok :: "nat \<Rightarrow> nat \<Rightarrow> vnode \<Rightarrow> bool" where
  "node_ok len n (FileN _ _ _ _) = True"
| "node_ok len n (DirN _ _ _ subs) = (\<forall>v \<in> snd ` set subs. v < len)"
| "node_ok len n (LinkN _ None) = True"
| "node_ok len n (LinkN _ (Some t)) = (t < n)"

definition vfs_wf :: "vfs \<Rightarrow> bool" where
  "vfs_wf st \<longleftrightarrow> (\<forall>n < length st. node_ok (length st) n (st ! n))"

lemma gm_get_snd: "gm_get subs k = Some v \<Longrightarrow> v \<in> snd ` set subs"
  by (force simp: gm_get_def dest: map_of_SomeD)

lemma wf_sub: "vfs_wf st \<Longrightarrow> n < length st \<Longrightarrow> st ! n = DirN nm mode t subs \<Longrightarrow>
    gm_get subs k = Some v \<Longrightarrow> v < length st"
  unfolding vfs_wf_def by (metis gm_get_snd node_ok.simps(2))

lemma wf_link: "vfs_wf st \<Longrightarrow> n < length st \<Longrightarrow> st ! n = LinkN nm (Some t) \<Longrightarrow> t < n \<and> t < length st"
  unfolding vfs_wf_def by (metis less_trans node_ok.simps(4))

lemma wf_New: "vfs_wf NewVirtualFS"
  by (simp add: vfs_wf_def NewVirtualFS_def)

lemma node_ok_mono: "node_ok len n x \<Longrightarrow> len \<le> len' \<Longrightarrow> node_ok len' n x"
  by (induction len n x rule: node_ok.induct) auto

lemma wf_append: "vfs_wf st \<Longrightarrow> node_ok (Suc (length st)) (length st) x \<Longrightarrow> vfs_wf (st @ [x])"
  unfolding vfs_wf_def
  by (auto simp: nth_append less_Suc_eq intro: node_ok_mono)

lemma wf_SoftLink: "vfs_wf st \<Longrightarrow> (\<forall>i. t = Some i \<longrightarrow> i < length st) \<Longrightarrow> vfs_wf (snd (SoftLink name t st))"
  by (cases t) (auto simp: SoftLink_def intro: wf_append)

lemma wf_update: "vfs_wf st \<Longrightarrow> node_ok (length st) n x \<Longrightarrow> vfs_wf (st[n := x])"
  by (cases "n < length st") (auto simp: vfs_wf_def nth_list_update list_update_beyond)

lemma set_gm_set: "set (gm_set k v m) \<subseteq> insert (k, v) (set m)"
  by (induction m) (auto split: if_splits)

lemma node_ok_store: "node_ok len n x \<Longrightarrow> v < len \<Longrightarrow> node_ok len n (store_sub k v x)"
  using set_gm_set by (cases x) fastforce+

lemma wf_store: "vfs_wf st \<Longrightarrow> n < length st \<Longrightarrow> v < length st \<Longrightarrow> vfs_wf (st[n := store_sub k v (st ! n)])"
  by (rule wf_update) (auto simp: vfs_wf_def intro: node_ok_store)

lemma node_ok_data: "node_ok len n (set_fdata data x) = node_ok len n x"
  by (cases x) auto

section \<open>Following links and walking along components\<close>

text \<open>The object a chain of links ends at, if any.\<close>

function target :: "vfs \<Rightarrow> nat \<Rightarrow> nat option" where
  "target st n =
     (case st ! n of
        LinkN _ None \<Rightarrow> None
      | LinkN _ (Some t) \<Rightarrow> if t < n then target st t else None
      | _ \<Rightarrow> Some n)"
  by pat_completeness auto
termination by (relation "measure snd") auto

declare target.simps [simp del]

lemma target_simps:
  "st ! n = FileN nm mode t data \<Longrightarrow> target st n = Some n"
  "st ! n = DirN nm mode t subs \<Longrightarrow> target st n = Some n"
  "st ! n = LinkN nm None \<Longrightarrow> target st n = None"
  "st ! n = LinkN nm (Some i) \<Longrightarrow> i < n \<Longrightarrow> target st n = target st i"
  by (subst target.simps; simp)+

fun dir_subs :: "vnode \<Rightarrow> (string, nat) gomap option" where
  "dir_subs (DirN _ _ _ subs) = Some subs"
| "dir_subs _ = None"

definition subs_at :: "vfs \<Rightarrow> nat \<Rightarrow> (string, nat) gomap option" where
  "subs_at st n = (case target st n of None \<Rightarrow> None | Some d \<Rightarrow> dir_subs (st ! d))"

fun walk :: "vfs \<Rightarrow> nat \<Rightarrow> string list \<Rightarrow> nat res" where
  "walk st n [] = Inl FsErrInvalid"
| "walk st n (c # cs) =
     (case subs_at st n of
        None \<Rightarrow> Inl FsErrInvalid
      | Some subs \<Rightarrow>
          (case gm_get subs c of
             None \<Rightarrow> Inl FsErrNotExist
           | Some v \<Rightarrow> if cs = [] then Inr v else walk st v cs))"

text \<open>An object reached by a path, from \<open>n\<close>, with no component for \<open>n\<close> itself.\<close>

lemma link_induct [consumes 2, case_names obj nil link]:
  assumes "vfs_wf st" and "n < length st"
    and obj: "\<And>n. n < length st \<Longrightarrow> (\<And>nm t. st ! n \<noteq> LinkN nm t) \<Longrightarrow> P n"
    and nil: "\<And>n nm. n < length st \<Longrightarrow> st ! n = LinkN nm None \<Longrightarrow> P n"
    and link: "\<And>n nm t. n < length st \<Longrightarrow> st ! n = LinkN nm (Some t) \<Longrightarrow> t < n \<Longrightarrow> P t \<Longrightarrow> P n"
  shows "P n"
  using assms(2)
proof (induction n rule: less_induct)
  case (less n)
  show ?case
  proof (cases "st ! n")
    case (LinkN nm t)
    show ?thesis
    proof (cases t)
      case None
      with LinkN nil less show ?thesis by simp
    next
      case (Some i)
      with LinkN wf_link [OF assms(1) less.prems] have "i < n" "i < length st" by auto
      with less.IH link [OF less.prems _ \<open>i < n\<close>] LinkN Some show ?thesis by simp
    qed
  qed (use obj less in auto)
qed

lemma target_wf:
  assumes "vfs_wf st" and "n < length st" and "target st n = Some d"
  shows "d < length st" and "st ! d \<noteq> LinkN nm t" and "target st d = Some d"
proof -
  have "target st n = Some d \<Longrightarrow> d < length st \<and> (\<forall>nm t. st ! d \<noteq> LinkN nm t) \<and> target st d = Some d"
    using assms(1,2)
  proof (induction rule: link_induct)
    case (obj n)
    then show ?case by (cases "st ! n") (auto simp: target_simps)
  qed (auto simp: target_simps)
  with assms(3) show "d < length st" "st ! d \<noteq> LinkN nm t" "target st d = Some d" by auto
qed

lemma Sub_target:
  assumes "vfs_wf st" and "n < length st"
  shows "vfs_Sub st n p =
    (case subs_at st n of
       None \<Rightarrow> Some (Inl FsErrInvalid)
     | Some subs \<Rightarrow>
         (case split_path p of (first, other) \<Rightarrow>
            if first = [] then Some (Inl FsErrInvalid)
            else case gm_get subs first of
                   None \<Rightarrow> Some (Inl FsErrNotExist)
                 | Some v \<Rightarrow> if other = [] then Some (Inr v) else vfs_Sub st v other))"
  using assms
proof (induction rule: link_induct)
  case (obj n)
  then show ?case
    by (subst vfs_Sub.simps) (cases "st ! n"; auto simp: subs_at_def target_simps)
next
  case (nil n nm)
  then show ?case by (subst vfs_Sub.simps) (simp add: subs_at_def target_simps)
next
  case (link n nm t)
  then show ?case by (subst vfs_Sub.simps) (simp add: subs_at_def target_simps)
qed

lemma subs_at_wf:
  assumes "vfs_wf st" and "n < length st" and "subs_at st n = Some subs" and "gm_get subs k = Some v"
  shows "v < length st"
proof -
  obtain d where d: "target st n = Some d" "dir_subs (st ! d) = Some subs"
    using assms(3) by (auto simp: subs_at_def split: option.splits)
  then obtain nm mode t where "st ! d = DirN nm mode t subs" by (cases "st ! d") auto
  with wf_sub [OF assms(1) target_wf(1) [OF assms(1,2) d(1)]] assms(4) show ?thesis by blast
qed

lemma Sub_walk:
  assumes "vfs_wf st" and "n < length st"
  shows "vfs_Sub st n p = Some (walk st n (parts p))"
proof -
  have "parts p = cs \<Longrightarrow> vfs_Sub st n p = Some (walk st n cs)" for cs
    using assms(2)
  proof (induction cs arbitrary: n p)
    case Nil
    then show ?case
      by (auto simp: Sub_target [OF assms(1)] split_parts split: option.splits)
  next
    case (Cons c cs)
    note pc = parts_comp [OF Cons.prems(1)] parts_join_empty [OF Cons.prems(1)] parts_tl [OF Cons.prems(1)]
    have "v < length st" if "subs_at st n = Some subs" "gm_get subs c = Some v" for subs v
      using subs_at_wf [OF assms(1) Cons.prems(2) that] .
    with Cons pc show ?case
      by (auto simp: Sub_target [OF assms(1) Cons.prems(2)] split_parts split: option.splits)
  qed
  then show ?thesis by simp
qed

lemma walk_wf:
  assumes "vfs_wf st"
  shows "n < length st \<Longrightarrow> walk st n cs = Inr v \<Longrightarrow> v < length st"
  by (induction cs arbitrary: n)
     (auto split: option.splits if_splits dest: subs_at_wf [OF assms])

section \<open>Every lookup returns\<close>

lemma Stat_some:
  assumes "vfs_wf st" and "n < length st"
  shows "\<exists>r. vfs_Stat st n name = Some r"
proof -
  text \<open>The empty path, then a name in a directory, then any path.\<close>
  have e: "\<exists>r. vfs_Stat st n [] = Some r" if "n < length st" for n
    using assms(1) that
    by (induction rule: link_induct)
       (subst vfs_Stat.simps; auto simp: fp_Split_def split: vnode.splits)+
  have f: "\<exists>r. vfs_Stat st n fn = Some r" if "n < length st" "fst (fp_Split fn) = []" for n fn
    using assms(1) that
  proof (induction rule: link_induct)
    case (obj n)
    then show ?case
      using e wf_sub [OF assms(1)]
      by (subst vfs_Stat.simps) (auto split: vnode.splits prod.splits option.splits)
  qed (subst vfs_Stat.simps; simp)+
  show ?thesis
    using assms
  proof (induction rule: link_induct)
    case (obj n)
    obtain dn fn where s: "fp_Split name = (dn, fn)" by (cases "fp_Split name")
    then have "fst (fp_Split fn) = []"
      by (auto simp: fp_Split_def Let_def takeWhile_idem)
    moreover have "v < length st" if "vfs_Sub st n dn = Some (Inr v)" for v
      using walk_wf [OF assms(1) obj(1)] Sub_walk [OF assms(1) obj(1), of dn] that by auto
    ultimately show ?case
      using e f obj wf_sub [OF assms(1)] s Sub_walk [OF assms(1) obj(1), of dn]
      by (subst vfs_Stat.simps) (auto split: vnode.splits prod.splits option.splits sum.splits)
  qed (subst vfs_Stat.simps; simp)+
qed

section \<open>Growing stores\<close>

text \<open>
  What every operation does to the objects already there: a file may get other contents, a directory
  more entries; nothing else changes.
\<close>

fun node_grows :: "vnode \<Rightarrow> vnode \<Rightarrow> bool" where
  "node_grows (FileN nm m t _) (FileN nm' m' t' _) = (nm = nm' \<and> m = m' \<and> t = t')"
| "node_grows (DirN nm m t subs) (DirN nm' m' t' subs') =
     (nm = nm' \<and> m = m' \<and> t = t' \<and> (\<forall>k v. gm_get subs k = Some v \<longrightarrow> gm_get subs' k = Some v))"
| "node_grows (LinkN nm t) (LinkN nm' t') = (nm = nm' \<and> t = t')"
| "node_grows _ _ = False"

definition grows :: "vfs \<Rightarrow> vfs \<Rightarrow> bool" where
  "grows st st' \<longleftrightarrow> length st \<le> length st' \<and> (\<forall>n < length st. node_grows (st ! n) (st' ! n))"

lemma node_grows_refl [simp]: "node_grows x x"
  by (cases x) auto

lemma node_grows_trans: "node_grows x y \<Longrightarrow> node_grows y z \<Longrightarrow> node_grows x z"
  by (cases x; cases y; cases z) auto

lemma grows_refl: "grows st st"
  by (simp add: grows_def)

lemma grows_trans: "grows st st1 \<Longrightarrow> grows st1 st2 \<Longrightarrow> grows st st2"
  unfolding grows_def by (meson le_trans less_le_trans node_grows_trans)

lemma grows_append: "grows st (st @ xs)"
  by (simp add: grows_def nth_append)

lemma grows_update: "node_grows (st ! n) x \<Longrightarrow> grows st (st[n := x])"
  by (cases "n < length st") (auto simp: grows_def nth_list_update list_update_beyond)

lemma node_grows_store:
  "(\<And>nm m t subs. x = DirN nm m t subs \<Longrightarrow> gm_get subs k = None) \<Longrightarrow> node_grows x (store_sub k v x)"
  by (cases x) (auto simp: gm.get_put)

lemma node_grows_data [simp]: "node_grows x (set_fdata d x)"
  by (cases x) auto

lemma grows_link: "grows st st' \<Longrightarrow> n < length st \<Longrightarrow> st ! n = LinkN nm t \<Longrightarrow> st' ! n = LinkN nm t"
  by (cases "st' ! n") (force simp: grows_def)+

lemma grows_DirFS: "grows st st' \<Longrightarrow> n < length st \<Longrightarrow> is_DirFS (st' ! n) = is_DirFS (st ! n)"
  by (cases "st ! n"; cases "st' ! n") (force simp: grows_def)+

lemma grows_target:
  assumes "vfs_wf st" and "n < length st" and g: "grows st st'"
  shows "target st' n = target st n"
  using assms(1,2)
proof (induction rule: link_induct)
  case (obj n)
  have ng: "node_grows (st ! n) (st' ! n)" using g obj(1) by (simp add: grows_def)
  then show ?case using obj(2) by (cases "st ! n"; cases "st' ! n") (auto simp: target_simps)
next
  case (nil n nm)
  with grows_link [OF g] show ?case by (simp add: target_simps)
next
  case (link n nm t)
  with grows_link [OF g] show ?case by (simp add: target_simps)
qed

lemma grows_subs:
  assumes "vfs_wf st" and "n < length st" and g: "grows st st'" and "subs_at st n = Some subs"
  shows "\<exists>subs'. subs_at st' n = Some subs' \<and> (\<forall>k v. gm_get subs k = Some v \<longrightarrow> gm_get subs' k = Some v)"
proof -
  obtain d where d: "target st n = Some d" "dir_subs (st ! d) = Some subs"
    using assms(4) by (auto simp: subs_at_def split: option.splits)
  have "node_grows (st ! d) (st' ! d)"
    using g target_wf(1) [OF assms(1,2) d(1)] by (simp add: grows_def)
  with d grows_target [OF assms(1-3)] show ?thesis
    by (cases "st ! d"; cases "st' ! d") (auto simp: subs_at_def)
qed

lemma grows_walk:
  assumes "vfs_wf st" and g: "grows st st'"
  shows "n < length st \<Longrightarrow> walk st n cs = Inr v \<Longrightarrow> walk st' n cs = Inr v"
proof (induction cs arbitrary: n)
  case (Cons c cs)
  obtain subs where s: "subs_at st n = Some subs" using Cons.prems(2) by (auto split: option.splits)
  obtain u where u: "gm_get subs c = Some u" using Cons.prems(2) s by (auto split: option.splits)
  obtain subs' where s': "subs_at st' n = Some subs'" "gm_get subs' c = Some u"
    using grows_subs [OF assms(1) Cons.prems(1) g s] u by blast
  with s u Cons subs_at_wf [OF assms(1) Cons.prems(1) s u] show ?case by (auto split: if_splits)
qed simp

section \<open>Making directories\<close>

lemma Mkdir_target:
  assumes "vfs_wf st" and "n < length st"
  shows "vfs_Mkdir now n name perm st =
    (case target st n of None \<Rightarrow> Some (Inl FsErrInvalid, st) | Some d \<Rightarrow> vfs_Mkdir now d name perm st)"
  using assms
proof (induction rule: link_induct)
  case (obj n)
  then show ?case by (cases "st ! n") (auto simp: target_simps)
next
  case (nil n nm)
  then show ?case by (subst vfs_Mkdir.simps) (simp add: target_simps)
next
  case (link n nm t)
  show ?case
  proof (cases "is_DirFS (st ! t)")
    case True
    then have "vfs_Mkdir now n name perm st = vfs_Mkdir now t name perm st"
      using link(2) by (subst vfs_Mkdir.simps) simp
    then show ?thesis by (simp only: link(4) target_simps(4) [OF link(2,3)])
  next
    case False
    then obtain nm' m' t' d' where f: "st ! t = FileN nm' m' t' d'" by (cases "st ! t") auto
    have "vfs_Mkdir now n name perm st = Some (Inl FsErrInvalid, st)"
      using link(2) False by (subst vfs_Mkdir.simps) simp
    moreover have "vfs_Mkdir now t name perm st = Some (Inl FsErrInvalid, st)"
      using f by (subst vfs_Mkdir.simps) simp
    ultimately show ?thesis by (simp add: target_simps(4) [OF link(2,3)] target_simps(1) [OF f])
  qed
qed

text \<open>The store after a missing directory was made in directory \<open>d\<close>.\<close>

definition add_node :: "nat \<Rightarrow> string \<Rightarrow> vnode \<Rightarrow> vfs \<Rightarrow> vfs" where
  "add_node d k x st = st[d := store_sub k (length st) (st ! d)] @ [x]"

lemma add_node_ok:
  assumes "vfs_wf st" and "n < length st" and "target st n = Some d" and "st ! d = DirN nm m t subs"
    and "gm_get subs k = None" and "node_ok (Suc (length st)) (length st) x"
  shows "vfs_wf (add_node d k x st)" and "grows st (add_node d k x st)"
    and "length (add_node d k x st) = Suc (length st)" and "add_node d k x st ! length st = x"
    and "subs_at (add_node d k x st) n = Some (gm_set k (length st) subs)"
proof -
  have d: "d < length st" by (rule target_wf(1) [OF assms(1-3)])
  have "vfs_wf (st @ [x])" by (rule wf_append [OF assms(1,6)])
  from wf_store [OF this, of d "length st" k] d
  show "vfs_wf (add_node d k x st)" by (simp add: add_node_def list_update_append nth_append)
  have "grows st (st[d := store_sub k (length st) (st ! d)])"
    by (rule grows_update, rule node_grows_store) (use assms(4,5) in simp)
  then show g: "grows st (add_node d k x st)"
    unfolding add_node_def by (rule grows_trans [OF _ grows_append])
  show "length (add_node d k x st) = Suc (length st)" "add_node d k x st ! length st = x"
    by (simp_all add: add_node_def nth_append)
  show "subs_at (add_node d k x st) n = Some (gm_set k (length st) subs)"
    using grows_target [OF assms(1,2) g] assms(3,4) d
    by (simp add: subs_at_def add_node_def nth_append)
qed

definition mkdir_post :: "nat \<Rightarrow> string list \<Rightarrow> vfs \<Rightarrow> nat res \<times> vfs \<Rightarrow> bool" where
  "mkdir_post n cs st r = (case r of (r, st') \<Rightarrow> vfs_wf st' \<and> grows st st' \<and>
     (\<forall>v. r = Inr v \<longrightarrow> walk st' n cs = Inr v \<and> v < length st' \<and> is_DirFS (st' ! v)))"

lemma Mkdir_dir:
  assumes "st ! d = DirN nm m t subs" and "parts name = c # cs"
  shows "vfs_Mkdir now d name perm st =
    (case gm_get subs c of
       Some v \<Rightarrow>
         if \<not> is_DirFS (st ! v) then Some (Inl FsErrInvalid, st)
         else if cs = [] then Some (Inr v, st)
         else vfs_Mkdir now v (join cs) perm st
     | None \<Rightarrow>
         (let st' = add_node d c (DirN c (perm OR ModeDir) now []) st
          in if cs = [] then Some (Inr (length st), st')
             else vfs_Mkdir now (length st) (join cs) perm st'))"
  using parts_comp [OF assms(2)] parts_join_empty [OF assms(2)]
  by (subst vfs_Mkdir.simps) (simp add: assms split_parts add_node_def Let_def split: option.split)

lemma Mkdir_ok:
  assumes "vfs_wf st" and "n < length st"
  shows "\<exists>r. vfs_Mkdir now n name perm st = Some r \<and> mkdir_post n (parts name) st r"
proof -
  have "parts name = cs \<Longrightarrow> \<exists>r. vfs_Mkdir now n name perm st = Some r \<and> mkdir_post n cs st r" for cs
    using assms
  proof (induction cs arbitrary: n name st)
    case Nil
    then have "vfs_Mkdir now d name perm st = Some (Inl FsErrInvalid, st)" if "target st n = Some d" for d
      using target_wf(2) [OF Nil(2,3) that]
      by (subst vfs_Mkdir.simps) (cases "st ! d"; auto simp: split_parts)
    with Nil show ?case
      by (auto simp: Mkdir_target [OF Nil(2,3)] mkdir_post_def grows_refl split: option.splits)
  next
    case (Cons c cs)
    show ?case
    proof (cases "subs_at st n")
      case None
      then have "vfs_Mkdir now d name perm st = Some (Inl FsErrInvalid, st)" if "target st n = Some d" for d
        using target_wf(2) [OF Cons.prems(2,3) that] that
        by (subst vfs_Mkdir.simps) (cases "st ! d"; auto simp: subs_at_def)
      with Cons.prems show ?thesis
        by (auto simp: Mkdir_target [OF Cons.prems(2,3)] mkdir_post_def grows_refl split: option.splits)
    next
      case (Some subs)
      then obtain d nm m t where d: "target st n = Some d" "st ! d = DirN nm m t subs"
        by (auto simp: subs_at_def split: option.splits elim: dir_subs.elims)
      note mk = Mkdir_target [OF Cons.prems(2,3), of now name perm, unfolded d(1) option.case
          Mkdir_dir [OF d(2) Cons.prems(1)]]
      have pt: "cs \<noteq> [] \<Longrightarrow> parts (join cs) = cs" by (rule parts_tl [OF Cons.prems(1)])
      show ?thesis
      proof (cases "gm_get subs c")
        case None
        note a = add_node_ok [OF Cons.prems(2,3) d None, of "DirN c (perm OR ModeDir) now []", simplified]
        show ?thesis
        proof (cases "cs = []")
          case True
          with a mk None show ?thesis by (auto simp: mkdir_post_def Let_def gm.get_put)
        next
          case False
          from Cons.IH [OF pt [OF False] a(1), of "length st"] a obtain r where
            r: "vfs_Mkdir now (length st) (join cs) perm (add_node d c (DirN c (perm OR ModeDir) now []) st) = Some r"
              "mkdir_post (length st) cs (add_node d c (DirN c (perm OR ModeDir) now []) st) r" by auto
          obtain r1 st1 where p: "r = (r1, st1)" by (cases r)
          obtain subs' where "subs_at st1 n = Some subs'" "gm_get subs' c = Some (length st)"
            using grows_subs [OF a(1) _ _ a(5), of st1] r(2) a(3) Cons.prems(3)
            by (auto simp: mkdir_post_def p gm.get_put)
          with r mk None False a(2) p show ?thesis
            by (auto simp: mkdir_post_def Let_def intro: grows_trans)
        qed
      next
        case (Some v)
        have v: "v < length st" by (rule subs_at_wf [OF Cons.prems(2,3) \<open>subs_at st n = _\<close> Some])
        show ?thesis
        proof (cases "\<not> is_DirFS (st ! v) \<or> cs = []")
          case True
          with mk Some v \<open>subs_at st n = _\<close> Cons.prems show ?thesis
            by (auto simp: mkdir_post_def grows_refl)
        next
          case False
          then have nn: "cs \<noteq> []" by simp
          from Cons.IH [OF pt [OF nn] Cons.prems(2) v] obtain r1 st1 where
            r: "vfs_Mkdir now v (join cs) perm st = Some (r1, st1)" "mkdir_post v cs st (r1, st1)" by auto
          obtain subs' where "subs_at st1 n = Some subs'" "gm_get subs' c = Some v"
            using grows_subs [OF Cons.prems(2,3) _ \<open>subs_at st n = _\<close>, of st1] r(2) Some
            by (auto simp: mkdir_post_def)
          with r mk Some False show ?thesis by (auto simp: mkdir_post_def)
        qed
      qed
    qed
  qed
  then show ?thesis by simp
qed

end
