(* ===== verification/VfsProps.thy ===== *)
theory VfsProps
  imports VfsWalk
begin

text \<open>
  The properties of the virtual file system: lookups, directories, links and open files, and the
  places where it departs from what a file system promises.
\<close>

section \<open>Lookups\<close>

text \<open>C23: On a well-formed store \<^verbatim>\<open>Sub\<close> always returns, through any chain of links, and finds what a
  walk along the components of the cleaned path finds: the object of the last component, or
  \<^verbatim>\<open>ErrNotExist\<close> at the first component that is missing, or \<^verbatim>\<open>ErrInvalid\<close> where the walk meets
  a file or a dangling link.\<close>

theorem Sub_is_walk:
  assumes "vfs_wf st" and "n < length st"
  shows "vfs_Sub st n p = Some (walk st n (parts p))"
  using Sub_walk [OF assms] .

text \<open>A file system with a directory, a link to it and a file.\<close>

definition vfs1 :: vfs where
  "vfs1 = [DirN [] ModeDir 0 [(''a'', 1), (''l'', 2)],
           DirN ''a'' ModeDir 0 [(''f'', 3)],
           LinkN ''l'' (Some 1),
           FileN ''f'' 0 0 [1, 2, 3, 4]]"

lemma vfs1_wf: "vfs_wf vfs1"
  by (simp add: vfs_wf_def vfs1_def less_Suc_eq numeral_eq_Suc All_less_Suc)

lemma vfs1_nodes [simp]:
  "vfs1 ! 0 = DirN [] ModeDir 0 [(''a'', 1), (''l'', 2)]" "vfs1 ! Suc 0 = DirN ''a'' ModeDir 0 [(''f'', 3)]"
  "vfs1 ! 2 = LinkN ''l'' (Some 1)" "vfs1 ! 3 = FileN ''f'' 0 0 [1, 2, 3, 4]" "length vfs1 = 4"
  by (simp_all add: vfs1_def)

lemmas walk_simps = subs_at_def target_simps

lemma vfs1_targets [simp]:
  "target vfs1 0 = Some 0" "target vfs1 (Suc 0) = Some (Suc 0)" "target vfs1 2 = Some (Suc 0)" "target vfs1 3 = Some 3"
  by (subst target.simps; simp add: target_simps)+

lemma Sub_is_walk_witness: "vfs_Sub vfs1 0 ''/x/../l/./f'' = Some (Inr 3)"
  using Sub_is_walk [OF vfs1_wf, of 0 "''/x/../l/./f''"]
  by (simp add: parts_def rooted_def subs_at_def)

section \<open>Making directories and links\<close>

text \<open>C24: On a well-formed store \<^verbatim>\<open>Mkdir\<close> returns, keeps the store well-formed and disturbs no path that
  could be resolved before; when it succeeds, the path it was given resolves, to the object it
  returned, which is a directory or a link.\<close>

theorem Mkdir_then_Sub:
  assumes "vfs_wf st" and "n < length st"
  shows "\<exists>r st'. vfs_Mkdir now n name perm st = Some (r, st') \<and> vfs_wf st' \<and>
    (\<forall>m p u. m < length st \<longrightarrow> vfs_Sub st m p = Some (Inr u) \<longrightarrow> vfs_Sub st' m p = Some (Inr u)) \<and>
    (\<forall>v. r = Inr v \<longrightarrow> vfs_Sub st' n name = Some (Inr v) \<and> is_DirFS (st' ! v))"
proof -
  obtain r st' where r: "vfs_Mkdir now n name perm st = Some (r, st')" "mkdir_post n (parts name) st (r, st')"
    using Mkdir_ok [OF assms, of now name perm] by auto
  then have w: "vfs_wf st'" and g: "grows st st'" by (simp_all add: mkdir_post_def)
  then have len: "m < length st'" if "m < length st" for m using that by (simp add: grows_def)
  have "vfs_Sub st' m p = Some (Inr u)" if "m < length st" "vfs_Sub st m p = Some (Inr u)" for m p u
    using that grows_walk [OF assms(1) g] Sub_walk [OF w len] Sub_walk [OF assms(1)] by simp
  with r w Sub_walk [OF w len [OF assms(2)]] show ?thesis
    by (intro exI [of _ r] exI [of _ st']) (auto simp: mkdir_post_def)
qed

lemma Mkdir_then_Sub_witness:
  "\<exists>r st'. vfs_Mkdir 7 0 ''l/x/y'' 0 vfs1 = Some (r, st') \<and> vfs_Sub st' 0 ''a/f'' = Some (Inr 3)"
proof -
  have "vfs_Sub vfs1 0 ''a/f'' = Some (Inr 3)"
    by (simp add: Sub_walk [OF vfs1_wf] parts_def rooted_def subs_at_def)
  moreover from Mkdir_then_Sub [OF vfs1_wf, of 0 7 "''l/x/y''" 0] obtain r st' where
    "vfs_Mkdir 7 0 ''l/x/y'' 0 vfs1 = Some (r, st')"
    "\<forall>m p u. m < 4 \<longrightarrow> vfs_Sub vfs1 m p = Some (Inr u) \<longrightarrow> vfs_Sub st' m p = Some (Inr u)" by auto
  ultimately show ?thesis by (intro exI [of _ r] exI [of _ st']) simp
qed

lemma Link_target:
  assumes "vfs_wf st" and "n < length st"
  shows "vfs_Link now n name h st =
    (case target st n of None \<Rightarrow> Some (Some FsErrInvalid, st) | Some d \<Rightarrow> vfs_Link now d name h st)"
  using assms
proof (induction rule: link_induct)
  case (obj n)
  then show ?case by (cases "st ! n") (auto simp: target_simps)
next
  case (nil n nm)
  then show ?case by (subst vfs_Link.simps) (simp add: target_simps)
next
  case (link n nm t)
  show ?case
  proof (cases "is_DirFS (st ! t)")
    case True
    then have "vfs_Link now n name h st = vfs_Link now t name h st"
      using link(2) by (subst vfs_Link.simps) simp
    then show ?thesis by (simp only: link(4) target_simps(4) [OF link(2,3)])
  next
    case False
    then obtain nm' m' t' d' where f: "st ! t = FileN nm' m' t' d'" by (cases "st ! t") auto
    have "vfs_Link now n name h st = Some (Some FsErrInvalid, st)"
      using link(2) False by (subst vfs_Link.simps) simp
    moreover have "vfs_Link now t name h st = Some (Some FsErrInvalid, st)"
      using f by (subst vfs_Link.simps) simp
    ultimately show ?thesis by (simp add: target_simps(4) [OF link(2,3)] target_simps(1) [OF f])
  qed
qed

text \<open>Linking a plain name into a directory.\<close>

lemma Link_name:
  assumes "vfs_wf st" and "n < length st" and "h < length st" and "fp_Split fn = ([], fn)"
  shows "\<exists>r st'. vfs_Link now n fn h st = Some (r, st') \<and> vfs_wf st' \<and> grows st st' \<and>
    (case r of None \<Rightarrow> \<exists>subs. subs_at st' n = Some subs \<and> gm_get subs fn = Some h | Some err \<Rightarrow> st' = st)"
proof (cases "subs_at st n")
  case None
  then have "vfs_Link now d fn h st = Some (Some FsErrInvalid, st)" if "target st n = Some d" for d
    using target_wf(2) [OF assms(1,2) that] that
    by (subst vfs_Link.simps) (cases "st ! d"; auto simp: subs_at_def)
  then show ?thesis
    using Link_target [OF assms(1,2), of now fn h] assms(1) by (auto simp: grows_refl split: option.splits)
next
  case (Some subs)
  then obtain d nm m t where d: "target st n = Some d" "st ! d = DirN nm m t subs"
    by (auto simp: subs_at_def split: option.splits elim: dir_subs.elims)
  note dl = target_wf(1) [OF assms(1,2) d(1)]
  have l: "vfs_Link now n fn h st = (case gm_get subs fn of
      Some _ \<Rightarrow> Some (Some FsErrExist, st) | None \<Rightarrow> Some (None, st[d := store_sub fn h (st ! d)]))"
    unfolding Link_target [OF assms(1,2), of now fn h] d(1) option.case
    by (subst vfs_Link.simps) (simp add: d assms(4))
  show ?thesis
  proof (cases "gm_get subs fn")
    case None
    have g: "grows st (st[d := store_sub fn h (st ! d)])"
      by (rule grows_update, rule node_grows_store) (use d None in simp)
    have "subs_at (st[d := store_sub fn h (st ! d)]) n = Some (gm_set fn h subs)"
      using grows_target [OF assms(1,2) g] d dl by (simp add: subs_at_def)
    with l None g wf_store [OF assms(1) dl assms(3)] show ?thesis by (auto simp: gm.get_put)
  qed (use l assms(1) in \<open>auto simp: grows_refl\<close>)
qed

lemma Split_app: "fp_Split p = (dn, fn) \<Longrightarrow> p = dn @ fn"
proof -
  assume s: "fp_Split p = (dn, fn)"
  let ?t = "takeWhile (\<lambda>c. c \<noteq> slash) (rev p)"
  have "rev ?t = drop (length p - length ?t) p"
    by (metis rev_rev_ident rev_take takeWhile_eq_take length_rev)
  with s show "p = dn @ fn" by (simp add: fp_Split_def Let_def) (metis append_take_drop_id)
qed

lemma Split_file: "fp_Split name = (dn, fn) \<Longrightarrow> fp_Split fn = ([], fn)"
  by (auto simp: fp_Split_def Let_def takeWhile_idem)

lemma Link_dirs:
  assumes "vfs_wf st" and "n < length st" and "fp_Split name = (dn, fn)" and "dn \<noteq> []"
  shows "vfs_Link now n name h st = (case vfs_Mkdir now n dn ModePerm st of
      None \<Rightarrow> None
    | Some (Inl err, st') \<Rightarrow> Some (Some err, st')
    | Some (Inr sub, st') \<Rightarrow> vfs_Link now sub fn h st') \<or>
    vfs_Link now n name h st = Some (Some FsErrInvalid, st)"
proof (cases "target st n")
  case None
  then show ?thesis using Link_target [OF assms(1,2), of now name h] by simp
next
  case (Some d)
  note t = Link_target [OF assms(1,2), of now name h, unfolded Some option.case]
  show ?thesis
  proof (cases "st ! d")
    case (DirN nm m t subs)
    have "vfs_Mkdir now n dn ModePerm st = vfs_Mkdir now d dn ModePerm st"
      using Mkdir_target [OF assms(1,2), of now dn ModePerm] Some by simp
    then show ?thesis
      unfolding t by (subst vfs_Link.simps) (simp add: DirN assms(3,4))
  next
    case (FileN nm m t data)
    show ?thesis unfolding t by (subst vfs_Link.simps) (simp add: FileN)
  next
    case (LinkN nm t)
    with target_wf(2) [OF assms(1,2) Some] show ?thesis by blast
  qed
qed

text \<open>C25: \<^verbatim>\<open>Link\<close> makes the directories on the way and enters the object under the last name. On a
  well-formed store it returns and disturbs no path that could be resolved before, an existing
  name included; when it succeeds the object is found under its name in its directory.\<close>

theorem Link_enters:
  assumes "vfs_wf st" and "n < length st" and "h < length st" and "fp_Split name = (dn, fn)"
  shows "\<exists>r st'. vfs_Link now n name h st = Some (r, st') \<and> vfs_wf st' \<and> grows st st' \<and>
    (r = None \<longrightarrow> (\<exists>d subs. (if dn = [] then d = n else vfs_Sub st' n dn = Some (Inr d)) \<and>
       subs_at st' d = Some subs \<and> gm_get subs fn = Some h))"
proof (cases "dn = []")
  case True
  with Split_app [OF assms(4)] have "name = fn" by simp
  with Link_name [OF assms(1-3) Split_file [OF assms(4)], of now] True show ?thesis
    by (force split: option.splits)
next
  case False
  from Link_dirs [OF assms(1,2,4) False, of now h] show ?thesis
  proof
    assume l: "vfs_Link now n name h st = (case vfs_Mkdir now n dn ModePerm st of
      None \<Rightarrow> None
    | Some (Inl err, st') \<Rightarrow> Some (Some err, st')
    | Some (Inr sub, st') \<Rightarrow> vfs_Link now sub fn h st')"
    obtain r1 st1 where m: "vfs_Mkdir now n dn ModePerm st = Some (r1, st1)" "mkdir_post n (parts dn) st (r1, st1)"
      using Mkdir_ok [OF assms(1,2), of now dn ModePerm] by auto
    then have w1: "vfs_wf st1" and g1: "grows st st1" by (simp_all add: mkdir_post_def)
    show ?thesis
    proof (cases r1)
      case (Inl err)
      with l m w1 g1 show ?thesis by auto
    next
      case (Inr d)
      with m have d: "walk st1 n (parts dn) = Inr d" "d < length st1" by (simp_all add: mkdir_post_def)
      have h1: "h < length st1" and n1: "n < length st1" using g1 assms(2,3) by (auto simp: grows_def)
      obtain r st' where k: "vfs_Link now d fn h st1 = Some (r, st')" "vfs_wf st'" "grows st1 st'"
        "r = None \<Longrightarrow> \<exists>subs. subs_at st' d = Some subs \<and> gm_get subs fn = Some h"
        using Link_name [OF w1 d(2) h1 Split_file [OF assms(4)], of now] by (force split: option.splits)
      have "n < length st'" using n1 k(3) by (simp add: grows_def)
      then have "vfs_Sub st' n dn = Some (Inr d)"
        using grows_walk [OF w1 k(3) n1 d(1)] Sub_walk [OF k(2)] by simp
      with l m Inr k False grows_trans [OF g1 k(3)] show ?thesis by auto
    qed
  qed (use assms(1) in \<open>auto simp: grows_refl\<close>)
qed

lemma Link_enters_witness:
  "\<exists>r st'. vfs_Link 7 0 ''l/g'' 3 vfs1 = Some (r, st') \<and> vfs_wf st' \<and> grows vfs1 st'"
proof -
  have "fp_Split ''l/g'' = (''l/'', ''g'')" by (simp add: fp_Split_def)
  with Link_enters [OF vfs1_wf, of 0 3 "''l/g''" "''l/''" "''g''" 7] show ?thesis by auto
qed

section \<open>Opening\<close>

lemma OpenFile_target:
  assumes "vfs_wf st" and "n < length st"
  shows "vfs_OpenFile now n name flag perm st =
    (case target st n of
       None \<Rightarrow> Some (Inl FsErrNotExist, st) | Some d \<Rightarrow> vfs_OpenFile now d name flag perm st)"
  using assms
proof (induction rule: link_induct)
  case (obj n)
  then show ?case by (cases "st ! n") (auto simp: target_simps)
next
  case (nil n nm)
  then show ?case by (subst vfs_OpenFile.simps) (simp add: target_simps)
next
  case (link n nm t)
  have "vfs_OpenFile now n name flag perm st = vfs_OpenFile now t name flag perm st"
    using link(2) by (subst vfs_OpenFile.simps) simp
  then show ?case by (simp only: link(4) target_simps(4) [OF link(2,3)])
qed

text \<open>The object a path names when opened: the entry of its last component in the directory that the part
  before it leads to, through links. A path that ends in a separator names the directory it starts from.\<close>

definition entry_at :: "vfs \<Rightarrow> nat \<Rightarrow> string \<Rightarrow> nat option" where
  "entry_at st n name =
     (case fp_Split name of (dn, fn) \<Rightarrow>
        if fn = [] then (if name = [] \<or> subs_at st n \<noteq> None then Some n else None)
        else case (if dn = [] then Inr n else walk st n (parts dn)) of
               Inl _ \<Rightarrow> None
             | Inr d \<Rightarrow> (case subs_at st d of None \<Rightarrow> None | Some subs \<Rightarrow> gm_get subs fn))"

definition opened_at :: "vfs \<Rightarrow> nat \<Rightarrow> string \<Rightarrow> nat option" where
  "opened_at st n name = Option.bind (entry_at st n name) (target st)"

text \<open>What a call may do when the object is \<open>obj\<close>: an error, the store unchanged; an open directory; an open
  file at its start or, to append, at its end, emptied when it is truncated; or a new file under the name
  \<open>fn\<close>, which enters the store when there is no object and \<^verbatim>\<open>O_CREATE\<close> asks for one.\<close>

definition open_result :: "nat \<Rightarrow> string \<Rightarrow> nat option \<Rightarrow> int \<Rightarrow> u32 \<Rightarrow> vfs \<Rightarrow> vhandle res \<Rightarrow> vfs \<Rightarrow> bool" where
  "open_result now fn obj flag perm st h st' =
     (let how = flag AND (O_APPEND OR O_TRUNC); created = st @ [FileN fn perm now []] in
      case obj of
        None \<Rightarrow>
          (case h of
             Inl err \<Rightarrow> st' = st \<or>
               (flag AND O_CREATE \<noteq> 0 \<and> flag AND O_EXCL \<noteq> 0 \<and> err = FsErrExist \<and> st' = created)
           | Inr x \<Rightarrow> x = HFile \<lparr>vf_fs = length st, vf_flag = flag, vf_off = 0\<rparr> \<and> st' = created \<and>
               flag AND O_CREATE \<noteq> 0 \<and> flag AND O_EXCL = 0)
      | Some k \<Rightarrow> k < length st \<and>
          (if is_DirFS (st ! k) then
             st' = st \<and> h = (if flag = O_RDONLY then Inr (HDir \<lparr>vd_fs = k, vd_read = []\<rparr>) else Inl FsErrInvalid)
           else if flag AND O_EXCL \<noteq> 0 then st' = st \<and> h = Inl FsErrExist
           else st' = (if how = O_TRUNC then st[k := set_fdata [] (st ! k)] else st) \<and>
             h = Inr (HFile \<lparr>vf_fs = k, vf_flag = flag,
                       vf_off = (if how = O_APPEND then length (fdata (st ! k)) else 0)\<rparr>)))"

definition open_post :: "nat \<Rightarrow> string \<Rightarrow> nat option \<Rightarrow> int \<Rightarrow> u32 \<Rightarrow> vfs \<Rightarrow> vhandle res \<times> vfs \<Rightarrow> bool" where
  "open_post now fn obj flag perm st r =
     (case r of (h, st') \<Rightarrow> vfs_wf st' \<and> open_result now fn obj flag perm st h st')"

lemma open_post_err [simp]: "vfs_wf st \<Longrightarrow> open_post now fn None flag perm st (Inl err, st)"
  by (simp add: open_post_def open_result_def)

lemma open_post_dir:
  "vfs_wf st \<Longrightarrow> d < length st \<Longrightarrow> st ! d = DirN nm m t subs \<Longrightarrow>
     open_post now fn (Some d) flag perm st
       (if flag \<noteq> O_RDONLY then (Inl FsErrInvalid, st) else (Inr (HDir \<lparr>vd_fs = d, vd_read = []\<rparr>), st))"
  by (simp add: open_post_def open_result_def)

lemma fileFS_OpenFile_ok:
  assumes "vfs_wf st" and "k < length st" and "st ! k = FileN nm m t data"
  shows "open_post now fn (Some k) flag perm st (fileFS_OpenFile k [] flag st)"
proof -
  have "node_ok (length st) k (FileN nm m t [])" by simp
  from wf_update [OF assms(1) this] have "vfs_wf (st[k := FileN nm m t []])" .
  then show ?thesis
    using assms by (auto simp: fileFS_OpenFile_def Let_def open_post_def open_result_def)
qed

lemma fileFS_OpenFile_new:
  assumes "vfs_wf st" and "flag AND O_CREATE \<noteq> 0"
  shows "open_post now fn None flag perm st
    (fileFS_OpenFile (length st) [] flag (st @ [FileN fn perm now []]))"
proof -
  have "vfs_wf (st @ [FileN fn perm now []])" by (rule wf_append [OF assms(1)]) simp
  then show ?thesis
    using assms(2) by (auto simp: fileFS_OpenFile_def Let_def open_post_def open_result_def)
qed

lemma target_cases:
  assumes "vfs_wf st" and "n < length st"
  obtains "target st n = None" "subs_at st n = None"
  | d nm m t data where "target st n = Some d" "d < length st" "st ! d = FileN nm m t data" "subs_at st n = None"
  | d nm m t subs where "target st n = Some d" "d < length st" "st ! d = DirN nm m t subs" "subs_at st n = Some subs"
proof (cases "target st n")
  case (Some d)
  with target_wf [OF assms Some] that show thesis by (cases "st ! d") (auto simp: subs_at_def)
qed (use that in \<open>simp add: subs_at_def\<close>)

lemma walk_target:
  assumes "vfs_wf st" and "n < length st" and "target st n = Some d"
  shows "walk st n cs = walk st d cs"
  using target_wf(3) [OF assms] assms(3) by (cases cs) (simp_all add: subs_at_def)

lemma OpenFile_file:
  "st ! n = FileN nm m t data \<Longrightarrow>
     vfs_OpenFile now n name flag perm st = Some (fileFS_OpenFile n name flag st)"
  by (subst vfs_OpenFile.simps) simp

lemma OpenFile_here:
  assumes "vfs_wf st" and "n < length st"
  shows "\<exists>r. vfs_OpenFile now n [] flag perm st = Some r \<and> open_post now fn (target st n) flag perm st r"
  using assms
proof (cases rule: target_cases)
  case 1
  with OpenFile_target [OF assms, of now "[]" flag perm] assms show ?thesis by simp
next
  case (2 d nm m t data)
  with OpenFile_target [OF assms, of now "[]" flag perm] fileFS_OpenFile_ok [OF assms(1) 2(2,3)]
  show ?thesis by (simp add: OpenFile_file)
next
  case (3 d nm m t subs)
  note o = OpenFile_target [OF assms, of now "[]" flag perm, unfolded 3(1) option.case]
  from 3 open_post_dir [OF assms(1) 3(2,3)] show ?thesis
    unfolding o by (subst vfs_OpenFile.simps) (simp add: fp_Split_def)
qed

lemma OpenFile_not_dir:
  assumes "vfs_wf st" and "n < length st" and "subs_at st n = None" and "name \<noteq> []"
  shows "\<exists>r. vfs_OpenFile now n name flag perm st = Some r \<and> open_post now fn None flag perm st r"
  using assms(1,2)
proof (cases rule: target_cases)
  case 1
  with OpenFile_target [OF assms(1,2), of now name flag perm] assms show ?thesis by simp
next
  case (2 d nm m t data)
  with OpenFile_target [OF assms(1,2), of now name flag perm] assms
  show ?thesis by (simp add: OpenFile_file fileFS_OpenFile_def)
qed (use assms(3) in simp)

lemma OpenFile_name:
  assumes "vfs_wf st" and "n < length st" and "fp_Split fn = ([], fn)" and "fn \<noteq> []"
  shows "\<exists>r. vfs_OpenFile now n fn flag perm st = Some r \<and>
    open_post now fn (case subs_at st n of None \<Rightarrow> None | Some subs \<Rightarrow> Option.bind (gm_get subs fn) (target st))
      flag perm st r"
  using assms(1,2)
proof (cases rule: target_cases)
  case (3 d nm m t subs)
  note o = OpenFile_target [OF assms(1,2), of now fn flag perm, unfolded 3(1) option.case]
  have "\<exists>r. vfs_OpenFile now v [] flag perm st = Some r \<and> open_post now fn (target st v) flag perm st r"
    if "gm_get subs fn = Some v" for v
    by (rule OpenFile_here [OF assms(1) wf_sub [OF assms(1) 3(2,3) that]])
  with fileFS_OpenFile_new [OF assms(1)] show ?thesis
    unfolding o using assms(1,3,4) 3
    by (subst vfs_OpenFile.simps) (simp split: option.split del: split_paired_Ex)
qed (use OpenFile_not_dir [OF assms(1,2)] assms(4) in simp_all)

lemma OpenFile_in_dirs:
  assumes "vfs_wf st" and "n < length st" and s: "fp_Split name = (dn, fn)" and "dn \<noteq> []"
    and "subs_at st n = Some subs"
  shows "\<exists>r. vfs_OpenFile now n name flag perm st = Some r \<and>
    open_post now fn (opened_at st n name) flag perm st r"
proof -
  obtain d nm m tm where d: "target st n = Some d" and D: "st ! d = DirN nm m tm subs"
    by (rule target_cases [OF assms(1,2)]) (use assms(5) in auto)
  note t = OpenFile_target [OF assms(1,2), of now name flag perm, unfolded d option.case]
  note dl = target_wf(1) [OF assms(1,2) d]
  show ?thesis
  proof (cases "fn = []")
    case True
    with assms open_post_dir [OF assms(1) dl D] show ?thesis
      unfolding t by (subst vfs_OpenFile.simps) (simp add: D d opened_at_def entry_at_def)
  next
    case False
    have o: "vfs_OpenFile now n name flag perm st =
        (case walk st n (parts dn) of Inl err \<Rightarrow> Some (Inl err, st)
         | Inr sub \<Rightarrow> vfs_OpenFile now sub fn flag perm st)"
      unfolding t walk_target [OF assms(1,2) d]
      by (subst vfs_OpenFile.simps) (simp add: D s assms(4) False Sub_walk [OF assms(1) dl] split: sum.split)
    show ?thesis
    proof (cases "walk st n (parts dn)")
      case (Inr sub)
      have "opened_at st n name =
          (case subs_at st sub of None \<Rightarrow> None | Some subs \<Rightarrow> Option.bind (gm_get subs fn) (target st))"
        by (simp add: opened_at_def entry_at_def s False assms(4) Inr split: option.split)
      with OpenFile_name [OF assms(1) walk_wf [OF assms(1,2) Inr] Split_file [OF s] False] o Inr
      show ?thesis by simp
    qed (use o assms False in \<open>simp add: opened_at_def entry_at_def\<close>)
  qed
qed

lemma OpenFile_spec:
  assumes "vfs_wf st" and "n < length st"
  shows "\<exists>h st'. vfs_OpenFile now n name flag perm st = Some (h, st') \<and> vfs_wf st' \<and>
    open_result now (snd (fp_Split name)) (opened_at st n name) flag perm st h st'"
proof -
  obtain dn fn where s: "fp_Split name = (dn, fn)" by (cases "fp_Split name")
  have "\<exists>r. vfs_OpenFile now n name flag perm st = Some r \<and>
      open_post now fn (opened_at st n name) flag perm st r"
  proof (cases "dn = []")
    case True
    with Split_app [OF s] have name: "name = fn" by simp
    show ?thesis
    proof (cases "fn = []")
      case True
      with OpenFile_here [OF assms] name s show ?thesis by (simp add: opened_at_def entry_at_def)
    next
      case False
      have "opened_at st n name =
          (case subs_at st n of None \<Rightarrow> None | Some subs \<Rightarrow> Option.bind (gm_get subs fn) (target st))"
        using s True False by (simp add: opened_at_def entry_at_def split: option.split)
      with OpenFile_name [OF assms Split_file [OF s] False] name show ?thesis by simp
    qed
  next
    case False
    then have "name \<noteq> []" using Split_app [OF s] by auto
    show ?thesis
    proof (cases "subs_at st n")
      case None
      then have "walk st n cs = Inl FsErrInvalid" for cs by (cases cs) simp_all
      with s False None \<open>name \<noteq> []\<close> have "opened_at st n name = None"
        by (simp add: opened_at_def entry_at_def)
      with OpenFile_not_dir [OF assms None \<open>name \<noteq> []\<close>] show ?thesis by simp
    qed (rule OpenFile_in_dirs [OF assms s False])
  qed
  then show ?thesis by (auto simp: open_post_def s)
qed



text \<open>C28: A file created through \<^verbatim>\<open>O_CREATE\<close> is never entered into its directory: the open file works,
  but the name still does not exist, so nobody can open it again; and with \<^verbatim>\<open>O_EXCL\<close>, which asks
  for a new file, creating one is refused as if it existed.\<close>

theorem O_CREATE_not_entered:
  assumes "n < length st" and "st ! n = DirN nm m t subs" and "fp_Split fn = ([], fn)" and "fn \<noteq> []"
    and "gm_get subs fn = None" and "flag AND O_CREATE \<noteq> 0"
  shows "\<exists>h st'. vfs_OpenFile now n fn flag perm st = Some (h, st') \<and>
    (if flag AND O_EXCL \<noteq> 0 then h = Inl FsErrExist
     else h = Inr (HFile \<lparr>vf_fs = length st, vf_flag = flag, vf_off = 0\<rparr>)) \<and>
    st' ! n = st ! n \<and> vfs_Stat st' n fn = Some (Inl FsErrNotExist)"
proof -
  have o: "vfs_OpenFile now n fn flag perm st =
      Some (fileFS_OpenFile (length st) [] flag (st @ [FileN fn perm now []]))"
    using assms by (subst vfs_OpenFile.simps) simp
  have n: "snd (fileFS_OpenFile (length st) [] flag (st @ [FileN fn perm now []])) ! n = st ! n"
    using assms(1) by (simp add: fileFS_OpenFile_def Let_def nth_append nth_list_update)
  have s: "vfs_Stat st' n fn = Some (Inl FsErrNotExist)" if "st' ! n = st ! n" for st'
    using assms that by (subst vfs_Stat.simps) simp
  show ?thesis
    using o n s [OF n]
    by (intro exI [of _ "fst (fileFS_OpenFile (length st) [] flag (st @ [FileN fn perm now []]))"]
        exI [of _ "snd (fileFS_OpenFile (length st) [] flag (st @ [FileN fn perm now []]))"])
       (auto simp: fileFS_OpenFile_def Let_def)
qed

lemma O_CREATE_not_entered_witness:
  "\<exists>h st'. vfs_OpenFile 7 0 ''new'' (O_RDWR OR O_CREATE) 0 vfs1 = Some (h, st') \<and>
     vfs_Stat st' 0 ''new'' = Some (Inl FsErrNotExist)"
proof -
  have "fp_Split ''new'' = ([], ''new'')" by (simp add: fp_Split_def)
  with O_CREATE_not_entered [OF _ vfs1_nodes(1), of "''new''" "O_RDWR OR O_CREATE" 7 0]
  show ?thesis by (auto simp: flag_defs)
qed

section \<open>Listing\<close>

text \<open>Listing a directory by path returns; the error of resolving the path is handed on, and when the
  path resolves to a file the type assertion panics instead of reporting an error.\<close>

lemma ReadDir_path:
  assumes "vfs_wf st" and "n < length st" and "st ! n = DirN nm m t subs" and "p \<noteq> []"
  shows "vfs_ReadDir st n p =
    (case walk st n (parts p) of
       Inl err \<Rightarrow> Some (Ret (Inl err) ())
     | Inr v \<Rightarrow> if is_DirFS (st ! v) then vfs_ReadDir st v []
                else Some (Panic (PanicMsg ''interface conversion'') ()))"
  using assms by (subst vfs_ReadDir.simps) (simp add: Sub_walk split: sum.splits)

lemma ReadDir_path_witness: "vfs_ReadDir vfs1 0 ''a/f'' = Some (Panic (PanicMsg ''interface conversion'') ())"
  using ReadDir_path [OF vfs1_wf _ vfs1_nodes(1), of "''a/f''"]
  by (simp add: parts_def rooted_def subs_at_def)

lemma dir_loop_seen:
  "dir_loop st vs seen = Some (Inr infos, seen') \<Longrightarrow>
     set seen' = set seen \<union> set vs \<and> length infos = card (set vs - set seen)"
proof (induction st vs seen arbitrary: infos seen' rule: dir_loop.induct)
  case (2 st v vs seen)
  show ?case
  proof (cases "v \<in> set seen")
    case True
    with 2 show ?thesis by (simp add: insert_absorb)
  next
    case False
    with 2 obtain info r where r: "vfs_Stat st v [] = Some (Inr info)"
      "dir_loop st vs (v # seen) = Some (r, seen')" "map_sum id ((#) info) r = Inr infos"
      by (auto split: option.splits sum.splits)
    then obtain rest where "r = Inr rest" "infos = info # rest" by (cases r) auto
    moreover have "insert v (set vs) - set seen = insert v (set vs - set (v # seen))" using False by auto
    ultimately show ?thesis using 2(2) [OF False r(1)] r(2) by auto
  qed
qed simp

lemma dir_loop_done: "set vs \<subseteq> set seen \<Longrightarrow> dir_loop st vs seen = Some (Inr [], seen)"
  by (induction vs) auto

text \<open>Reading an open directory gives every entry once, in one call whatever the count (only 0 is
  special), and the next call gives none.\<close>

lemma dir_ReadDir_once:
  assumes "st ! vd_fs d = DirN nm m t subs" and "dir_ReadDir k st d = Some (Inr infos, d')" and "k \<noteq> 0"
    and "vd_read d = []"
  shows "length infos = card (snd ` set subs) \<and> dir_ReadDir j st d' = Some (Inr [], d')"
proof -
  obtain seen where l: "dir_loop st (map snd subs) (vd_read d) = Some (Inr infos, seen)"
    and d': "d' = d\<lparr>vd_read := seen\<rparr>"
    using assms(1-3) by (auto simp: dir_ReadDir_def)
  with dir_loop_seen [OF l] dir_loop_done [of "map snd subs" seen st] assms(1,4)
  show ?thesis by (simp add: dir_ReadDir_def)
qed

lemma dir_ReadDir_once_witness:
  "\<exists>infos d'. dir_ReadDir 1 vfs1 \<lparr>vd_fs = 0, vd_read = []\<rparr> = Some (Inr infos, d') \<and> length infos = 2 \<and>
     dir_ReadDir 1 vfs1 d' = Some (Inr [], d')"
proof -
  obtain infos d' where r: "dir_ReadDir 1 vfs1 \<lparr>vd_fs = 0, vd_read = []\<rparr> = Some (Inr infos, d')"
    by (simp add: dir_ReadDir_def vfs_Stat.simps fp_Split_def)
  from dir_ReadDir_once [OF _ r, of _ _ _ _ 1] have
    "length infos = 2 \<and> dir_ReadDir 1 vfs1 d' = Some (Inr [], d')" by simp
  with r show ?thesis by blast
qed

section \<open>Open files\<close>

text \<open>C27: Writing through an open file at its offset replaces the bytes there and extends the file when
  the data reaches beyond its end; seeking back and reading as many bytes returns what was written.\<close>

theorem Write_Seek_Read:
  assumes "vf_fs f < length st" and "st ! vf_fs f = FileN nm m t data" and "vf_off f \<le> length data"
    and "vf_flag f AND (O_WRONLY OR O_RDWR) \<noteq> 0" and "vf_flag f AND O_WRONLY = 0" and "b \<noteq> []"
  shows "\<exists>st' f1 f2 f3. file_Write b st f = Ret (length b, None) (st', f1) \<and>
    st' = st[vf_fs f := FileN nm m t (take (vf_off f) data @ b @ drop (vf_off f + length b) data)] \<and>
    file_Seek (int (vf_off f)) 0 st' f1 = (Inr (int (vf_off f)), f2) \<and>
    file_Read (length b) st' f2 = Ret (b, None) f3 \<and> vf_off f3 = vf_off f + length b"
  using assms by (auto simp: file_Write_def file_Seek_def file_Read_def Let_def)

lemma Write_Seek_Read_witness:
  "\<exists>st' f1. file_Write [9, 9, 9] vfs1 \<lparr>vf_fs = 3, vf_flag = O_RDWR, vf_off = 2\<rparr> = Ret (3, None) (st', f1) \<and>
     fdata (st' ! 3) = [1, 2, 9, 9, 9]"
  using Write_Seek_Read [of "\<lparr>vf_fs = 3, vf_flag = O_RDWR, vf_off = 2\<rparr>" vfs1 "''f''" 0 0 "[1, 2, 3, 4]" "[9, 9, 9]"]
  by (auto simp: flag_defs)

text \<open>Reading a file in two pieces gives the same bytes and the same offset as reading it in one.\<close>

lemma Read_pieces:
  assumes "file_Read k st f = Ret (b1, None) f1" and "file_Read l st f1 = Ret (b2, None) f2"
  shows "file_Read (k + l) st f = Ret (b1 @ b2, None) f2"
  using assms
  by (auto simp: file_Read_def Let_def take_add drop_drop min_def add.commute split: if_splits)

lemma Read_pieces_witness:
  "file_Read 4 vfs1 \<lparr>vf_fs = 3, vf_flag = 0, vf_off = 0\<rparr> =
     Ret ([1, 2, 3, 4], None) \<lparr>vf_fs = 3, vf_flag = 0, vf_off = 4\<rparr>"
proof -
  have "file_Read 1 vfs1 \<lparr>vf_fs = 3, vf_flag = 0, vf_off = 0\<rparr> = Ret ([1], None) \<lparr>vf_fs = 3, vf_flag = 0, vf_off = 1\<rparr>"
    "file_Read 3 vfs1 \<lparr>vf_fs = 3, vf_flag = 0, vf_off = 1\<rparr> = Ret ([2, 3, 4], None) \<lparr>vf_fs = 3, vf_flag = 0, vf_off = 4\<rparr>"
    by (simp_all add: file_Read_def flag_defs)
  from Read_pieces [OF this] show ?thesis by simp
qed

text \<open>A position is accepted by \<^verbatim>\<open>Seek\<close> exactly when it lies inside the file; in particular the end of
  the file is refused, from wherever it is given, and an empty file cannot be positioned at all.\<close>

lemma Seek_inside:
  fixes st f
  defines "n \<equiv> int (length (fdata (st ! vf_fs f)))"
  shows "file_Seek p 0 st f =
      (if 0 \<le> p \<and> p < n then (Inr p, f\<lparr>vf_off := nat p\<rparr>) else (Inl FsErrInvalid, f)) \<and>
    file_Seek p 1 st f = file_Seek (int (vf_off f) + p) 0 st f \<and>
    file_Seek p 2 st f = file_Seek (n + p) 0 st f \<and> fst (file_Seek 0 2 st f) = Inl FsErrInvalid"
  by (auto simp: file_Seek_def n_def Let_def)

text \<open>C29: Truncating a file by opening it anew, by whatever path and handle, leaves every other handle
  whose offset is not 0 beyond the end of the file: reading through it panics on the slice bounds,
  and so does writing, unless the handle's flags refuse the call before. A handle at offset 0 reads
  the end of the file and may write.\<close>

theorem truncate_under_open_file:
  assumes "vfs_wf st" and "n < length st" and "opened_at st n name = Some (vf_fs f)"
    and "\<not> is_DirFS (st ! vf_fs f)"
    and "flag AND (O_APPEND OR O_TRUNC) = O_TRUNC" and "flag AND O_EXCL = 0"
  shows "\<exists>h st'. vfs_OpenFile now n name flag perm st = Some (Inr (HFile h), st') \<and>
    file_Read k st' f =
      (if vf_flag f AND O_WRONLY \<noteq> 0 then Ret ([], Some FsErrInvalid) f
       else if vf_off f = 0 then Ret ([], Some ErrEOF) f else Panic SliceBounds f) \<and>
    (vf_flag f AND (O_WRONLY OR O_RDWR) \<noteq> 0 \<longrightarrow>
       (if vf_off f = 0 then \<exists>c. file_Write b st' f = Ret (length b, None) c
        else file_Write b st' f = Panic SliceBounds (st', f)))"
proof -
  obtain h st' where o: "vfs_OpenFile now n name flag perm st = Some (h, st')"
    and r: "open_result now (snd (fp_Split name)) (Some (vf_fs f)) flag perm st h st'"
    using OpenFile_spec [OF assms(1,2)] assms(3) by metis
  have "O_TRUNC \<noteq> O_APPEND" by (simp add: flag_defs)
  with r assms(4-6) obtain h' where "h = Inr (HFile h')" "st' = st[vf_fs f := set_fdata [] (st ! vf_fs f)]"
    by (auto simp: open_result_def)
  moreover from r have "vf_fs f < length st" by (simp add: open_result_def Let_def)
  moreover have "fdata (set_fdata [] x) = []" for x by (cases x) simp_all
  ultimately show ?thesis
    using o by (auto simp: file_Read_def file_Write_def Let_def)
qed

text \<open>A handle that has read one byte of \<open>a/f\<close>, when the file is truncated through the link \<open>l\<close>\<close>

lemma truncate_under_open_file_witness:
  "\<exists>h st'. vfs_OpenFile 7 0 ''l/f'' (O_RDWR OR O_TRUNC) 0 vfs1 = Some (Inr (HFile h), st') \<and>
     file_Read 1 st' \<lparr>vf_fs = 3, vf_flag = O_RDWR, vf_off = 1\<rparr> = Panic SliceBounds \<lparr>vf_fs = 3, vf_flag = O_RDWR, vf_off = 1\<rparr> \<and>
     file_Write [7] st' \<lparr>vf_fs = 3, vf_flag = O_RDWR, vf_off = 1\<rparr> =
       Panic SliceBounds (st', \<lparr>vf_fs = 3, vf_flag = O_RDWR, vf_off = 1\<rparr>)"
proof -
  have "opened_at vfs1 0 ''l/f'' = Some 3"
    by (simp add: opened_at_def entry_at_def fp_Split_def parts_def rooted_def subs_at_def)
  with truncate_under_open_file [OF vfs1_wf, of 0 "''l/f''" "\<lparr>vf_fs = 3, vf_flag = O_RDWR, vf_off = 1\<rparr>"
      "O_RDWR OR O_TRUNC" 7 0 1 "[7]"]
  show ?thesis by (simp add: flag_defs)
qed

end
