(* ===== verification/Pool.thy ===== *)
theory Pool
  imports Prelude "HOL-Library.Multiset"
begin

text \<open>
  The contract of a pool of identical resources, as the hook manager uses its channels of control
  addresses: taking gives an element of the pool away, giving puts one back as long as there is
  room. The client's bookkeeping, proved once over the contract: as long as every element that was
  taken is given back at most once, no element is ever handed out twice and none gets lost.
\<close>

locale slot_pool =
  fixes take_slot :: "'p \<Rightarrow> ('a \<times> 'p) option"
    and give_slot :: "'a \<Rightarrow> 'p \<Rightarrow> 'p"
    and items :: "'p \<Rightarrow> 'a multiset"
    and room :: "'p \<Rightarrow> nat"
    and inv :: "'p \<Rightarrow> bool"
  assumes take_some: "inv p \<Longrightarrow> take_slot p = Some (a, p') \<Longrightarrow>
      inv p' \<and> items p = add_mset a (items p') \<and> room p' = Suc (room p)"
    and take_none: "inv p \<Longrightarrow> take_slot p = None \<longleftrightarrow> items p = {#}"
    and give: "inv p \<Longrightarrow> 0 < room p \<Longrightarrow>
      inv (give_slot a p) \<and> items (give_slot a p) = add_mset a (items p) \<and> Suc (room (give_slot a p)) = room p"
begin

text \<open>The elements \<open>live\<close> are out; the pool has room for all of them, and no element is twice in or out.\<close>

definition accounted :: "'a multiset \<Rightarrow> 'p \<Rightarrow> bool" where
  "accounted live p \<longleftrightarrow> inv p \<and> size live \<le> room p \<and> (\<forall>a. count (live + items p) a \<le> 1)"

lemma accounted_take:
  assumes "accounted live p" and "take_slot p = Some (a, p')"
  shows "accounted (add_mset a live) p'" and "a \<notin># live"
    and "add_mset a live + items p' = live + items p"
proof -
  have t: "inv p'" "items p = add_mset a (items p')" "room p' = Suc (room p)"
    using take_some [of p a p'] assms by (auto simp: accounted_def)
  then show e: "add_mset a live + items p' = live + items p" by simp
  from assms(1) have c: "count (live + items p) b \<le> 1" for b by (simp add: accounted_def)
  show "accounted (add_mset a live) p'"
    using assms(1) t(1,3) c by (simp add: accounted_def del: union_mset_add_mset_left add: e)
  have "count live a + count (items p') a + 1 \<le> 1" using c [of a] t(2) by simp
  then show "a \<notin># live" by (simp add: not_in_iff)
qed

lemma accounted_give:
  assumes "accounted (add_mset a live) p"
  shows "accounted live (give_slot a p)"
    and "live + items (give_slot a p) = add_mset a live + items p"
proof -
  have g: "inv (give_slot a p)" "items (give_slot a p) = add_mset a (items p)"
    "Suc (room (give_slot a p)) = room p"
    using give [of p a] assms by (auto simp: accounted_def)
  then show e: "live + items (give_slot a p) = add_mset a live + items p" by simp
  show "accounted live (give_slot a p)"
    using assms g unfolding accounted_def e by simp
qed

lemma accounted_distinct: "accounted live p \<Longrightarrow> a \<in># live \<Longrightarrow> a \<notin># items p"
proof -
  assume "accounted live p" and a: "a \<in># live"
  then have "count live a + count (items p) a \<le> 1" by (simp add: accounted_def)
  moreover have "0 < count live a" using a by (simp only: count_greater_zero_iff)
  ultimately have "count (items p) a = 0" by linarith
  then show "a \<notin># items p" by (simp only: not_in_iff)
qed

lemma accounted_once: "accounted live p \<Longrightarrow> count live a \<le> 1"
proof -
  assume "accounted live p"
  then have "count live a + count (items p) a \<le> 1" by (simp add: accounted_def)
  then show "count live a \<le> 1" by simp
qed

end

end
