(* ===== verification/Hooks.thy ===== *)
theory Hooks
  imports MemManager Pool
begin

text \<open>
  The hook manager of \<^verbatim>\<open>internal/debugger/hook.go\<close>: registering and closing hooks, the control
  addresses (instructions that raise an interrupt, each bound to a callback) with their channels,
  and the dispatch of interrupts, invalid instructions and invalid memory accesses. Handler objects
  live in a list and are named by their index; a \<^verbatim>\<open>sync.Map\<close> of handlers is the list of their
  indices, in the order it is visited. A callback is code of the debugger's user: a number, run by
  a parameter.
\<close>

section \<open>Types\<close>

definition HOOK_TYPE_INTR :: u64 where "HOOK_TYPE_INTR = push_bit 0 1"
definition HOOK_TYPE_INSN_INVALID :: u64 where "HOOK_TYPE_INSN_INVALID = push_bit 1 1"
definition HOOK_TYPE_CODE :: u64 where "HOOK_TYPE_CODE = push_bit 2 1"
definition HOOK_TYPE_BLOCK :: u64 where "HOOK_TYPE_BLOCK = push_bit 3 1"
definition HOOK_TYPE_MEM_READ :: u64 where "HOOK_TYPE_MEM_READ = push_bit 10 1"
definition HOOK_TYPE_MEM_WRITE :: u64 where "HOOK_TYPE_MEM_WRITE = push_bit 11 1"
definition HOOK_TYPE_MEM_FETCH :: u64 where "HOOK_TYPE_MEM_FETCH = push_bit 12 1"
definition HOOK_TYPE_MEM_READ_AFTER :: u64 where "HOOK_TYPE_MEM_READ_AFTER = push_bit 13 1"

text \<open>The six kinds of unmapped and protected accesses are bits 4 to 9.\<close>

definition HOOK_TYPE_MEM_INVALID :: u64 where "HOOK_TYPE_MEM_INVALID = push_bit 4 (mask 6)"
definition HOOK_TYPE_MEM_VALID :: u64 where
  "HOOK_TYPE_MEM_VALID = HOOK_TYPE_MEM_READ OR HOOK_TYPE_MEM_WRITE OR HOOK_TYPE_MEM_FETCH"

lemmas hook_type_defs = HOOK_TYPE_INTR_def HOOK_TYPE_INSN_INVALID_def HOOK_TYPE_CODE_def
  HOOK_TYPE_BLOCK_def HOOK_TYPE_MEM_READ_def HOOK_TYPE_MEM_WRITE_def HOOK_TYPE_MEM_FETCH_def
  HOOK_TYPE_MEM_READ_AFTER_def HOOK_TYPE_MEM_INVALID_def HOOK_TYPE_MEM_VALID_def

definition HookResult_Done :: int where "HookResult_Done = -1"
definition HookResult_Next :: int where "HookResult_Next = 0"

text \<open>
  The callbacks by their Go type; \<open>CtrlCb c\<close> is the method \<^verbatim>\<open>handleControl\<close> of control \<open>c\<close>, an
  interrupt callback; \<open>OtherCb\<close> is a value of none of the types.
\<close>

datatype callback = IntrCb nat | CtrlCb nat | InsnCb nat | CodeCb nat | MemCb nat | OtherCb

type_synonym slot = "u64 \<times> u64"

text \<open>The functions in \<^verbatim>\<open>releases\<close> of a handler, of a control and of the manager\<close>

datatype hook_release = DelIntr nat | DelInsn nat | DelMem nat | CloseEmu nat
datatype ctrl_release = FreeCtrl slot | CloseHook nat
datatype mgr_release = CloseRoot nat | FreeMap u64 u64

record hook =
  hk_releases :: "hook_release list"
  hk_typ :: u64
  hk_callback :: callback
  hk_data :: nat
  hk_begin :: u64
  hk_end :: u64

record ctrl =
  ct_releases :: "ctrl_release list"
  ct_addr :: slot
  ct_callback :: nat

text \<open>A buffered channel\<close>

record chan =
  ch_cap :: nat
  ch_buf :: "slot list"

record hook_mgr =
  hm_releases :: "mgr_release list"
  ctrlAddrs :: "chan list"
  ctrlRange :: "(u64 \<times> u64) list"
  intrHooks :: "nat list"
  insnHooks :: "nat list"
  memHooks :: "nat list"
  hooks :: "hook list"
  ctrls :: "ctrl list"

definition hook_mgr0 :: hook_mgr where
  "hook_mgr0 = \<lparr>hm_releases = [], ctrlAddrs = [], ctrlRange = [], intrHooks = [], insnHooks = [],
     memHooks = [], hooks = [], ctrls = []\<rparr>"

section \<open>Construction and destruction\<close>

text \<open>One of the three steps of \<^verbatim>\<open>ctor\<close>, and \<^verbatim>\<open>ctor\<close>\<close>

definition root_hook :: "'e emulator \<Rightarrow> u64 \<Rightarrow> hook_mgr \<times> 'e \<Rightarrow> hook_mgr \<times> 'e" where
  "root_hook E typ = (\<lambda>(h, e). case EmuHook E typ 1 0 e of
     (Inr r, e') \<Rightarrow> (h\<lparr>hm_releases := hm_releases h @ [CloseRoot r]\<rparr>, e')
   | (Inl err, e') \<Rightarrow> (h, e'))"

definition hook_ctor :: "'e emulator \<Rightarrow> hook_mgr \<Rightarrow> 'e \<Rightarrow> hook_mgr \<times> 'e" where
  "hook_ctor E h e =
     root_hook E HOOK_TYPE_MEM_INVALID (root_hook E HOOK_TYPE_INSN_INVALID (root_hook E HOOK_TYPE_INTR (h, e)))"

definition run_mgr_release ::
  "'e emulator \<Rightarrow> mgr_release \<Rightarrow> mem_state \<times> 'e \<Rightarrow> mem_state \<times> 'e" where
  "run_mgr_release E r = (\<lambda>(s, e). case r of
     CloseRoot i \<Rightarrow> (s, EmuHookClose E i e)
   | FreeMap a n \<Rightarrow> snd (mapFree E a n s e))"

definition hook_dtor ::
  "'e emulator \<Rightarrow> hook_mgr \<Rightarrow> mem_state \<Rightarrow> 'e \<Rightarrow> hook_mgr \<times> mem_state \<times> 'e" where
  "hook_dtor E h s e = (h\<lparr>hm_releases := []\<rparr>, fold (run_mgr_release E) (rev (hm_releases h)) (s, e))"

section \<open>Control addresses\<close>

text \<open>The instruction that raises the interrupt; none is given for x86.\<close>

definition ctrl_asm :: "arch \<Rightarrow> byte list" where
  "ctrl_asm ar = (case ar of
     ARCH_ARM \<Rightarrow> [0x35, 0x00, 0x00, 0xEF]
   | ARCH_ARM64 \<Rightarrow> [0xA1, 0x06, 0x00, 0xD4]
   | _ \<Rightarrow> [])"

text \<open>
  The loop of \<^verbatim>\<open>allocCtrlAddrs\<close> that writes the instructions and fills the channel; \<open>k\<close> bounds the
  rounds by the capacity of the channel.
\<close>

fun ctrl_fill ::
  "'e emulator \<Rightarrow> byte list \<Rightarrow> u64 \<Rightarrow> u64 \<Rightarrow> nat \<Rightarrow> u64 \<Rightarrow> 'e \<Rightarrow> slot list \<times> 'e" where
  "ctrl_fill E asm sz end 0 addr e = ([], e)"
| "ctrl_fill E asm sz end (Suc k) addr e =
     (if addr < end
      then (case ctrl_fill E asm sz end k (addr + sz) (snd (EmuMemWrite E addr asm e)) of
              (q, e') \<Rightarrow> ((addr, addr + sz) # q, e'))
      else ([], e))"

definition allocCtrlAddrs ::
  "'e emulator \<Rightarrow> hook_mgr \<Rightarrow> mem_state \<Rightarrow> 'e \<Rightarrow>
     (goerr option, hook_mgr \<times> mem_state \<times> 'e) outcome" where
  "allocCtrlAddrs E h s e =
     (case mapAlloc E 0x1000 MEM_PROT_EXEC s e of
        (Inl err, s', e') \<Rightarrow> Ret (Some err) (h, s', e')
      | (Inr region, s', e') \<Rightarrow>
          (let h1 = h\<lparr>hm_releases := hm_releases h @ [FreeMap (Addr region) (Size region)]\<rparr>;
               asm = ctrl_asm (EmuArch E);
               sz = of_nat (length asm) :: u64
           in if sz = 0 then Panic DivideByZero (h1, s', e')
              else
                (let cnt = Size region div sz;
                     end = Addr region + sz * cnt;
                     (q, e'') = ctrl_fill E asm sz end (unat cnt) (Addr region) e'
                 in Ret None
                     (h1\<lparr>ctrlAddrs := ctrlAddrs h1 @ [\<lparr>ch_cap = unat cnt, ch_buf = q\<rparr>],
                        ctrlRange := ctrlRange h1 @ [(Addr region, end + sz)]\<rparr>, s', e''))))"

text \<open>The non-blocking receive from, and send to, the first channel that is ready\<close>

fun chans_recv :: "chan list \<Rightarrow> (slot \<times> chan list) option" where
  "chans_recv [] = None"
| "chans_recv (c # cs) =
     (case ch_buf c of
        a # as \<Rightarrow> Some (a, c\<lparr>ch_buf := as\<rparr> # cs)
      | [] \<Rightarrow> map_option (map_prod id ((#) c)) (chans_recv cs))"

fun chans_send :: "slot \<Rightarrow> chan list \<Rightarrow> chan list" where
  "chans_send a [] = []"
| "chans_send a (c # cs) =
     (if length (ch_buf c) < ch_cap c then c\<lparr>ch_buf := ch_buf c @ [a]\<rparr> # cs else c # chans_send a cs)"

partial_function (option) ctrlAddrAlloc ::
  "'e emulator \<Rightarrow> hook_mgr \<Rightarrow> mem_state \<Rightarrow> 'e \<Rightarrow>
     (slot res, hook_mgr \<times> mem_state \<times> 'e) outcome option" where
  "ctrlAddrAlloc E h s e =
     (case chans_recv (ctrlAddrs h) of
        Some (a, cs) \<Rightarrow> Some (Ret (Inr a) (h\<lparr>ctrlAddrs := cs\<rparr>, s, e))
      | None \<Rightarrow>
          (case allocCtrlAddrs E h s e of
             Panic p st \<Rightarrow> Some (Panic p st)
           | Ret (Some err) st \<Rightarrow> Some (Ret (Inl err) st)
           | Ret None (h', s', e') \<Rightarrow> ctrlAddrAlloc E h' s' e'))"

definition ctrlAddrFree :: "slot \<Rightarrow> hook_mgr \<Rightarrow> hook_mgr" where
  "ctrlAddrFree a h = h\<lparr>ctrlAddrs := chans_send a (ctrlAddrs h)\<rparr>"

section \<open>Registering and closing\<close>

definition run_hook_release ::
  "'e emulator \<Rightarrow> hook_release \<Rightarrow> hook_mgr \<times> 'e \<Rightarrow> hook_mgr \<times> 'e" where
  "run_hook_release E r = (\<lambda>(h, e). case r of
     DelIntr i \<Rightarrow> (h\<lparr>intrHooks := removeAll i (intrHooks h)\<rparr>, e)
   | DelInsn i \<Rightarrow> (h\<lparr>insnHooks := removeAll i (insnHooks h)\<rparr>, e)
   | DelMem i \<Rightarrow> (h\<lparr>memHooks := removeAll i (memHooks h)\<rparr>, e)
   | CloseEmu i \<Rightarrow> (h, EmuHookClose E i e))"

definition hook_Close :: "'e emulator \<Rightarrow> nat \<Rightarrow> hook_mgr \<times> 'e \<Rightarrow> hook_mgr \<times> 'e" where
  "hook_Close E i = (\<lambda>(h, e).
     case fold (run_hook_release E) (rev (hk_releases (hooks h ! i))) (h, e) of
       (h', e') \<Rightarrow> (h'\<lparr>hooks := (hooks h')[i := (hooks h' ! i)\<lparr>hk_releases := []\<rparr>]\<rparr>, e'))"

definition new_hook :: "hook \<Rightarrow> hook_mgr \<Rightarrow> nat \<times> hook_mgr" where
  "new_hook k h = (length (hooks h), h\<lparr>hooks := hooks h @ [k]\<rparr>)"

definition add_release :: "nat \<Rightarrow> hook_release \<Rightarrow> hook_mgr \<Rightarrow> hook_mgr" where
  "add_release i r h =
     h\<lparr>hooks := (hooks h)[i := (hooks h ! i)\<lparr>hk_releases := hk_releases (hooks h ! i) @ [r]\<rparr>]\<rparr>"

text \<open>The cases of \<^verbatim>\<open>addHook\<close>\<close>

definition add_intr :: "hook \<Rightarrow> hook_mgr \<Rightarrow> nat res \<times> hook_mgr" where
  "add_intr handler h =
     (let (i, h1) = new_hook handler h;
          h2 = add_release i (DelIntr i) h1
      in (Inr i, h2\<lparr>intrHooks := intrHooks h2 @ [i]\<rparr>))"

definition add_insn :: "hook \<Rightarrow> hook_mgr \<Rightarrow> nat res \<times> hook_mgr" where
  "add_insn handler h =
     (let (i, h1) = new_hook handler h;
          h2 = add_release i (DelInsn i) h1
      in (Inr i, h2\<lparr>insnHooks := insnHooks h2 @ [i]\<rparr>))"

definition add_code ::
  "'e emulator \<Rightarrow> hook \<Rightarrow> u64 \<Rightarrow> u64 \<Rightarrow> hook_mgr \<Rightarrow> 'e \<Rightarrow> nat res \<times> hook_mgr \<times> 'e" where
  "add_code E handler begin end h e =
     (let (i, h1) = new_hook (handler\<lparr>hk_begin := 0, hk_end := 0\<rparr>) h
      in case EmuHook E (hk_typ handler) begin end e of
           (Inl err, e') \<Rightarrow> (Inl err, h1, e')
         | (Inr r, e') \<Rightarrow> (Inr i, add_release i (CloseEmu r) h1, e'))"

definition add_mem ::
  "'e emulator \<Rightarrow> hook \<Rightarrow> hook_mgr \<Rightarrow> 'e \<Rightarrow> nat res \<times> hook_mgr \<times> 'e" where
  "add_mem E handler h e =
     (let typ = hk_typ handler;
          (i, h1) = new_hook handler h;
          h2 = (if typ AND HOOK_TYPE_MEM_INVALID \<noteq> 0
                then (let h' = add_release i (DelMem i) h1 in h'\<lparr>memHooks := memHooks h' @ [i]\<rparr>)
                else h1)
      in if typ AND (HOOK_TYPE_MEM_VALID OR HOOK_TYPE_MEM_READ_AFTER) \<noteq> 0
         then (case EmuHook E typ (hk_begin handler) (hk_end handler) e of
                 (Inl err, e') \<Rightarrow> (case hook_Close E i (h2, e') of (h3, e3) \<Rightarrow> (Inl err, h3, e3))
               | (Inr r, e') \<Rightarrow> (Inr i, add_release i (CloseEmu r) h2, e'))
         else (Inr i, h2, e))"

text \<open>The type assertions of the cases\<close>

fun is_intr_cb :: "callback \<Rightarrow> bool" where
  "is_intr_cb (IntrCb _) = True" | "is_intr_cb (CtrlCb _) = True" | "is_intr_cb _ = False"

fun is_insn_cb :: "callback \<Rightarrow> bool" where
  "is_insn_cb (InsnCb _) = True" | "is_insn_cb _ = False"

fun is_code_cb :: "callback \<Rightarrow> bool" where
  "is_code_cb (CodeCb _) = True" | "is_code_cb _ = False"

fun is_mem_cb :: "callback \<Rightarrow> bool" where
  "is_mem_cb (MemCb _) = True" | "is_mem_cb _ = False"

definition addHook ::
  "'e emulator \<Rightarrow> u64 \<Rightarrow> callback \<Rightarrow> nat \<Rightarrow> u64 \<Rightarrow> u64 \<Rightarrow> hook_mgr \<Rightarrow> 'e \<Rightarrow>
     nat res \<times> hook_mgr \<times> 'e" where
  "addHook E typ cb data begin end h e =
     (let handler = \<lparr>hk_releases = [], hk_typ = typ, hk_callback = cb, hk_data = data,
                     hk_begin = begin, hk_end = end\<rparr>
      in
      if typ = HOOK_TYPE_INTR then
        (if is_intr_cb cb then (case add_intr handler h of (r, h') \<Rightarrow> (r, h', e))
         else (Inl ErrHookCallbackType, h, e))
      else if typ = HOOK_TYPE_INSN_INVALID then
        (if is_insn_cb cb then (case add_insn handler h of (r, h') \<Rightarrow> (r, h', e))
         else (Inl ErrHookCallbackType, h, e))
      else if typ = HOOK_TYPE_CODE \<or> typ = HOOK_TYPE_BLOCK then
        (if is_code_cb cb then add_code E handler begin end h e
         else (Inl ErrHookCallbackType, h, e))
      else
        (if is_mem_cb cb then add_mem E handler h e
         else (Inl ErrHookCallbackType, h, e)))"

text \<open>\<^verbatim>\<open>addControl\<close>; the file and line it records of its caller are left out.\<close>

definition addControl ::
  "'e emulator \<Rightarrow> nat \<Rightarrow> nat \<Rightarrow> hook_mgr \<Rightarrow> mem_state \<Rightarrow> 'e \<Rightarrow>
     (nat res, hook_mgr \<times> mem_state \<times> 'e) outcome option" where
  "addControl E cb data h s e =
     (case ctrlAddrAlloc E h s e of
        None \<Rightarrow> None
      | Some (Panic p st) \<Rightarrow> Some (Panic p st)
      | Some (Ret (Inl err) st) \<Rightarrow> Some (Ret (Inl err) st)
      | Some (Ret (Inr addr) (h1, s1, e1)) \<Rightarrow>
          (let c = length (ctrls h1) in
           case addHook E HOOK_TYPE_INTR (CtrlCb c) data (snd addr) (snd addr + 1) h1 e1 of
             (Inl err, h2, e2) \<Rightarrow> Some (Ret (Inl err) (ctrlAddrFree addr h2, s1, e2))
           | (Inr i, h2, e2) \<Rightarrow>
               Some (Ret (Inr c)
                 (h2\<lparr>ctrls := ctrls h2 @
                    [\<lparr>ct_releases = [FreeCtrl addr, CloseHook i], ct_addr = addr, ct_callback = cb\<rparr>]\<rparr>, s1, e2))))"

definition run_ctrl_release ::
  "'e emulator \<Rightarrow> ctrl_release \<Rightarrow> hook_mgr \<times> 'e \<Rightarrow> hook_mgr \<times> 'e" where
  "run_ctrl_release E r = (\<lambda>(h, e). case r of
     FreeCtrl a \<Rightarrow> (ctrlAddrFree a h, e) | CloseHook i \<Rightarrow> hook_Close E i (h, e))"

text \<open>\<^verbatim>\<open>controlHandler.Close\<close> runs its releases and, unlike \<^verbatim>\<open>hookHandler.Close\<close>, keeps them.\<close>

definition ctrl_Close :: "'e emulator \<Rightarrow> nat \<Rightarrow> hook_mgr \<times> 'e \<Rightarrow> hook_mgr \<times> 'e" where
  "ctrl_Close E c = (\<lambda>(h, e). fold (run_ctrl_release E) (rev (ct_releases (ctrls h ! c))) (h, e))"

section \<open>Dispatch\<close>

definition isControl :: "hook_mgr \<Rightarrow> u64 \<Rightarrow> bool" where
  "isControl h pc = list_ex (\<lambda>(lo, hi). lo < pc \<and> pc \<le> hi) (ctrlRange h)"

definition hook_valid :: "hook \<Rightarrow> u64 \<Rightarrow> u64 \<Rightarrow> bool \<Rightarrow> bool" where
  "hook_valid k typ pc isCtrl =
     (if hk_typ k AND typ = 0 then False
      else if \<not> isCtrl \<and> hk_end k < hk_begin k then True
      else hk_begin k \<le> pc \<and> pc < hk_end k)"

text \<open>
  The loop of the three dispatchers over the handlers: \<open>run\<close> calls one handler's callback. The result
  of the last callback called counts, and \<^verbatim>\<open>Done\<close> ends the loop.
\<close>

fun dispatch ::
  "(nat \<Rightarrow> bool) \<Rightarrow> (nat \<Rightarrow> 'w \<Rightarrow> int \<times> 'w) \<Rightarrow> nat list \<Rightarrow> int \<Rightarrow> 'w \<Rightarrow> int \<times> 'w" where
  "dispatch valid run [] result w = (result, w)"
| "dispatch valid run (i # js) result w =
     (if valid i
      then (case run i w of
              (r, w') \<Rightarrow> if r = HookResult_Done then (r, w') else dispatch valid run js r w')
      else dispatch valid run js result w)"

text \<open>What a dispatch asks of the task: to go on, or to be cancelled with a cause\<close>

datatype cause = CauseErr goerr | IntrException u64 | InsnException | MemException u64 u64 u64 u64

text \<open>
  \<^verbatim>\<open>handleInterrupt\<close>. \<open>pc\<close> is the outcome of reading the program counter; \<open>run cb intno data\<close> runs a user
  callback. The method \<^verbatim>\<open>handleControl\<close> runs the control's callback and returns \<^verbatim>\<open>Done\<close>.
\<close>

definition run_intr ::
  "(nat \<Rightarrow> u64 \<Rightarrow> nat \<Rightarrow> 'w \<Rightarrow> int \<times> 'w) \<Rightarrow> (nat \<Rightarrow> nat \<Rightarrow> 'w \<Rightarrow> 'w) \<Rightarrow> hook_mgr \<Rightarrow> u64 \<Rightarrow> nat \<Rightarrow> 'w \<Rightarrow> int \<times> 'w" where
  "run_intr run runc h intno i w =
     (let k = hooks h ! i in
      case hk_callback k of
        CtrlCb c \<Rightarrow> (HookResult_Done, runc (ct_callback (ctrls h ! c)) (hk_data k) w)
      | IntrCb cb \<Rightarrow> run cb intno (hk_data k) w
      | _ \<Rightarrow> (HookResult_Next, w))"

definition handleInterrupt ::
  "(nat \<Rightarrow> u64 \<Rightarrow> nat \<Rightarrow> 'w \<Rightarrow> int \<times> 'w) \<Rightarrow> (nat \<Rightarrow> nat \<Rightarrow> 'w \<Rightarrow> 'w) \<Rightarrow> hook_mgr \<Rightarrow> u64 \<Rightarrow> u64 res \<Rightarrow> 'w \<Rightarrow>
     cause option \<times> 'w" where
  "handleInterrupt run runc h intno pc w =
     (case pc of
        Inl err \<Rightarrow> (Some (CauseErr err), w)
      | Inr pc \<Rightarrow>
          (case dispatch (\<lambda>i. hook_valid (hooks h ! i) HOOK_TYPE_INTR pc (isControl h pc))
                  (run_intr run runc h intno) (intrHooks h) HookResult_Next w of
             (result, w') \<Rightarrow> (if result = HookResult_Next then Some (IntrException intno) else None, w')))"

definition handleInvalid ::
  "(nat \<Rightarrow> nat \<Rightarrow> 'w \<Rightarrow> int \<times> 'w) \<Rightarrow> hook_mgr \<Rightarrow> u64 res \<Rightarrow> 'w \<Rightarrow> cause option \<times> 'w" where
  "handleInvalid run h pc w =
     (case pc of
        Inl err \<Rightarrow> (Some (CauseErr err), w)
      | Inr pc \<Rightarrow>
          (case dispatch (\<lambda>i. hook_valid (hooks h ! i) HOOK_TYPE_INSN_INVALID pc False)
                  (\<lambda>i. case hk_callback (hooks h ! i) of
                         InsnCb cb \<Rightarrow> run cb (hk_data (hooks h ! i)) | _ \<Rightarrow> Pair HookResult_Next)
                  (insnHooks h) HookResult_Next w of
             (result, w') \<Rightarrow> (if result = HookResult_Next then Some InsnException else None, w')))"

definition handleMemory ::
  "(nat \<Rightarrow> u64 \<Rightarrow> u64 \<Rightarrow> u64 \<Rightarrow> u64 \<Rightarrow> nat \<Rightarrow> 'w \<Rightarrow> int \<times> 'w) \<Rightarrow> hook_mgr \<Rightarrow>
     u64 \<Rightarrow> u64 \<Rightarrow> u64 \<Rightarrow> u64 \<Rightarrow> u64 res \<Rightarrow> 'w \<Rightarrow> cause option \<times> 'w" where
  "handleMemory run h typ addr sz value pc w =
     (case pc of
        Inl err \<Rightarrow> (Some (CauseErr err), w)
      | Inr pc \<Rightarrow>
          (case dispatch (\<lambda>i. hook_valid (hooks h ! i) typ pc False)
                  (\<lambda>i. case hk_callback (hooks h ! i) of
                         MemCb cb \<Rightarrow> run cb typ addr sz value (hk_data (hooks h ! i)) | _ \<Rightarrow> Pair HookResult_Next)
                  (memHooks h) HookResult_Next w of
             (result, w') \<Rightarrow>
               (if result = HookResult_Next then Some (MemException typ addr sz value) else None, w')))"

end
