(* ===== verification/HookInv.thy ===== *)
theory HookInv
  imports Hooks SampleEmu
begin

text \<open>
  The bookkeeping of control addresses: the channels of the hook manager are a pool of slots, and in
  every state the manager can reach each open control owns one slot, bound to one interrupt hook.
\<close>

section \<open>The channels are a pool of slots\<close>

definition ch_items :: "chan list \<Rightarrow> slot multiset" where
  "ch_items cs = (\<Sum>c\<leftarrow>cs. mset (ch_buf c))"

definition ch_room :: "chan list \<Rightarrow> nat" where
  "ch_room cs = (\<Sum>c\<leftarrow>cs. ch_cap c - length (ch_buf c))"

definition ch_ok :: "chan list \<Rightarrow> bool" where
  "ch_ok cs = list_all (\<lambda>c. length (ch_buf c) \<le> ch_cap c) cs"

lemma ch_simps [simp]:
  "ch_items [] = {#}" "ch_items (c # cs) = mset (ch_buf c) + ch_items cs"
  "ch_room [] = 0" "ch_room (c # cs) = ch_cap c - length (ch_buf c) + ch_room cs"
  "ch_ok []" "ch_ok (c # cs) \<longleftrightarrow> length (ch_buf c) \<le> ch_cap c \<and> ch_ok cs"
  by (simp_all add: ch_items_def ch_room_def ch_ok_def)

lemma chans_recv_some:
  "ch_ok cs \<Longrightarrow> chans_recv cs = Some (a, cs') \<Longrightarrow>
     ch_ok cs' \<and> ch_items cs = add_mset a (ch_items cs') \<and> ch_room cs' = Suc (ch_room cs)"
  by (induction cs arbitrary: cs') (auto split: list.splits)

lemma chans_recv_none: "chans_recv cs = None \<longleftrightarrow> ch_items cs = {#}"
  by (induction cs) (auto split: list.splits)

lemma chans_send_ok:
  "ch_ok cs \<Longrightarrow> 0 < ch_room cs \<Longrightarrow>
     ch_ok (chans_send a cs) \<and> ch_items (chans_send a cs) = add_mset a (ch_items cs) \<and>
     Suc (ch_room (chans_send a cs)) = ch_room cs"
  by (induction cs) auto

interpretation ctrl_pool: slot_pool chans_recv chans_send ch_items ch_room ch_ok
  using chans_recv_some chans_recv_none chans_send_ok by unfold_locales auto

lemma ch_append:
  "ch_items (cs @ ds) = ch_items cs + ch_items ds" "ch_room (cs @ ds) = ch_room cs + ch_room ds"
  "ch_ok (cs @ ds) \<longleftrightarrow> ch_ok cs \<and> ch_ok ds"
  by (induction cs) auto

section \<open>Filling a new channel\<close>

lemma ctrl_fill_slots:
  assumes "unat addr + k * unat sz < 2 ^ 64" and "0 < unat sz" and "unat end = unat addr + k * unat sz"
  shows "length (fst (ctrl_fill E asm sz end k addr e)) = k \<and>
    distinct (map fst (fst (ctrl_fill E asm sz end k addr e))) \<and>
    (\<forall>a \<in> set (fst (ctrl_fill E asm sz end k addr e)).
       snd a = fst a + sz \<and> unat addr \<le> unat (fst a) \<and> unat (fst a) + unat sz \<le> unat end)"
  using assms
proof (induction k arbitrary: addr e)
  case (Suc k)
  have lt: "addr < end" using Suc.prems by (simp add: word_less_nat_alt)
  have u: "unat (addr + sz) = unat addr + unat sz" using Suc.prems(1) by (simp add: addr_nat)
  obtain q e' where q: "ctrl_fill E asm sz end k (addr + sz) (snd (EmuMemWrite E addr asm e)) = (q, e')"
    by (cases "ctrl_fill E asm sz end k (addr + sz) (snd (EmuMemWrite E addr asm e))")
  have "unat (addr + sz) + k * unat sz < 2 ^ 64" "unat end = unat (addr + sz) + k * unat sz"
    using Suc.prems u by simp_all
  note IH = Suc.IH [OF this(1) Suc.prems(2) this(2), of "snd (EmuMemWrite E addr asm e)", unfolded q fst_conv]
  have "addr \<notin> fst ` set q" using IH u Suc.prems(2) by fastforce
  moreover have "unat addr + unat sz \<le> unat end" using Suc.prems by simp
  ultimately show ?case using lt q IH u by auto
qed simp

section \<open>What each operation leaves alone\<close>

text \<open>The handler objects and control state a run of releases does not touch\<close>

lemma run_releases_frame:
  "fold (run_hook_release E) rs (h, e) = (h', e') \<Longrightarrow>
     hooks h' = hooks h \<and> ctrls h' = ctrls h \<and> ctrlAddrs h' = ctrlAddrs h \<and> ctrlRange h' = ctrlRange h \<and>
     set (intrHooks h') = set (intrHooks h) - {j. DelIntr j \<in> set rs} \<and>
     (distinct (intrHooks h) \<longrightarrow> distinct (intrHooks h'))"
proof (induction rs arbitrary: h e)
  case (Cons r rs)
  obtain h1 e1 where s: "run_hook_release E r (h, e) = (h1, e1)" by (cases "run_hook_release E r (h, e)")
  with Cons.prems have "fold (run_hook_release E) rs (h1, e1) = (h', e')" by simp
  note IH = Cons.IH [OF this]
  from s have "hooks h1 = hooks h \<and> ctrls h1 = ctrls h \<and> ctrlAddrs h1 = ctrlAddrs h \<and>
      ctrlRange h1 = ctrlRange h \<and> set (intrHooks h1) = set (intrHooks h) - {j. r = DelIntr j} \<and>
      (distinct (intrHooks h) \<longrightarrow> distinct (intrHooks h1))"
    by (auto simp: run_hook_release_def distinct_removeAll split: hook_release.splits)
  with IH show ?case by auto
qed simp

text \<open>The releases of a handler mention only the handler itself.\<close>

fun own_release :: "nat \<Rightarrow> hook_release \<Rightarrow> bool" where
  "own_release i (DelIntr j) = (j = i)"
| "own_release i (DelInsn j) = (j = i)"
| "own_release i (DelMem j) = (j = i)"
| "own_release i (CloseEmu j) = True"

definition own :: "hook_mgr \<Rightarrow> bool" where
  "own h \<longleftrightarrow> (\<forall>i < length (hooks h). \<forall>r \<in> set (hk_releases (hooks h ! i)). own_release i r)"

lemma hook_Close_frame:
  assumes "own h" and "i < length (hooks h)" and "hook_Close E i (h, e) = (h', e')"
  shows "own h' \<and> hooks h' = (hooks h)[i := (hooks h ! i)\<lparr>hk_releases := []\<rparr>] \<and> ctrls h' = ctrls h \<and>
    ctrlAddrs h' = ctrlAddrs h \<and> ctrlRange h' = ctrlRange h \<and>
    set (intrHooks h) - {i} \<subseteq> set (intrHooks h') \<and> set (intrHooks h') \<subseteq> set (intrHooks h) \<and>
    (DelIntr i \<in> set (hk_releases (hooks h ! i)) \<longrightarrow> i \<notin> set (intrHooks h')) \<and>
    (distinct (intrHooks h) \<longrightarrow> distinct (intrHooks h'))"
proof -
  obtain h1 e1 where f: "fold (run_hook_release E) (rev (hk_releases (hooks h ! i))) (h, e) = (h1, e1)"
    by (cases "fold (run_hook_release E) (rev (hk_releases (hooks h ! i))) (h, e)")
  note fr = run_releases_frame [OF f]
  have "h' = h1\<lparr>hooks := (hooks h1)[i := (hooks h1 ! i)\<lparr>hk_releases := []\<rparr>]\<rparr>"
    using assms(3) f by (simp add: hook_Close_def)
  moreover have "DelIntr j \<in> set (hk_releases (hooks h ! i)) \<Longrightarrow> j = i" for j
    using assms(1,2) unfolding own_def by (metis own_release.simps(1))
  moreover have "own_release j r" if "j < length (hooks h)"
    "r \<in> set (hk_releases ((hooks h)[i := (hooks h ! i)\<lparr>hk_releases := []\<rparr>] ! j))" for j r
    using that assms(1) by (cases "j = i") (auto simp: own_def)
  ultimately show ?thesis
    using fr by (auto simp: own_def)
qed

definition user_cb :: "callback \<Rightarrow> bool" where
  "user_cb cb \<longleftrightarrow> (\<forall>c. cb \<noteq> CtrlCb c)"

text \<open>What registering a hook adds: at most one handler, on top.\<close>

definition hook_added :: "callback \<Rightarrow> hook_mgr \<Rightarrow> hook_mgr \<Rightarrow> bool" where
  "hook_added cb h h' \<longleftrightarrow> own h' \<and> ctrls h' = ctrls h \<and> ctrlAddrs h' = ctrlAddrs h \<and>
     ctrlRange h' = ctrlRange h \<and>
     (hooks h' = hooks h \<and> intrHooks h' = intrHooks h \<or>
      (\<exists>k. hooks h' = hooks h @ [k] \<and> hk_callback k = cb \<and>
         (intrHooks h' = intrHooks h \<or> intrHooks h' = intrHooks h @ [length (hooks h)])))"

lemma own_snoc:
  "own h \<Longrightarrow> \<forall>r \<in> set (hk_releases k). own_release (length (hooks h)) r \<Longrightarrow> hooks h' = hooks h @ [k] \<Longrightarrow> own h'"
  by (auto simp: own_def nth_append less_Suc_eq)

lemmas add_defs = new_hook_def add_release_def Let_def

lemma add_mem_frame:
  assumes "own h" and "hk_releases handler = []" and "add_mem E handler h e = (r, h', e')"
  shows "hook_added (hk_callback handler) h h'"
proof -
  let ?i = "length (hooks h)"
  define h2 where "h2 = (if hk_typ handler AND HOOK_TYPE_MEM_INVALID \<noteq> 0
      then (let h' = add_release ?i (DelMem ?i) (snd (new_hook handler h)) in h'\<lparr>memHooks := memHooks h' @ [?i]\<rparr>)
      else snd (new_hook handler h))"
  define k where "k = (if hk_typ handler AND HOOK_TYPE_MEM_INVALID \<noteq> 0
      then handler\<lparr>hk_releases := [DelMem ?i]\<rparr> else handler)"
  have k: "hooks h2 = hooks h @ [k]" "hk_callback k = hk_callback handler"
    "\<forall>r \<in> set (hk_releases k). own_release ?i r"
    using assms(2) by (simp_all add: h2_def k_def add_defs nth_append)
  have f: "ctrls h2 = ctrls h" "ctrlAddrs h2 = ctrlAddrs h" "ctrlRange h2 = ctrlRange h" "intrHooks h2 = intrHooks h"
    by (simp_all add: h2_def add_defs)
  have o: "own h2" by (rule own_snoc [OF assms(1) k(3,1)])
  have a: "(r, h', e') = (if hk_typ handler AND (HOOK_TYPE_MEM_VALID OR HOOK_TYPE_MEM_READ_AFTER) \<noteq> 0
         then (case EmuHook E (hk_typ handler) (hk_begin handler) (hk_end handler) e of
                 (Inl err, e') \<Rightarrow> (case hook_Close E ?i (h2, e') of (h3, e3) \<Rightarrow> (Inl err, h3, e3))
               | (Inr r, e') \<Rightarrow> (Inr ?i, add_release ?i (CloseEmu r) h2, e'))
         else (Inr ?i, h2, e))"
    using assms(3) unfolding add_mem_def new_hook_def h2_def Let_def prod.case snd_conv by (rule sym)
  consider "h' = h2" | n where "h' = add_release ?i (CloseEmu n) h2"
    | e1 e3 where "hook_Close E ?i (h2, e1) = (h', e3)"
    using a by (auto split: if_splits prod.splits sum.splits) metis
  then show ?thesis
  proof cases
    case 1
    with k f o show ?thesis by (simp add: hook_added_def)
  next
    case 2
    have "own h'"
      by (rule own_snoc [OF assms(1), of "k\<lparr>hk_releases := hk_releases k @ [CloseEmu n]\<rparr>"])
         (use 2 k in \<open>auto simp: add_release_def\<close>)
    with 2 k f show ?thesis by (simp add: hook_added_def add_release_def)
  next
    case 3
    have il: "?i < length (hooks h2)" using k by simp
    have c: "own h'" "hooks h' = hooks h @ [k\<lparr>hk_releases := []\<rparr>]" "ctrls h' = ctrls h"
      "ctrlAddrs h' = ctrlAddrs h" "ctrlRange h' = ctrlRange h"
      using hook_Close_frame [OF o il 3] k f by simp_all
    have "intrHooks h' = intrHooks h"
      using 3 f k(1) assms(2)
      by (auto simp: hook_Close_def k_def run_hook_release_def split: prod.splits if_splits)
    with c k show ?thesis by (simp add: hook_added_def)
  qed
qed

lemma addHook_frame:
  assumes "own h" and "addHook E typ cb data b en h e = (r, h', e')"
  shows "hook_added cb h h'"
proof -
  let ?k = "\<lparr>hk_releases = [], hk_typ = typ, hk_callback = cb, hk_data = data, hk_begin = b, hk_end = en\<rparr>"
  have "(\<exists>r'. add_intr ?k h = (r', h')) \<or> (\<exists>r'. add_insn ?k h = (r', h')) \<or>
      add_code E ?k b en h e = (r, h', e') \<or> add_mem E ?k h e = (r, h', e') \<or> h' = h"
    using assms(2) unfolding addHook_def Let_def
    by (auto split: if_splits prod.splits)
  moreover have "hook_added cb h h'" if "add_intr ?k h = (r', h')" for r'
    using that assms(1) own_snoc [OF assms(1), of "?k\<lparr>hk_releases := [DelIntr (length (hooks h))]\<rparr>" h']
    by (auto simp: hook_added_def add_intr_def add_defs nth_append)
  moreover have "hook_added cb h h'" if "add_insn ?k h = (r', h')" for r'
    using that assms(1) own_snoc [OF assms(1), of "?k\<lparr>hk_releases := [DelInsn (length (hooks h))]\<rparr>" h']
    by (auto simp: hook_added_def add_insn_def add_defs nth_append)
  moreover have "hook_added cb h h'" if "add_code E ?k b en h e = (r, h', e')"
  proof -
    note ac = that
    let ?kc = "?k\<lparr>hk_begin := 0, hk_end := 0\<rparr>"
    obtain rs where "h' = h\<lparr>hooks := hooks h @ [?kc\<lparr>hk_releases := rs\<rparr>]\<rparr>"
      "\<forall>r \<in> set rs. own_release (length (hooks h)) r"
    proof (cases "fst (EmuHook E typ b en e)")
      case (Inl err)
      with that(1) [of "[]"] ac show ?thesis
        by (auto simp: add_code_def add_defs split: prod.splits)
    next
      case (Inr n)
      with that(1) [of "[CloseEmu n]"] ac show ?thesis
        by (auto simp: add_code_def add_defs nth_append split: prod.splits)
    qed
    with own_snoc [OF assms(1), of "?kc\<lparr>hk_releases := rs\<rparr>" h'] show ?thesis by (simp add: hook_added_def)
  qed
  moreover have "hook_added cb h h'" if "add_mem E ?k h e = (r, h', e')"
    using add_mem_frame [OF assms(1) _ that] by simp
  moreover have "hook_added cb h h'" if "h' = h" using that assms(1) by (simp add: hook_added_def)
  ultimately show ?thesis by blast
qed

section \<open>The invariant\<close>

text \<open>
  \<open>bound h c i\<close>: the interrupt hook \<open>i\<close> is that of control \<open>c\<close>. It answers exactly at the address
  behind the control's instruction, where the interrupt finds the program counter.
\<close>

definition bound :: "hook_mgr \<Rightarrow> nat \<Rightarrow> nat \<Rightarrow> bool" where
  "bound h c i \<longleftrightarrow> i \<in> set (intrHooks h) \<and>
     ct_releases (ctrls h ! c) = [FreeCtrl (ct_addr (ctrls h ! c)), CloseHook i] \<and>
     hk_releases (hooks h ! i) = [DelIntr i] \<and> hk_typ (hooks h ! i) = HOOK_TYPE_INTR \<and>
     hk_callback (hooks h ! i) = CtrlCb c \<and>
     hk_begin (hooks h ! i) = snd (ct_addr (ctrls h ! c)) \<and>
     hk_end (hooks h ! i) = snd (ct_addr (ctrls h ! c)) + 1"

definition slot_ok :: "hook_mgr \<Rightarrow> mem_state \<Rightarrow> slot \<Rightarrow> bool" where
  "slot_ok h s a \<longleftrightarrow> snd a = fst a + 4 \<and> unat (fst a) + 4 \<le> unat (mapAddr s) \<and>
     unat (fst a) + 8 < 2 ^ 64 \<and> isControl h (snd a)"

definition live_slots :: "hook_mgr \<Rightarrow> nat list \<Rightarrow> slot multiset" where
  "live_slots h L = mset (map (\<lambda>c. ct_addr (ctrls h ! c)) L)"

text \<open>The controls \<open>L\<close> are open.\<close>

definition ctl_inv :: "nat list \<Rightarrow> hook_mgr \<Rightarrow> mem_state \<Rightarrow> bool" where
  "ctl_inv L h s \<longleftrightarrow>
     (own h \<and> distinct (intrHooks h) \<and> (\<forall>i \<in> set (intrHooks h). i < length (hooks h))) \<and>
     (distinct L \<and> (\<forall>c \<in> set L. c < length (ctrls h))) \<and>
     ctrl_pool.accounted (live_slots h L) (ctrlAddrs h) \<and>
     (\<forall>a \<in># live_slots h L + ch_items (ctrlAddrs h). slot_ok h s a) \<and>
     (\<forall>c \<in> set L. \<exists>i. bound h c i) \<and>
     (\<forall>i \<in> set (intrHooks h). \<forall>c. hk_callback (hooks h ! i) = CtrlCb c \<longrightarrow> c \<in> set L \<and> bound h c i)"

lemma ctl_invD:
  assumes "ctl_inv L h s"
  shows "own h" and "distinct (intrHooks h)" and "\<And>i. i \<in> set (intrHooks h) \<Longrightarrow> i < length (hooks h)"
    and "distinct L" and "\<And>c. c \<in> set L \<Longrightarrow> c < length (ctrls h)"
    and "ctrl_pool.accounted (live_slots h L) (ctrlAddrs h)"
    and "\<And>a. a \<in># live_slots h L + ch_items (ctrlAddrs h) \<Longrightarrow> slot_ok h s a"
    and "\<And>c. c \<in> set L \<Longrightarrow> \<exists>i. bound h c i"
    and "\<And>i c. i \<in> set (intrHooks h) \<Longrightarrow> hk_callback (hooks h ! i) = CtrlCb c \<Longrightarrow> c \<in> set L"
    and "\<And>i c. i \<in> set (intrHooks h) \<Longrightarrow> hk_callback (hooks h ! i) = CtrlCb c \<Longrightarrow> bound h c i"
  using assms by (auto simp: ctl_inv_def)

lemma live_slots_cong: "\<forall>c \<in> set L. ctrls h' ! c = ctrls h ! c \<Longrightarrow> live_slots h' L = live_slots h L"
  unfolding live_slots_def by (intro arg_cong [of _ _ mset] map_cong) auto

lemma slot_ok_mono:
  "slot_ok h s a \<Longrightarrow> set (ctrlRange h) \<subseteq> set (ctrlRange h') \<Longrightarrow> unat (mapAddr s) \<le> unat (mapAddr s') \<Longrightarrow>
     slot_ok h' s' a"
  unfolding slot_ok_def isControl_def list_ex_iff by (meson le_trans subsetD)

lemma slot_ok_cong: "ctrlRange h' = ctrlRange h \<Longrightarrow> slot_ok h' s a = slot_ok h s a"
  by (simp add: slot_ok_def isControl_def)

lemma inv_add:
  assumes inv: "ctl_inv L h s" and "user_cb cb" and "hook_added cb h h'"
  shows "ctl_inv L h' s"
proof -
  note D = ctl_invD [OF inv] and a = assms(3) [unfolded hook_added_def]
  have old: "hooks h' ! i = hooks h ! i" if "i < length (hooks h)" for i
    using a that by (auto simp: nth_append)
  have sub: "set (intrHooks h) \<subseteq> set (intrHooks h')"
    "set (intrHooks h') \<subseteq> set (intrHooks h) \<union> {length (hooks h)}" using a by auto
  have b: "bound h c i \<Longrightarrow> bound h' c i" for c i
    using old [of i] D(3) [of i] sub a by (auto simp: bound_def)
  have new: "\<exists>i < length (hooks h). i = j" if "j \<in> set (intrHooks h')" "hk_callback (hooks h' ! j) = CtrlCb c" for j c
    using that a D(3) assms(2) by (auto simp: user_cb_def nth_append split: if_splits)
  have in_old: "j \<in> set (intrHooks h)" if "j \<in> set (intrHooks h')" "hk_callback (hooks h' ! j) = CtrlCb c" for j c
    using new [OF that] that sub by auto
  have len: "\<forall>i \<in> set (intrHooks h'). i < length (hooks h')" using a D(3) by fastforce
  have dis: "distinct (intrHooks h')" using a D(2) D(3) [of "length (hooks h)"] by auto
  have ct: "ctrls h' = ctrls h" "ctrlAddrs h' = ctrlAddrs h" "ctrlRange h' = ctrlRange h" "own h'"
    using a by blast+
  have cbs: "c \<in> set L \<and> bound h' c j" if "j \<in> set (intrHooks h')" "hk_callback (hooks h' ! j) = CtrlCb c" for j c
    using D(9,10) [OF in_old [OF that]] old [OF D(3) [OF in_old [OF that]]] that b by auto
  have eb: "c \<in> set L \<Longrightarrow> \<exists>i. bound h' c i" for c using D(8) b by blast
  show ?thesis
    unfolding ctl_inv_def
    using D(4-7) ct len dis eb cbs live_slots_cong [of L h' h] slot_ok_cong [OF ct(3)] by auto
qed

lemma inv_close:
  assumes inv: "ctl_inv L h s" and "i < length (hooks h)" and "user_cb (hk_callback (hooks h ! i))"
    and "hook_Close E i (h, e) = (h', e')"
  shows "ctl_inv L h' s"
proof -
  note D = ctl_invD [OF inv] and f = hook_Close_frame [OF D(1) assms(2,4)]
  have b: "bound h' c j" if "bound h c j" for c j
  proof -
    have "j \<noteq> i" using that assms(3) by (auto simp: bound_def user_cb_def)
    then have "hooks h' ! j = hooks h ! j" using f by simp
    with that f \<open>j \<noteq> i\<close> show ?thesis by (auto simp: bound_def)
  qed
  have cb: "hk_callback (hooks h' ! j) = hk_callback (hooks h ! j)" for j
    using f by (cases "j = i \<and> j < length (hooks h)") (auto simp: nth_list_update list_update_beyond)
  have sub: "j \<in> set (intrHooks h') \<Longrightarrow> j \<in> set (intrHooks h)" for j using f by blast
  have ct: "ctrls h' = ctrls h" "ctrlAddrs h' = ctrlAddrs h" "ctrlRange h' = ctrlRange h" "own h'"
    "distinct (intrHooks h')" "length (hooks h') = length (hooks h)" using f D(2) by auto
  have cbs: "c \<in> set L \<and> bound h' c j" if "j \<in> set (intrHooks h')" "hk_callback (hooks h' ! j) = CtrlCb c" for j c
    using D(9,10) [OF sub [OF that(1)]] that(2) cb b by auto
  have eb: "c \<in> set L \<Longrightarrow> \<exists>i. bound h' c i" for c using D(8) b by blast
  show ?thesis
    unfolding ctl_inv_def
    using D(3-7) ct eb cbs sub live_slots_cong [of L h' h] slot_ok_cong [OF ct(3)] by auto
qed

lemma inv_mem:
  assumes "ctl_inv L h s" and "unat (mapAddr s) \<le> unat (mapAddr s')"
  shows "ctl_inv L h s'"
  using assms slot_ok_mono [of h s _ h s'] unfolding ctl_inv_def by blast

section \<open>Adding and closing controls\<close>

text \<open>What the manager needs of the emulator to make control addresses.\<close>

definition ctrl_emu :: "'e emulator \<Rightarrow> bool" where
  "ctrl_emu E \<longleftrightarrow> emu_paged E \<and> (EmuArch E = ARCH_ARM \<or> EmuArch E = ARCH_ARM64)"

definition ctrl_room :: "'e emulator \<Rightarrow> mem_state \<Rightarrow> bool" where
  "ctrl_room E s \<longleftrightarrow> room E 0x1000 s \<and>
     unat (mapAddr s) + unat (Align 0x1000 (PageSize E)) + 16 < 2 ^ 64"

lemma ctrl_asm_4: "ctrl_emu E \<Longrightarrow> (of_nat (length (ctrl_asm (EmuArch E))) :: u64) = 4"
  by (auto simp: ctrl_emu_def ctrl_asm_def)

text \<open>The new channel: its slots lie in the new region and are pairwise distinct.\<close>

lemma allocCtrlAddrs_cases:
  assumes "ctrl_emu E" and "ctrl_room E s"
  shows "(\<exists>err s' e'. allocCtrlAddrs E h s e = Ret (Some err) (h, s', e') \<and> unat (mapAddr s) \<le> unat (mapAddr s')) \<or>
    (\<exists>rs q hi s' e'. allocCtrlAddrs E h s e = Ret None
        (h\<lparr>hm_releases := rs, ctrlAddrs := ctrlAddrs h @ [\<lparr>ch_cap = length q, ch_buf = q\<rparr>],
           ctrlRange := ctrlRange h @ [(mapAddr s, hi)]\<rparr>, s', e') \<and>
      1 < length q \<and> distinct q \<and> unat (mapAddr s) \<le> unat (mapAddr s') \<and>
      (\<forall>a \<in> set q. snd a = fst a + 4 \<and> unat (mapAddr s) \<le> unat (fst a) \<and>
         unat (fst a) + 4 \<le> unat (mapAddr s') \<and> unat (fst a) + 8 < 2 ^ 64 \<and>
         mapAddr s < snd a \<and> snd a \<le> hi))"
proof -
  let ?n = "Align 0x1000 (PageSize E) :: u64"
  have pg: "emu_paged E" and rm: "room E 0x1000 s" using assms by (simp_all add: ctrl_emu_def ctrl_room_def)
  note ar = Align_room [OF pg rm]
  have big: "unat (mapAddr s) + unat ?n + 16 < 2 ^ 64" using assms(2) by (simp add: ctrl_room_def)
  have n: "0x1000 \<le> unat ?n" using ar(1) by simp
  from mapAlloc_cases [OF pg rm, of MEM_PROT_EXEC e] show ?thesis
  proof (elim disjE exE)
    fix err e' assume "mapAlloc E 0x1000 MEM_PROT_EXEC s e = (Inl err, s\<lparr>mapAddr := mapAddr s + ?n\<rparr>, e')"
    then show ?thesis using ar(2) by (auto simp: allocCtrlAddrs_def)
  next
    fix e' assume m: "mapAlloc E 0x1000 MEM_PROT_EXEC s e = (Inr \<lparr>Addr = mapAddr s, Size = ?n, Prot = MEM_PROT_EXEC\<rparr>,
       s\<lparr>mapAddr := mapAddr s + ?n, maps := mapStore (mapAddr s) ?n (maps s)\<rparr>, e')"
    define k where "k = unat (?n div 4)"
    define hi where "hi = mapAddr s + 4 * (?n div 4)"
    have k: "k = unat ?n div 4" by (simp add: k_def unat_div)
    have m4: "4 * k \<le> unat ?n" "0 < k" using k n by auto
    have u4: "unat (4 * (?n div 4)) = 4 * k"
    proof -
      have "unat (4 * (?n div 4)) = 4 * k mod 2 ^ 64" by (simp add: unat_word_ariths k_def)
      moreover have "4 * k < 2 ^ 64" using m4(1) big by linarith
      ultimately show ?thesis by simp
    qed
    have hi: "unat hi = unat (mapAddr s) + 4 * k" using u4 m4(1) big by (simp add: hi_def addr_nat)
    have hi4: "unat (hi + 4) = unat hi + 4" using hi m4(1) big by (simp add: addr_nat)
    let ?f = "ctrl_fill E (ctrl_asm (EmuArch E)) 4 hi k (mapAddr s) e'"
    have fits: "unat (mapAddr s) + k * unat (4 :: u64) < 2 ^ 64" using m4(1) big by simp
    have hik: "unat hi = unat (mapAddr s) + k * unat (4 :: u64)" using hi by simp
    note f = ctrl_fill_slots [OF fits _ hik, of E "ctrl_asm (EmuArch E)" e', simplified]
    obtain q e2 where q: "?f = (q, e2)" by (cases ?f)
    let ?s = "s\<lparr>mapAddr := mapAddr s + ?n, maps := mapStore (mapAddr s) ?n (maps s)\<rparr>"
    have al: "allocCtrlAddrs E h s e = Ret None
        (h\<lparr>hm_releases := hm_releases h @ [FreeMap (mapAddr s) ?n],
           ctrlAddrs := ctrlAddrs h @ [\<lparr>ch_cap = length q, ch_buf = q\<rparr>],
           ctrlRange := ctrlRange h @ [(mapAddr s, hi + 4)]\<rparr>, ?s, e2)"
      using m q f by (simp add: allocCtrlAddrs_def ctrl_asm_4 [OF assms(1)] Let_def hi_def [symmetric] k_def [symmetric])
    have sl: "snd a = fst a + 4 \<and> unat (mapAddr s) \<le> unat (fst a) \<and>
         unat (fst a) + 4 \<le> unat (mapAddr ?s) \<and> unat (fst a) + 8 < 2 ^ 64 \<and>
         mapAddr s < snd a \<and> snd a \<le> hi + 4" if "a \<in> set q" for a
    proof -
      have a: "snd a = fst a + 4" "unat (mapAddr s) \<le> unat (fst a)" "unat (fst a) + 4 \<le> unat hi"
        using f q that by auto
      moreover from a have "unat (fst a + 4) = unat (fst a) + 4" using hi m4(1) big by (simp add: addr_nat)
      ultimately show ?thesis using hi hi4 m4(1) big ar(2) by (simp add: word_less_nat_alt word_le_nat_alt)
    qed
    have "1 < k" using n k by simp
    then have q2: "1 < length q" "distinct q" using f q by (auto simp: distinct_map)
    have up: "unat (mapAddr s) \<le> unat (mapAddr ?s)" using ar(2) by simp
    show ?thesis
      by (intro disjI2 exI conjI ballI) (rule al q2 up | drule sl, elim conjE, assumption)+
  qed
qed

lemma slot_ok_ctrlAddrs [simp]: "slot_ok (h\<lparr>ctrlAddrs := cs\<rparr>) = slot_ok h"
  by (simp add: slot_ok_def isControl_def fun_eq_iff)

text \<open>The slots \<open>M\<close> are out.\<close>

definition pool_core :: "slot multiset \<Rightarrow> hook_mgr \<Rightarrow> mem_state \<Rightarrow> bool" where
  "pool_core M h s \<longleftrightarrow> ctrl_pool.accounted M (ctrlAddrs h) \<and>
     (\<forall>a \<in># M + ch_items (ctrlAddrs h). slot_ok h s a)"

text \<open>What allocating and freeing a control address leaves alone\<close>

definition same_hooks :: "hook_mgr \<Rightarrow> hook_mgr \<Rightarrow> bool" where
  "same_hooks h h' \<longleftrightarrow> hooks h' = hooks h \<and> ctrls h' = ctrls h \<and> intrHooks h' = intrHooks h"

lemma pool_core_mono:
  "pool_core M h s \<Longrightarrow> unat (mapAddr s) \<le> unat (mapAddr s') \<Longrightarrow> pool_core M h s'"
  using slot_ok_mono [of h s _ h s'] unfolding pool_core_def by blast

lemma pool_take:
  assumes "pool_core M h s" and "chans_recv (ctrlAddrs h) = Some (a, cs)"
  shows "pool_core (add_mset a M) (h\<lparr>ctrlAddrs := cs\<rparr>) s" and "a \<notin># M"
proof -
  have acc: "ctrl_pool.accounted M (ctrlAddrs h)" using assms(1) by (simp add: pool_core_def)
  note t = ctrl_pool.accounted_take [OF acc assms(2)]
  show "a \<notin># M" by (rule t(2))
  have "slot_ok (h\<lparr>ctrlAddrs := cs\<rparr>) s b" if "b \<in># add_mset a M + ch_items cs" for b
    using that assms(1) unfolding t(3) pool_core_def by simp
  with t(1) show "pool_core (add_mset a M) (h\<lparr>ctrlAddrs := cs\<rparr>) s" by (simp add: pool_core_def)
qed

lemma pool_give:
  assumes "pool_core (add_mset a M) h s"
  shows "pool_core M (ctrlAddrFree a h) s"
proof -
  have acc: "ctrl_pool.accounted (add_mset a M) (ctrlAddrs h)" using assms by (simp add: pool_core_def)
  note g = ctrl_pool.accounted_give [OF acc]
  have "slot_ok (ctrlAddrFree a h) s b" if "b \<in># M + ch_items (chans_send a (ctrlAddrs h))" for b
    using that assms unfolding g(2) pool_core_def by (auto simp: ctrlAddrFree_def)
  with g(1) show ?thesis by (simp add: pool_core_def ctrlAddrFree_def)
qed

lemma pool_extend:
  fixes rs :: "mgr_release list"
  assumes "pool_core M h s" and e: "ch_items (ctrlAddrs h) = {#}" and "distinct q"
    and up: "unat (mapAddr s) \<le> unat (mapAddr s')"
    and q: "\<forall>a \<in> set q. snd a = fst a + 4 \<and> unat (mapAddr s) \<le> unat (fst a) \<and>
         unat (fst a) + 4 \<le> unat (mapAddr s') \<and> unat (fst a) + 8 < 2 ^ 64 \<and> lo < snd a \<and> snd a \<le> hi"
  defines "h1 \<equiv> h\<lparr>hm_releases := rs, ctrlAddrs := ctrlAddrs h @ [\<lparr>ch_cap = length q, ch_buf = q\<rparr>],
           ctrlRange := ctrlRange h @ [(lo, hi)]\<rparr>"
  shows "pool_core M h1 s'"
proof -
  have acc: "ch_ok (ctrlAddrs h)" "size M \<le> ch_room (ctrlAddrs h)" "\<forall>a. count M a \<le> 1"
    using assms(1) e by (simp_all add: pool_core_def ctrl_pool.accounted_def)
  have old: "slot_ok h s a" if "a \<in># M" for a using assms(1) that by (simp add: pool_core_def)
  have i: "ch_items (ctrlAddrs h1) = mset q" using e by (simp add: h1_def ch_append)
  have "count (M + mset q) a \<le> 1" for a
  proof (cases "a \<in># M")
    case True
    then have "a \<notin> set q" using old [OF True] q by (fastforce simp: slot_ok_def)
    then have "count (mset q) a = 0" by simp
    with acc(3) [rule_format, of a] show ?thesis unfolding count_union by linarith
  next
    case False
    then have "count M a = 0" by (simp only: not_in_iff)
    moreover have "count (mset q) a \<le> 1" using assms(3) unfolding distinct_count_atmost_1 by (metis le_refl zero_le)
    ultimately show ?thesis unfolding count_union by linarith
  qed
  then have "ctrl_pool.accounted M (ctrlAddrs h1)"
    using acc i by (simp add: ctrl_pool.accounted_def h1_def ch_append)
  moreover have "slot_ok h1 s' a" if "a \<in># M" for a
    by (rule slot_ok_mono [OF old [OF that] _ up]) (auto simp: h1_def)
  moreover have "slot_ok h1 s' a" if "a \<in> set q" for a
    using q that by (auto simp: slot_ok_def isControl_def h1_def)
  ultimately show ?thesis using i by (auto simp: pool_core_def)
qed

lemma ctrlAddrAlloc_ok:
  assumes core: "pool_core M h s" and E: "ctrl_emu E" "ctrl_room E s"
  shows "\<exists>r h' s' e'. ctrlAddrAlloc E h s e = Some (Ret r (h', s', e')) \<and> same_hooks h h' \<and>
    unat (mapAddr s) \<le> unat (mapAddr s') \<and>
    (case r of Inl err \<Rightarrow> pool_core M h' s' | Inr a \<Rightarrow> a \<notin># M \<and> pool_core (add_mset a M) h' s')"
proof (cases "chans_recv (ctrlAddrs h)")
  case (Some p)
  obtain a cs where p: "p = (a, cs)" by (cases p)
  with Some have "ctrlAddrAlloc E h s e = Some (Ret (Inr a) (h\<lparr>ctrlAddrs := cs\<rparr>, s, e))"
    by (subst ctrlAddrAlloc.simps) simp
  with pool_take [OF core] Some p show ?thesis by (auto simp: same_hooks_def)
next
  case None
  then have items: "ch_items (ctrlAddrs h) = {#}" by (simp add: chans_recv_none)
  from allocCtrlAddrs_cases [OF E, of h e] show ?thesis
  proof (elim disjE exE conjE)
    fix err s' e' assume a: "allocCtrlAddrs E h s e = Ret (Some err) (h, s', e')"
      and up: "unat (mapAddr s) \<le> unat (mapAddr s')"
    have "ctrlAddrAlloc E h s e = Some (Ret (Inl err) (h, s', e'))"
      using None a by (subst ctrlAddrAlloc.simps) simp
    with up pool_core_mono [OF core up] show ?thesis by (auto simp: same_hooks_def)
  next
    fix rs q hi s' e'
    let ?h = "h\<lparr>hm_releases := rs, ctrlAddrs := ctrlAddrs h @ [\<lparr>ch_cap = length q, ch_buf = q\<rparr>],
           ctrlRange := ctrlRange h @ [(mapAddr s, hi)]\<rparr>"
    assume a: "allocCtrlAddrs E h s e = Ret None (?h, s', e')" and ne: "1 < length q" and d: "distinct q"
      and up: "unat (mapAddr s) \<le> unat (mapAddr s')"
      and q: "\<forall>a \<in> set q. snd a = fst a + 4 \<and> unat (mapAddr s) \<le> unat (fst a) \<and>
         unat (fst a) + 4 \<le> unat (mapAddr s') \<and> unat (fst a) + 8 < 2 ^ 64 \<and> mapAddr s < snd a \<and> snd a \<le> hi"
    have core1: "pool_core M ?h s'" by (rule pool_extend [OF core items d up q])
    have "q \<noteq> []" using ne by auto
    then have "chans_recv (ctrlAddrs ?h) \<noteq> None" by (simp add: chans_recv_none ch_append)
    then obtain b cs where r: "chans_recv (ctrlAddrs ?h) = Some (b, cs)" by force
    then have "ctrlAddrAlloc E ?h s' e' = Some (Ret (Inr b) (?h\<lparr>ctrlAddrs := cs\<rparr>, s', e'))"
      by (subst ctrlAddrAlloc.simps) simp
    moreover have "ctrlAddrAlloc E h s e = ctrlAddrAlloc E ?h s' e'"
      using None a by (subst ctrlAddrAlloc.simps) simp
    ultimately have "ctrlAddrAlloc E h s e = Some (Ret (Inr b) (?h\<lparr>ctrlAddrs := cs\<rparr>, s', e'))" by simp
    with pool_take [OF core1 r] up show ?thesis
      by (intro exI [of _ "Inr b"] exI [of _ "?h\<lparr>ctrlAddrs := cs\<rparr>"] exI [of _ s'] exI [of _ e'])
         (simp add: same_hooks_def)
  qed
qed

lemma addControl_eq:
  fixes data cb :: nat
  assumes "ctrlAddrAlloc E h s e = Some (Ret (Inr a) (h1, s1, e1))"
  defines "i \<equiv> length (hooks h1)" and "c \<equiv> length (ctrls h1)"
  defines "k \<equiv> \<lparr>hk_releases = [DelIntr i], hk_typ = HOOK_TYPE_INTR, hk_callback = CtrlCb c, hk_data = data,
                 hk_begin = snd a, hk_end = snd a + 1\<rparr>"
  defines "ct \<equiv> \<lparr>ct_releases = [FreeCtrl a, CloseHook i], ct_addr = a, ct_callback = cb\<rparr>"
  shows "addControl E cb data h s e = Some (Ret (Inr c)
    (h1\<lparr>hooks := hooks h1 @ [k], intrHooks := intrHooks h1 @ [i], ctrls := ctrls h1 @ [ct]\<rparr>, s1, e1))"
  using assms(1)
  by (simp add: addControl_def addHook_def add_intr_def add_defs i_def c_def k_def ct_def)

lemma inv_same:
  assumes inv: "ctl_inv L h s" and "same_hooks h h'" and "pool_core (live_slots h L) h' s'"
  shows "ctl_inv L h' s'"
proof -
  have b: "bound h' = bound h" using assms(2) by (simp add: same_hooks_def bound_def fun_eq_iff)
  have o: "own h' = own h" "live_slots h' L = live_slots h L"
    using assms(2) by (simp_all add: same_hooks_def own_def live_slots_def)
  show ?thesis
    using ctl_invD(1-5,8-10) [OF inv] assms(2,3) b o
    unfolding ctl_inv_def pool_core_def same_hooks_def by simp
qed

lemma inv_bind:
  assumes inv: "ctl_inv L h s" and same: "same_hooks h h1" and core: "pool_core (add_mset a (live_slots h L)) h1 s1"
  defines "i \<equiv> length (hooks h1)" and "c \<equiv> length (ctrls h1)"
  assumes k: "hk_releases k = [DelIntr i]" "hk_typ k = HOOK_TYPE_INTR" "hk_callback k = CtrlCb c"
    "hk_begin k = snd a" "hk_end k = snd a + 1"
    and ct: "ct_releases ct = [FreeCtrl a, CloseHook i]" "ct_addr ct = a"
  shows "ctl_inv (c # L)
    (h1\<lparr>hooks := hooks h1 @ [k], intrHooks := intrHooks h1 @ [i], ctrls := ctrls h1 @ [ct]\<rparr>) s1"
proof -
  let ?h = "h1\<lparr>hooks := hooks h1 @ [k], intrHooks := intrHooks h1 @ [i], ctrls := ctrls h1 @ [ct]\<rparr>"
  note D = ctl_invD [OF inv] and sm = same [unfolded same_hooks_def]
  have cl: "c = length (ctrls h)" and il: "i = length (hooks h)" using sm by (simp_all add: c_def i_def)
  have new: "c \<notin> set L" "i \<notin> set (intrHooks h)" using D(3) [of i] D(5) [of c] cl il by auto
  have bold: "bound ?h b j" if "bound h b j" "b \<in> set L" for b j
    using that sm D(3) [of j] D(5) [of b] by (auto simp: bound_def nth_append)
  have bnew: "bound ?h c i" using k ct sm by (simp add: bound_def nth_append i_def c_def)
  have "own ?h"
    using own_snoc [of h k ?h] D(1) k(1) sm il by simp
  moreover have "distinct (intrHooks ?h)" "\<forall>j \<in> set (intrHooks ?h). j < length (hooks ?h)"
    using D(2,3) new sm il by (auto simp: less_SucI)
  moreover have "distinct (c # L)" "\<forall>b \<in> set (c # L). b < length (ctrls ?h)"
    using D(4,5) new sm cl by (auto simp: less_SucI)
  moreover have "live_slots ?h (c # L) = add_mset a (live_slots h L)"
  proof -
    have "live_slots ?h L = live_slots h L"
      using D(5) sm by (intro live_slots_cong) (simp add: nth_append)
    then show ?thesis using ct(2) by (simp add: live_slots_def c_def)
  qed
  moreover have "ctrl_pool.accounted (add_mset a (live_slots h L)) (ctrlAddrs ?h)"
    "\<forall>b \<in># add_mset a (live_slots h L) + ch_items (ctrlAddrs ?h). slot_ok ?h s1 b"
  proof -
    have sc: "slot_ok ?h s1 = slot_ok h1 s1" by (simp add: slot_ok_def isControl_def fun_eq_iff)
    show "ctrl_pool.accounted (add_mset a (live_slots h L)) (ctrlAddrs ?h)"
      "\<forall>b \<in># add_mset a (live_slots h L) + ch_items (ctrlAddrs ?h). slot_ok ?h s1 b"
      unfolding sc using core by (simp_all add: pool_core_def)
  qed
  moreover have "\<exists>j. bound ?h b j" if "b \<in> set (c # L)" for b
    using that D(8) bold bnew by (metis set_ConsD)
  moreover have "b \<in> set (c # L) \<and> bound ?h b j"
    if "j \<in> set (intrHooks ?h)" "hk_callback (hooks ?h ! j) = CtrlCb b" for j b
  proof (cases "j = i")
    case True
    with that(2) k(3) bnew show ?thesis by (simp add: i_def)
  next
    case False
    with that sm have j: "j \<in> set (intrHooks h)" by auto
    with that(2) D(3) [OF j] sm have "hk_callback (hooks h ! j) = CtrlCb b" by (simp add: nth_append)
    with D(9,10) [OF j] bold show ?thesis by auto
  qed
  ultimately show ?thesis unfolding ctl_inv_def by auto
qed

lemma inv_ctrl:
  assumes inv: "ctl_inv L h s" and E: "ctrl_emu E" "ctrl_room E s"
  shows "\<exists>r h' s' e'. addControl E cb data h s e = Some (Ret r (h', s', e')) \<and>
    (case r of Inl err \<Rightarrow> ctl_inv L h' s' | Inr c \<Rightarrow> c = length (ctrls h) \<and> ctl_inv (c # L) h' s')"
proof -
  have core: "pool_core (live_slots h L) h s" using inv by (simp add: ctl_inv_def pool_core_def)
  obtain r h1 s1 e1 where a: "ctrlAddrAlloc E h s e = Some (Ret r (h1, s1, e1))" "same_hooks h h1"
    "case r of Inl err \<Rightarrow> pool_core (live_slots h L) h1 s1
     | Inr a \<Rightarrow> a \<notin># live_slots h L \<and> pool_core (add_mset a (live_slots h L)) h1 s1"
    using ctrlAddrAlloc_ok [OF core E, of e] by blast
  show ?thesis
  proof (cases r)
    case (Inl err)
    with a(1) have "addControl E cb data h s e = Some (Ret (Inl err) (h1, s1, e1))" by (simp add: addControl_def)
    with inv_same [OF inv a(2)] a(3) Inl show ?thesis by auto
  next
    case (Inr x)
    with a(3) have core1: "pool_core (add_mset x (live_slots h L)) h1 s1" by simp
    note ac = addControl_eq [OF a(1) [unfolded Inr], of cb data]
    have "length (ctrls h1) = length (ctrls h)" using a(2) by (simp add: same_hooks_def)
    with ac inv_bind [OF inv a(2) core1] show ?thesis by auto
  qed
qed

lemma inv_release:
  assumes inv: "ctl_inv L h s" and c: "c \<in> set L" and cl: "ctrl_Close E c (h, e) = (h', e')"
  shows "ctl_inv (remove1 c L) h' s"
proof -
  note D = ctl_invD [OF inv]
  obtain i where i: "bound h c i" using D(8) [OF c] by blast
  let ?a = "ct_addr (ctrls h ! c)"
  obtain h1 e1 where h1: "hook_Close E i (h, e) = (h1, e1)" by (cases "hook_Close E i (h, e)")
  have h': "h' = ctrlAddrFree ?a h1"
    using cl i h1 by (simp add: ctrl_Close_def bound_def run_ctrl_release_def)
  have il: "i < length (hooks h)" using i D(3) by (simp add: bound_def)
  note f = hook_Close_frame [OF D(1) il h1]
  have gone: "set (intrHooks h1) = set (intrHooks h) - {i}"
    using f i by (auto simp: bound_def)
  have ls: "live_slots h L = add_mset ?a (live_slots h (remove1 c L))"
  proof -
    have m: "mset L = add_mset c (mset (remove1 c L))" using c by simp
    show ?thesis unfolding live_slots_def mset_map m by simp
  qed
  have lc: "live_slots h1 (remove1 c L) = live_slots h (remove1 c L)" using f by (simp add: live_slots_def)
  have "pool_core (add_mset ?a (live_slots h (remove1 c L))) h1 s"
    using D(6,7) f slot_ok_cong [of h1 h] unfolding pool_core_def ls by auto
  from pool_give [OF this] have core: "pool_core (live_slots h (remove1 c L)) h' s" by (simp add: h')
  have rest: "j \<noteq> i \<and> bound h1 b j" if "b \<noteq> c" "bound h b j" for b j
  proof -
    have "j \<noteq> i" using that i by (auto simp: bound_def)
    then have "hooks h1 ! j = hooks h ! j" using f by simp
    with that(2) f \<open>j \<noteq> i\<close> show ?thesis by (auto simp: bound_def)
  qed
  have bh: "bound h' = bound h1" by (simp add: h' bound_def ctrlAddrFree_def fun_eq_iff)
  have cb: "b \<in> set (remove1 c L) \<and> bound h1 b j"
    if "j \<in> set (intrHooks h1)" "hk_callback (hooks h1 ! j) = CtrlCb b" for j b
  proof -
    have j: "j \<in> set (intrHooks h)" "j \<noteq> i" using that gone by auto
    then have "hk_callback (hooks h ! j) = CtrlCb b" using that(2) f by simp
    with D(9,10) [OF j(1)] have b: "b \<in> set L" "bound h b j" by auto
    have "b \<noteq> c"
    proof
      assume "b = c"
      with b(2) i have "[FreeCtrl ?a, CloseHook j] = [FreeCtrl ?a, CloseHook i]" by (simp add: bound_def)
      with j(2) show False by simp
    qed
    with b rest D(4) show ?thesis by simp
  qed
  have "\<exists>j. bound h1 b j" if "b \<in> set (remove1 c L)" for b
    using that D(4,8) rest [of b] by fastforce
  then show ?thesis
    using D(3-5) f cb core lc bh gone i D(2) unfolding ctl_inv_def pool_core_def
    by (auto simp: h' ctrlAddrFree_def own_def live_slots_def)
qed

end
