(* ===== verification/HookProps.thy ===== *)
theory HookProps
  imports HookInv MemProps
begin

text \<open>
  Runs of the hook manager together with the memory manager, and what they guarantee: every open
  control has an address of its own, and the interrupt raised there reaches its callback and no
  other.
\<close>

section \<open>Runs\<close>

lemma memAlloc_mapAddr:
  assumes "emu_paged E" and "room E n s" and "memAlloc E n s e = Some (r, s', e')"
  shows "unat (mapAddr s) \<le> unat (mapAddr s')"
  using mapAlloc_cases [OF assms(1,2), of "MEM_PROT_READ OR MEM_PROT_WRITE" e] Align_room(2) [OF assms(1,2)] assms(3)
  by (auto simp: memAlloc_def Let_def split: if_splits option.splits prod.splits sum.splits)

lemma memFree_mapAddr: "memFree a s = Some (Ret r s') \<or> memFree a s = Some (Panic p s') \<Longrightarrow> mapAddr s' = mapAddr s"
  by (auto simp: memFree_def Let_def split: if_splits option.splits outcome.splits)

lemma mem_step_mapAddr:
  assumes "emu_paged E" and "mem_step E (s, e) op (s', e')"
  shows "unat (mapAddr s) \<le> unat (mapAddr s')"
  using assms(2)
proof (cases rule: mem_step.cases)
  case (st_mapAlloc n prot r)
  with mapAlloc_cases [OF assms(1) st_mapAlloc(2), of prot e] Align_room(2) [OF assms(1) st_mapAlloc(2)]
  show ?thesis by auto
next
  case (st_alloc n r)
  with memAlloc_mapAddr [OF assms(1)] show ?thesis by blast
next
  case (st_free a r)
  with memFree_mapAddr show ?thesis by (metis order_refl)
next
  case (st_free_panic a p)
  with memFree_mapAddr show ?thesis by (metis order_refl)
qed (auto simp: memMap_def memUnmap_def mapFree_def Let_def split: prod.splits option.splits)

text \<open>
  The calls of a run; \<open>L\<close> lists the open controls. A user closes the hooks and controls they hold, each
  control once; new control addresses must fit (\<open>ctrl_room\<close>).
\<close>

inductive hk_step ::
  "'e emulator \<Rightarrow> nat list \<times> hook_mgr \<times> mem_state \<times> 'e \<Rightarrow> nat list \<times> hook_mgr \<times> mem_state \<times> 'e \<Rightarrow> bool"
  for E :: "'e emulator" where
  hs_add: "user_cb cb \<Longrightarrow> addHook E typ cb data b en h e = (r, h', e') \<Longrightarrow>
    hk_step E (L, h, s, e) (L, h', s, e')"
| hs_close: "i < length (hooks h) \<Longrightarrow> user_cb (hk_callback (hooks h ! i)) \<Longrightarrow>
    hook_Close E i (h, e) = (h', e') \<Longrightarrow> hk_step E (L, h, s, e) (L, h', s, e')"
| hs_ctrl: "ctrl_room E s \<Longrightarrow> addControl E cb data h s e = Some (Ret (Inr c) (h', s', e')) \<Longrightarrow>
    hk_step E (L, h, s, e) (c # L, h', s', e')"
| hs_ctrl_err: "ctrl_room E s \<Longrightarrow> addControl E cb data h s e = Some (Ret (Inl err) (h', s', e')) \<Longrightarrow>
    hk_step E (L, h, s, e) (L, h', s', e')"
| hs_release: "c \<in> set L \<Longrightarrow> ctrl_Close E c (h, e) = (h', e') \<Longrightarrow>
    hk_step E (L, h, s, e) (remove1 c L, h', s, e')"
| hs_mem: "mem_step E (s, e) op (s', e') \<Longrightarrow> hk_step E (L, h, s, e) (L, h, s', e')"

inductive hk_reach :: "'e emulator \<Rightarrow> 'e \<Rightarrow> nat list \<times> hook_mgr \<times> mem_state \<times> 'e \<Rightarrow> bool"
  for E :: "'e emulator" and e0 :: 'e where
  hr_start: "hook_ctor E hook_mgr0 e0 = (h, e) \<Longrightarrow> hk_reach E e0 ([], h, mem_ctor, e)"
| hr_step: "hk_reach E e0 c \<Longrightarrow> hk_step E c c' \<Longrightarrow> hk_reach E e0 c'"

lemma root_hook_frame: "root_hook E typ (h, e) = (h', e') \<Longrightarrow>
    \<exists>rs. h' = h\<lparr>hm_releases := rs\<rparr>"
  by (auto simp: root_hook_def split: prod.splits sum.splits) (metis hook_mgr.surjective hook_mgr.update_convs(1))

lemma hook_ctor_frame: "hook_ctor E hook_mgr0 e0 = (h, e) \<Longrightarrow> \<exists>rs. h = hook_mgr0\<lparr>hm_releases := rs\<rparr>"
  by (cases "root_hook E HOOK_TYPE_INTR (hook_mgr0, e0)";
      cases "root_hook E HOOK_TYPE_INSN_INVALID (root_hook E HOOK_TYPE_INTR (hook_mgr0, e0))")
     (auto simp: hook_ctor_def dest!: root_hook_frame)

lemma hk_reach_inv:
  "hk_reach E e0 c \<Longrightarrow> ctrl_emu E \<Longrightarrow> (case c of (L, h, s, e) \<Rightarrow> ctl_inv L h s)"
proof (induction rule: hk_reach.induct)
  case (hr_start h e)
  then obtain rs where "h = hook_mgr0\<lparr>hm_releases := rs\<rparr>" using hook_ctor_frame [OF hr_start(1)] by blast
  then show ?case
    by (simp add: ctl_inv_def hook_mgr0_def own_def live_slots_def ctrl_pool.accounted_def)
next
  case (hr_step c c')
  obtain L h s e where c: "c = (L, h, s, e)" by (cases c)
  have inv: "ctl_inv L h s" using hr_step c by simp
  show ?case
    using hr_step(2) unfolding c
  proof (cases rule: hk_step.cases)
    case (hs_add cb ty dt b en r h' e')
    then show ?thesis
      using inv_add [OF inv _ addHook_frame [OF ctl_invD(1) [OF inv]]] by fastforce
  next
    case (hs_close i h' e')
    then show ?thesis using inv_close [OF inv] by fastforce
  next
    case (hs_ctrl cb data x h' s' e')
    then show ?thesis using inv_ctrl [OF inv hr_step(4) hs_ctrl(2), of cb data e] by auto
  next
    case (hs_ctrl_err cb data err h' s' e')
    then show ?thesis using inv_ctrl [OF inv hr_step(4) hs_ctrl_err(2), of cb data e] by auto
  next
    case (hs_release x h' e')
    then show ?thesis using inv_release [OF inv] by fastforce
  next
    case (hs_mem op s' e')
    then show ?thesis
      using inv_mem [OF inv] mem_step_mapAddr hr_step(4) by (fastforce simp: ctrl_emu_def)
  qed
qed

lemmas hk_reach_ctl = hk_reach_inv [where c = "(L, h, s, e)" for L h s e, unfolded prod.case]

section \<open>A run\<close>

lemma E0_ctrl: "ctrl_emu E0"
  using sample_paged by (simp add: ctrl_emu_def E0_def) (simp add: sample_emu_def)

text \<open>The hook manager and the emulator after the constructor, and two controls added.\<close>

definition hk0 :: "hook_mgr \<times> semu" where
  "hk0 = hook_ctor E0 hook_mgr0 semu0"

lemma hk0_reach: "hk_reach E0 semu0 ([], fst hk0, mem_ctor, snd hk0)"
  by (rule hr_start) (simp add: hk0_def)

lemma hk0_fields: "hooks (fst hk0) = []" "intrHooks (fst hk0) = []" "ctrls (fst hk0) = []" "ctrlAddrs (fst hk0) = []" "s_tab (snd hk0) = []"
  by (simp_all add: hk0_def hook_ctor_def root_hook_def E0_def sample_emu_def hook_mgr0_def semu0_def)

lemma hk0_alloc:
  "\<exists>rs q hi s e. allocCtrlAddrs E0 (fst hk0) mem_ctor (snd hk0) = Ret None
     ((fst hk0)\<lparr>hm_releases := rs, ctrlAddrs := [\<lparr>ch_cap = length q, ch_buf = q\<rparr>],
        ctrlRange := ctrlRange (fst hk0) @ [(0x400000, hi)]\<rparr>, s, e) \<and> 1 < length q"
proof -
  have room: "ctrl_room E0 mem_ctor" by (simp add: ctrl_room_def room_def mem_ctor_def)
  have "\<exists>r s' e'. mapAlloc E0 0x1000 MEM_PROT_EXEC mem_ctor (snd hk0) = (Inr r, s', e')"
    by (simp add: mgr_simps emu_simps E0_def hk0_fields flip: hk0_def)
  then have "\<nexists>err st. allocCtrlAddrs E0 (fst hk0) mem_ctor (snd hk0) = Ret (Some err) st"
    by (auto simp: allocCtrlAddrs_def Let_def split: prod.splits if_splits)
  with allocCtrlAddrs_cases [OF E0_ctrl room, of "fst hk0" "snd hk0"]
  obtain rs q hi s e where a: "allocCtrlAddrs E0 (fst hk0) mem_ctor (snd hk0) = Ret None
     ((fst hk0)\<lparr>hm_releases := rs, ctrlAddrs := ctrlAddrs (fst hk0) @ [\<lparr>ch_cap = length q, ch_buf = q\<rparr>],
        ctrlRange := ctrlRange (fst hk0) @ [(mapAddr mem_ctor, hi)]\<rparr>, s, e)" and q: "1 < length q"
    by blast
  have "mapAddr mem_ctor = 0x400000" by (simp add: mem_ctor_def)
  with q show ?thesis by (intro exI conjI, subst a) (simp_all add: hk0_fields)
qed

lemma ctrl_room_fst:
  assumes "allocCtrlAddrs E0 (fst hk0) mem_ctor (snd hk0) = Ret None (h, s, e)"
  shows "ctrl_room E0 s"
proof -
  have "mapAddr s = 0x401000"
    using assms by (auto simp: allocCtrlAddrs_def Let_def mapAlloc_def mem_ctor_def split: prod.splits option.splits if_splits)
  then show ?thesis by (simp add: ctrl_room_def room_def)
qed

lemma run2_ex:
  "\<exists>h s e. hk_reach E0 semu0 ([1, 0], h, s, e) \<and> ct_callback (ctrls h ! 0) = 7 \<and>
     (\<forall>i \<in> set (intrHooks h). \<not> user_cb (hk_callback (hooks h ! i)))"
proof -
  obtain rs q hi s e where al: "allocCtrlAddrs E0 (fst hk0) mem_ctor (snd hk0) = Ret None
     ((fst hk0)\<lparr>hm_releases := rs, ctrlAddrs := [\<lparr>ch_cap = length q, ch_buf = q\<rparr>],
        ctrlRange := ctrlRange (fst hk0) @ [(0x400000, hi)]\<rparr>, s, e)" and q: "1 < length q"
    using hk0_alloc by blast
  then obtain a b q' where q': "q = a # b # q'" by (cases q; cases "tl q") auto
  have m: "mapAddr mem_ctor = 0x400000" by (simp add: mem_ctor_def)
  have room: "ctrl_room E0 mem_ctor" by (simp add: ctrl_room_def room_def mem_ctor_def)
  let ?h = "(fst hk0)\<lparr>hm_releases := rs, ctrlAddrs := [\<lparr>ch_cap = length q, ch_buf = q\<rparr>],
        ctrlRange := ctrlRange (fst hk0) @ [(0x400000, hi)]\<rparr>"
  let ?h1 = "?h\<lparr>ctrlAddrs := [\<lparr>ch_cap = length q, ch_buf = b # q'\<rparr>]\<rparr>"
  have "ctrlAddrAlloc E0 ?h s e = Some (Ret (Inr a) (?h1, s, e))"
    by (subst ctrlAddrAlloc.simps) (simp add: q')
  then have "ctrlAddrAlloc E0 (fst hk0) mem_ctor (snd hk0) = Some (Ret (Inr a) (?h1, s, e))"
    using al by (subst ctrlAddrAlloc.simps) (simp add: hk0_fields)
  note a1 = addControl_eq [OF this, of 7 0]
  obtain h2 where h2: "addControl E0 7 0 (fst hk0) mem_ctor (snd hk0) = Some (Ret (Inr 0) (h2, s, e))"
    "ctrlAddrs h2 = [\<lparr>ch_cap = length q, ch_buf = b # q'\<rparr>]" "length (ctrls h2) = 1" "ct_callback (ctrls h2 ! 0) = 7"
    "map hk_callback (hooks h2) = [CtrlCb 0]" "intrHooks h2 = [0]"
    using a1 by (simp add: hk0_fields)
  have r2: "hk_reach E0 semu0 ([0], h2, s, e)" by (rule hr_step [OF hk0_reach hs_ctrl [OF room h2(1)]])
  have "ctrlAddrAlloc E0 h2 s e = Some (Ret (Inr b) (h2\<lparr>ctrlAddrs := [\<lparr>ch_cap = length q, ch_buf = q'\<rparr>]\<rparr>, s, e))"
    by (subst ctrlAddrAlloc.simps) (simp add: h2)
  note a2 = addControl_eq [OF this, of 8 0]
  obtain h3 where h3: "addControl E0 8 0 h2 s e = Some (Ret (Inr 1) (h3, s, e))" "ct_callback (ctrls h3 ! 0) = 7"
    "map hk_callback (hooks h3) = [CtrlCb 0, CtrlCb 1]" "intrHooks h3 = [0, 1]"
    using a2 h2(3-6) by (auto simp: nth_append)
  have "length (hooks h3) = 2" "hk_callback (hooks h3 ! 0) = CtrlCb 0" "hk_callback (hooks h3 ! 1) = CtrlCb 1"
    using arg_cong [OF h3(3), of length] arg_cong [OF h3(3), of "\<lambda>xs. xs ! 0"] arg_cong [OF h3(3), of "\<lambda>xs. xs ! 1"]
    by auto
  then have u: "\<forall>i \<in> set (intrHooks h3). \<not> user_cb (hk_callback (hooks h3 ! i))"
    using h3(4) by (auto simp: user_cb_def)
  have "ctrl_room E0 s"
    using ctrl_room_fst [OF al] .
  from hr_step [OF r2 hs_ctrl [OF this h3(1)]] h3(2) u show ?thesis by auto
qed

section \<open>Dispatch\<close>

lemma dispatch_unique:
  assumes "i \<in> set js" and "valid i" and "\<And>j. j \<in> set js \<Longrightarrow> valid j \<Longrightarrow> j = i"
    and "run i w = (HookResult_Done, w')"
  shows "dispatch valid run js r w = (HookResult_Done, w')"
  using assms(1,3)
proof (induction js arbitrary: r)
  case (Cons j js)
  then show ?case
  proof (cases "valid j")
    case True
    have "j = i" by (rule Cons.prems(2) [OF _ True]) simp
    with assms(2,4) show ?thesis by simp
  next
    case False
    then have "i \<in> set js" using Cons.prems(1) assms(2) by auto
    then have "dispatch valid run js r w = (HookResult_Done, w')"
      by (rule Cons.IH) (rule Cons.prems(2), simp_all)
    with False show ?thesis by simp
  qed
qed simp

lemma dispatch_stops:
  assumes "valid i" and "\<And>w. fst (run i w) = HookResult_Done"
  shows "dispatch valid run (pre @ i # post) r w = dispatch valid run (pre @ [i]) r w \<and>
    fst (dispatch valid run (pre @ [i]) r w) = HookResult_Done"
proof (induction pre arbitrary: r w)
  case Nil
  obtain r' w' where "run i w = (r', w')" by (cases "run i w")
  with assms(2) [of w] assms(1) show ?case by simp
next
  case (Cons j pre)
  obtain r' w' where "run j w = (r', w')" by (cases "run j w")
  with Cons show ?case by simp
qed

lemma bound_valid:
  assumes "bound h c i" and "slot_ok h s (ct_addr (ctrls h ! c))"
  shows "hook_valid (hooks h ! i) HOOK_TYPE_INTR pc True \<longleftrightarrow> pc = snd (ct_addr (ctrls h ! c))"
proof -
  let ?a = "ct_addr (ctrls h ! c)"
  have k: "hk_typ (hooks h ! i) = HOOK_TYPE_INTR" "hk_begin (hooks h ! i) = snd ?a" "hk_end (hooks h ! i) = snd ?a + 1"
    using assms(1) by (simp_all add: bound_def)
  have f: "unat (fst ?a) + 8 < 2 ^ 64" "snd ?a = fst ?a + 4" using assms(2) by (simp_all add: slot_ok_def)
  then have "unat (snd ?a) = unat (fst ?a) + 4" by (simp add: addr_nat)
  with f have "unat (snd ?a + 1) = unat (snd ?a) + 1" by (simp add: addr_nat)
  moreover have "HOOK_TYPE_INTR AND HOOK_TYPE_INTR \<noteq> 0" by (simp add: HOOK_TYPE_INTR_def)
  ultimately show ?thesis
    by (auto simp: hook_valid_def k word_less_nat_alt word_le_nat_alt word_eq_nat)
qed

lemma slot_distinct:
  assumes inv: "ctl_inv L h s" and "c \<in> set L" and "d \<in> set L" and "c \<noteq> d"
  shows "ct_addr (ctrls h ! c) \<noteq> ct_addr (ctrls h ! d)"
proof
  assume eq: "ct_addr (ctrls h ! c) = ct_addr (ctrls h ! d)"
  note D = ctl_invD [OF inv]
  obtain A where A: "mset L = add_mset c A" using multi_member_split [of c "mset L"] assms(2) by auto
  have "d \<in># mset L" using assms(3) by simp
  then have "d \<in># A" unfolding A using assms(4) by simp
  then obtain B where B: "A = add_mset d B" by (metis multi_member_split)
  have "live_slots h L = {#ct_addr (ctrls h ! c), ct_addr (ctrls h ! d)#} +
      image_mset (\<lambda>c. ct_addr (ctrls h ! c)) B"
    unfolding live_slots_def mset_map A B by simp
  then have "2 \<le> count (live_slots h L) (ct_addr (ctrls h ! c))" using eq by simp
  with ctrl_pool.accounted_once [OF D(6), of "ct_addr (ctrls h ! c)"] show False by simp
qed

lemma control_runs:
  assumes "hk_reach E e0 (L, h, s, e)" and "ctrl_emu E" and "c \<in> set L"
    and "\<forall>i \<in> set (intrHooks h). user_cb (hk_callback (hooks h ! i)) \<longrightarrow>
           \<not> (hk_begin (hooks h ! i) \<le> snd (ct_addr (ctrls h ! c)) \<and>
              snd (ct_addr (ctrls h ! c)) < hk_end (hooks h ! i))"
    and i: "bound h c i"
  shows "handleInterrupt run runc h intno (Inr (snd (ct_addr (ctrls h ! c)))) w =
      (None, runc (ct_callback (ctrls h ! c)) (hk_data (hooks h ! i)) w)"
proof -
  have inv: "ctl_inv L h s" using hk_reach_inv [OF assms(1,2)] by simp
  note D = ctl_invD [OF inv]
  let ?pc = "snd (ct_addr (ctrls h ! c))"
  have sl: "slot_ok h s (ct_addr (ctrls h ! b))" if "b \<in> set L" for b
    using D(7) that by (simp add: live_slots_def)
  have ctrl: "isControl h ?pc" using sl [OF assms(3)] unfolding slot_ok_def by blast
  have only: "j = i" if j: "j \<in> set (intrHooks h)" and v: "hook_valid (hooks h ! j) HOOK_TYPE_INTR ?pc True" for j
  proof (cases "hk_callback (hooks h ! j)")
    case (CtrlCb b)
    note b = D(9,10) [OF j CtrlCb]
    have "?pc = snd (ct_addr (ctrls h ! b))" using bound_valid [OF b(2) sl [OF b(1)]] v by simp
    then have "ct_addr (ctrls h ! c) = ct_addr (ctrls h ! b)"
      using sl [OF b(1)] sl [OF assms(3)] by (simp add: slot_ok_def prod_eq_iff)
    with slot_distinct [OF inv assms(3) b(1)] have "b = c" by blast
    with b(2) i show ?thesis by (auto simp: bound_def)
  qed (use assms(4) j v in \<open>auto simp: hook_valid_def user_cb_def split: if_splits\<close>)
  have v: "hook_valid (hooks h ! i) HOOK_TYPE_INTR ?pc True"
    using bound_valid [OF i sl [OF assms(3)]] by simp
  have m: "i \<in> set (intrHooks h)" and cb: "hk_callback (hooks h ! i) = CtrlCb c" using i by (simp_all add: bound_def)
  have "run_intr run runc h intno i w = (HookResult_Done, runc (ct_callback (ctrls h ! c)) (hk_data (hooks h ! i)) w)"
    by (simp add: run_intr_def cb)
  then have "dispatch (\<lambda>i. hook_valid (hooks h ! i) HOOK_TYPE_INTR ?pc (isControl h ?pc))
      (run_intr run runc h intno) (intrHooks h) HookResult_Next w =
      (HookResult_Done, runc (ct_callback (ctrls h ! c)) (hk_data (hooks h ! i)) w)"
    unfolding eqTrueI [OF ctrl]
    by (intro dispatch_unique [where valid = "\<lambda>i. hook_valid (hooks h ! i) HOOK_TYPE_INTR ?pc True" and i = i] m v only)
  then show ?thesis by (simp add: handleInterrupt_def HookResult_Done_def HookResult_Next_def)
qed

text \<open>C4: In every reachable state, an interrupt raised at the instruction of an open control runs that
  control's callback, exactly once, and no callback of another control, whatever the order in which
  the handlers are visited; the task is not cancelled. Interrupt hooks of the user can only
  intervene when their own range contains the address: hooks without a range are kept away.\<close>

theorem control_dispatch:
  assumes "hk_reach E e0 (L, h, s, e)" and "ctrl_emu E" and "c \<in> set L"
    and "\<forall>i \<in> set (intrHooks h). user_cb (hk_callback (hooks h ! i)) \<longrightarrow>
           \<not> (hk_begin (hooks h ! i) \<le> snd (ct_addr (ctrls h ! c)) \<and>
              snd (ct_addr (ctrls h ! c)) < hk_end (hooks h ! i))"
  shows "\<exists>i. bound h c i \<and>
    handleInterrupt run runc h intno (Inr (snd (ct_addr (ctrls h ! c)))) w =
      (None, runc (ct_callback (ctrls h ! c)) (hk_data (hooks h ! i)) w)"
proof -
  obtain i where i: "bound h c i" using ctl_invD(8) [OF hk_reach_ctl [OF assms(1,2)] assms(3)] ..
  from i control_runs [OF assms i] show ?thesis by (intro exI conjI)
qed

lemma control_dispatch_witness:
  "\<exists>h. handleInterrupt (\<lambda>_ _ _ w. (HookResult_Next, w)) (\<lambda>cb d w. cb # w) h 2
     (Inr (snd (ct_addr (ctrls h ! 0)))) [] = (None, [7 :: nat])"
proof -
  obtain h s e where r: "hk_reach E0 semu0 ([1, 0], h, s, e)" and cb: "ct_callback (ctrls h ! 0) = 7"
    and u: "\<forall>i \<in> set (intrHooks h). \<not> user_cb (hk_callback (hooks h ! i))"
    using run2_ex by blast
  from control_dispatch [OF r E0_ctrl, of 0 "\<lambda>_ _ _ w. (HookResult_Next, w)" "\<lambda>cb d w. cb # w" 2 "[]"] u cb
  show ?thesis by auto
qed

end
