(* ===== verification/FileManager.thy ===== *)
theory FileManager
  imports Paths
begin

text \<open>
  The file manager of \<^verbatim>\<open>internal/debugger/file.go\<close>: the table of file descriptors, the reference
  counts that duplicated descriptors share, and the chain of handlers that serve a path. A
  \<^verbatim>\<open>filesystem.File\<close> of another package is a number (\<open>Raw\<close>) whose methods are parameters over a
  state \<open>'w\<close> of the world; a \<^verbatim>\<open>*fileRef\<close> is its index in the list of the references made (\<open>Ref\<close>).
\<close>

section \<open>State\<close>

datatype fobj = Raw nat | Ref nat

record fileRef =
  rf_file :: nat
  rf_count :: int

record file_mgr =
  handlers :: "nat list"
  fm_fd :: int
  fileMap :: "(int, fobj) gomap"
  frefs :: "fileRef list"

text \<open>The standard streams of the host: \<^verbatim>\<open>os.Stdin\<close>, \<^verbatim>\<open>os.Stdout\<close> and \<^verbatim>\<open>os.Stderr\<close>.\<close>

definition os_Stdin :: nat where "os_Stdin = 0"
definition os_Stdout :: nat where "os_Stdout = 1"
definition os_Stderr :: nat where "os_Stderr = 2"

definition fm_ctor :: file_mgr where
  "fm_ctor = \<lparr>handlers = [], fm_fd = 3, fileMap = [(0, Ref 0), (1, Ref 1), (2, Ref 2)],
     frefs = [\<lparr>rf_file = os_Stdin, rf_count = 0\<rparr>, \<lparr>rf_file = os_Stdout, rf_count = 0\<rparr>,
              \<lparr>rf_file = os_Stderr, rf_count = 0\<rparr>]\<rparr>"

definition fm_dtor :: "file_mgr \<Rightarrow> file_mgr" where
  "fm_dtor s = s\<lparr>handlers := [], fileMap := []\<rparr>"

definition AddFileHandler :: "nat \<Rightarrow> file_mgr \<Rightarrow> file_mgr" where
  "AddFileHandler h s = s\<lparr>handlers := handlers s @ [h]\<rparr>"

definition RemoveFileHandler :: "nat \<Rightarrow> file_mgr \<Rightarrow> file_mgr" where
  "RemoveFileHandler h s = s\<lparr>handlers := filter (\<lambda>x. x \<noteq> h) (handlers s)\<rparr>"

section \<open>The methods of a file\<close>

text \<open>
  The methods of the files of other packages. An optional interface (\<^verbatim>\<open>ReadFile\<close>, \<^verbatim>\<open>WriteFile\<close>,
  \<^verbatim>\<open>DirFile\<close>, \<^verbatim>\<open>Dir\<close>, \<^verbatim>\<open>ControlFile\<close>) is an option: \<open>None\<close> when the type assertion to it fails.
\<close>

record 'w file_ops =
  RawClose :: "nat \<Rightarrow> 'w \<Rightarrow> goerr option \<times> 'w"
  RawStat :: "nat \<Rightarrow> 'w \<Rightarrow> nat res \<times> 'w"
  RawRead :: "nat \<Rightarrow> (nat \<Rightarrow> 'w \<Rightarrow> (byte list \<times> goerr option) \<times> 'w) option"
  RawWrite :: "nat \<Rightarrow> (byte list \<Rightarrow> 'w \<Rightarrow> (nat \<times> goerr option) \<times> 'w) option"
  RawReadDir :: "nat \<Rightarrow> (int \<Rightarrow> 'w \<Rightarrow> (nat list res) \<times> 'w) option"
  RawDir :: "nat \<Rightarrow> ((string \<Rightarrow> int \<Rightarrow> u32 \<Rightarrow> 'w \<Rightarrow> (nat res) \<times> 'w) \<times>
                    (string \<Rightarrow> u32 \<Rightarrow> 'w \<Rightarrow> goerr option \<times> 'w)) option"
  RawControl :: "nat \<Rightarrow> (int \<Rightarrow> nat \<Rightarrow> 'w \<Rightarrow> goerr option \<times> 'w) option"

definition ref_file :: "file_mgr \<Rightarrow> nat \<Rightarrow> nat" where
  "ref_file s i = rf_file (frefs s ! i)"

definition add_count :: "nat \<Rightarrow> int \<Rightarrow> file_mgr \<Rightarrow> file_mgr" where
  "add_count i d s = s\<lparr>frefs := (frefs s)[i := (frefs s ! i)\<lparr>rf_count := rf_count (frefs s ! i) + d\<rparr>]\<rparr>"

definition fileRef_Close :: "'w file_ops \<Rightarrow> nat \<Rightarrow> file_mgr \<Rightarrow> 'w \<Rightarrow> goerr option \<times> file_mgr \<times> 'w" where
  "fileRef_Close F i s w =
     (let s' = add_count i (-1) s;
          c = rf_count (frefs s' ! i)
      in if 0 < c then (None, s', w)
         else if c < 0 then (Some FsErrClosed, s', w)
         else (case RawClose F (ref_file s i) w of (r, w') \<Rightarrow> (r, s', w')))"

definition fileRef_Stat :: "'w file_ops \<Rightarrow> nat \<Rightarrow> file_mgr \<Rightarrow> 'w \<Rightarrow> nat res \<times> 'w" where
  "fileRef_Stat F i s w = RawStat F (ref_file s i) w"

definition fileRef_Read ::
  "'w file_ops \<Rightarrow> nat \<Rightarrow> nat \<Rightarrow> file_mgr \<Rightarrow> 'w \<Rightarrow> (byte list \<times> goerr option) \<times> 'w" where
  "fileRef_Read F i k s w = (case RawRead F (ref_file s i) of
     Some r \<Rightarrow> r k w | None \<Rightarrow> (([], Some ErrUnsupported), w))"

definition fileRef_Write ::
  "'w file_ops \<Rightarrow> nat \<Rightarrow> byte list \<Rightarrow> file_mgr \<Rightarrow> 'w \<Rightarrow> (nat \<times> goerr option) \<times> 'w" where
  "fileRef_Write F i b s w = (case RawWrite F (ref_file s i) of
     Some f \<Rightarrow> f b w | None \<Rightarrow> ((0, Some ErrUnsupported), w))"

definition fileRef_ReadDir ::
  "'w file_ops \<Rightarrow> nat \<Rightarrow> int \<Rightarrow> file_mgr \<Rightarrow> 'w \<Rightarrow> nat list res \<times> 'w" where
  "fileRef_ReadDir F i n s w = (case RawReadDir F (ref_file s i) of
     Some f \<Rightarrow> f n w | None \<Rightarrow> (Inl ErrUnsupported, w))"

definition fileRef_OpenFile ::
  "'w file_ops \<Rightarrow> nat \<Rightarrow> string \<Rightarrow> int \<Rightarrow> u32 \<Rightarrow> file_mgr \<Rightarrow> 'w \<Rightarrow> nat res \<times> 'w" where
  "fileRef_OpenFile F i name flag perm s w = (case RawDir F (ref_file s i) of
     Some (f, _) \<Rightarrow> f name flag perm w | None \<Rightarrow> (Inl ErrUnsupported, w))"

definition fileRef_Mkdir ::
  "'w file_ops \<Rightarrow> nat \<Rightarrow> string \<Rightarrow> u32 \<Rightarrow> file_mgr \<Rightarrow> 'w \<Rightarrow> goerr option \<times> 'w" where
  "fileRef_Mkdir F i name perm s w = (case RawDir F (ref_file s i) of
     Some (_, f) \<Rightarrow> f name perm w | None \<Rightarrow> (Some ErrUnsupported, w))"

definition fileRef_Control ::
  "'w file_ops \<Rightarrow> nat \<Rightarrow> int \<Rightarrow> nat \<Rightarrow> file_mgr \<Rightarrow> 'w \<Rightarrow> goerr option \<times> 'w" where
  "fileRef_Control F i op arg s w = (case RawControl F (ref_file s i) of
     Some f \<Rightarrow> f op arg w | None \<Rightarrow> (Some ErrUnsupported, w))"

text \<open>\<^verbatim>\<open>Close\<close> on a \<^verbatim>\<open>filesystem.File\<close>\<close>

definition file_Close :: "'w file_ops \<Rightarrow> fobj \<Rightarrow> file_mgr \<Rightarrow> 'w \<Rightarrow> goerr option \<times> file_mgr \<times> 'w" where
  "file_Close F f s w = (case f of
     Raw n \<Rightarrow> (case RawClose F n w of (r, w') \<Rightarrow> (r, s, w'))
   | Ref i \<Rightarrow> fileRef_Close F i s w)"

section \<open>Descriptors\<close>

definition CreateFileDescriptor :: "fobj \<Rightarrow> file_mgr \<Rightarrow> int \<times> file_mgr" where
  "CreateFileDescriptor f s =
     (let fd = fm_fd s + 1 in (fd, s\<lparr>fm_fd := fd, fileMap := gm_set fd f (fileMap s)\<rparr>))"

definition CloseFileDescriptor :: "int \<Rightarrow> file_mgr \<Rightarrow> fobj res \<times> file_mgr" where
  "CloseFileDescriptor fd s = (case gm_get (fileMap s) fd of
     Some f \<Rightarrow> (Inr f, s\<lparr>fileMap := gm_del fd (fileMap s)\<rparr>)
   | None \<Rightarrow> (Inl FsErrNotExist, s))"

definition GetFile :: "int \<Rightarrow> file_mgr \<Rightarrow> fobj res" where
  "GetFile fd s = (case gm_get (fileMap s) fd of Some f \<Rightarrow> Inr f | None \<Rightarrow> Inl FsErrNotExist)"

text \<open>
  The step \<^verbatim>\<open>DupFile\<close> and \<^verbatim>\<open>Dup2File\<close> share: count one more user of a reference, or put a reference with
  two users in the place of the plain file.
\<close>

definition share :: "int \<Rightarrow> fobj \<Rightarrow> file_mgr \<Rightarrow> nat \<times> file_mgr" where
  "share fd f s = (case f of
     Ref i \<Rightarrow> (i, add_count i 1 s)
   | Raw n \<Rightarrow> (length (frefs s),
       s\<lparr>frefs := frefs s @ [\<lparr>rf_file = n, rf_count = 2\<rparr>],
         fileMap := gm_set fd (Ref (length (frefs s))) (fileMap s)\<rparr>))"

definition DupFile :: "int \<Rightarrow> file_mgr \<Rightarrow> int res \<times> file_mgr" where
  "DupFile fd s = (case gm_get (fileMap s) fd of
     None \<Rightarrow> (Inl FsErrNotExist, s)
   | Some f \<Rightarrow>
       (case share fd f s of (i, s1) \<Rightarrow>
          (let newfd = fm_fd s1 + 1
           in (Inr newfd, s1\<lparr>fm_fd := newfd, fileMap := gm_set newfd (Ref i) (fileMap s1)\<rparr>))))"

definition Dup2File ::
  "'w file_ops \<Rightarrow> int \<Rightarrow> int \<Rightarrow> file_mgr \<Rightarrow> 'w \<Rightarrow> goerr option \<times> file_mgr \<times> 'w" where
  "Dup2File F oldfd newfd s w =
     (if oldfd = newfd then (None, s, w)
      else if newfd < 3 then (None, s, w)
      else case gm_get (fileMap s) oldfd of
        None \<Rightarrow> (Some FsErrNotExist, s, w)
      | Some f \<Rightarrow>
          (case (case gm_get (fileMap s) newfd of
                   Some old \<Rightarrow> snd (file_Close F old s w) | None \<Rightarrow> (s, w)) of
             (s1, w1) \<Rightarrow>
               (case share oldfd f s1 of
                  (i, s2) \<Rightarrow> (None, s2\<lparr>fileMap := gm_set newfd (Ref i) (fileMap s2)\<rparr>, w1))))"

section \<open>Handlers\<close>

text \<open>
  The loop of \<^verbatim>\<open>OpenFile\<close>, \<^verbatim>\<open>Stat\<close>, \<^verbatim>\<open>ReadDir\<close>, \<^verbatim>\<open>Mkdir\<close>, \<^verbatim>\<open>Readlink\<close> and \<^verbatim>\<open>NewSocket\<close>: the first handler that
  succeeds serves the call.
\<close>

fun first_ok :: "(nat \<Rightarrow> 'w \<Rightarrow> 'a res \<times> 'w) \<Rightarrow> nat list \<Rightarrow> 'w \<Rightarrow> 'a option \<times> 'w" where
  "first_ok call [] w = (None, w)"
| "first_ok call (h # hs) w =
     (case call h w of (Inr x, w') \<Rightarrow> (Some x, w') | (Inl err, w') \<Rightarrow> first_ok call hs w')"

definition or_error :: "goerr \<Rightarrow> 'a option \<times> 'w \<Rightarrow> 'a res \<times> 'w" where
  "or_error err r = (case r of (Some x, w) \<Rightarrow> (Inr x, w) | (None, w) \<Rightarrow> (Inl err, w))"

record ('w, 'a) handler_ops =
  HOpenFile :: "nat \<Rightarrow> string \<Rightarrow> int \<Rightarrow> u32 \<Rightarrow> 'w \<Rightarrow> 'a res \<times> 'w"
  HStat :: "nat \<Rightarrow> string \<Rightarrow> 'w \<Rightarrow> 'a res \<times> 'w"
  HReadDir :: "nat \<Rightarrow> string \<Rightarrow> 'w \<Rightarrow> 'a list res \<times> 'w"
  HMkdir :: "nat \<Rightarrow> string \<Rightarrow> u32 \<Rightarrow> 'w \<Rightarrow> 'a res \<times> 'w"
  HReadlink :: "nat \<Rightarrow> string \<Rightarrow> 'w \<Rightarrow> string res \<times> 'w"
  HNewSocket :: "nat \<Rightarrow> string \<Rightarrow> 'w \<Rightarrow> 'a res \<times> 'w"

text \<open>\<^verbatim>\<open>DefaultFileHandler\<close>, for handlers to embed: it serves nothing.\<close>

definition DefaultFileHandler :: "('w, 'a) handler_ops" where
  "DefaultFileHandler = \<lparr>
     HOpenFile = (\<lambda>h name flag perm w. (Inl FsErrInvalid, w)),
     HStat = (\<lambda>h name w. (Inl FsErrInvalid, w)),
     HReadDir = (\<lambda>h name w. (Inl FsErrInvalid, w)),
     HMkdir = (\<lambda>h name perm w. (Inl FsErrInvalid, w)),
     HReadlink = (\<lambda>h name w. (Inl FsErrInvalid, w)),
     HNewSocket = (\<lambda>h network w. (Inl FsErrInvalid, w))\<rparr>"

definition fm_OpenFile ::
  "('w, 'a) handler_ops \<Rightarrow> string \<Rightarrow> int \<Rightarrow> u32 \<Rightarrow> file_mgr \<Rightarrow> 'w \<Rightarrow> 'a res \<times> 'w" where
  "fm_OpenFile H name flag perm s w =
     or_error FsErrNotExist (first_ok (\<lambda>h. HOpenFile H h (Join_root name) flag perm) (handlers s) w)"

text \<open>
  \<^verbatim>\<open>Open\<close>, through \<^verbatim>\<open>filesystem.Open\<close>: what was opened must be an \<^verbatim>\<open>fs.File\<close>, which a handler need not return.
\<close>

definition fs_Open :: "('a \<Rightarrow> bool) \<Rightarrow> 'a res \<times> 'w \<Rightarrow> ('a res, 'w) outcome" where
  "fs_Open is_file r = (case r of
     (Inl err, w) \<Rightarrow> Ret (Inl err) w
   | (Inr f, w) \<Rightarrow> if is_file f then Ret (Inr f) w else Panic (PanicMsg ''interface conversion'') w)"

definition fm_Open ::
  "('w, 'a) handler_ops \<Rightarrow> ('a \<Rightarrow> bool) \<Rightarrow> string \<Rightarrow> file_mgr \<Rightarrow> 'w \<Rightarrow> ('a res, 'w) outcome" where
  "fm_Open H is_file name s w = fs_Open is_file (fm_OpenFile H name 0 0 s w)"

definition fm_Stat :: "('w, 'a) handler_ops \<Rightarrow> string \<Rightarrow> file_mgr \<Rightarrow> 'w \<Rightarrow> 'a res \<times> 'w" where
  "fm_Stat H name s w =
     or_error FsErrNotExist (first_ok (\<lambda>h. HStat H h (Join_root name)) (handlers s) w)"

definition fm_ReadDir :: "('w, 'a) handler_ops \<Rightarrow> string \<Rightarrow> file_mgr \<Rightarrow> 'w \<Rightarrow> 'a list res \<times> 'w" where
  "fm_ReadDir H name s w =
     or_error FsErrNotExist (first_ok (\<lambda>h. HReadDir H h (Join_root name)) (handlers s) w)"

definition fm_Mkdir :: "('w, 'a) handler_ops \<Rightarrow> string \<Rightarrow> u32 \<Rightarrow> file_mgr \<Rightarrow> 'w \<Rightarrow> 'a res \<times> 'w" where
  "fm_Mkdir H name perm s w =
     or_error FsErrInvalid (first_ok (\<lambda>h. HMkdir H h (Join_root name) perm) (handlers s) w)"

definition fm_Readlink :: "('w, 'a) handler_ops \<Rightarrow> string \<Rightarrow> file_mgr \<Rightarrow> 'w \<Rightarrow> string res \<times> 'w" where
  "fm_Readlink H name s w =
     or_error FsErrInvalid (first_ok (\<lambda>h. HReadlink H h (Join_root name)) (handlers s) w)"

text \<open>\<open>fresh net\<close> is \<^verbatim>\<open>socket.New(network)\<close>.\<close>

definition fm_NewSocket ::
  "('w, 'a) handler_ops \<Rightarrow> (string \<Rightarrow> 'a) \<Rightarrow> string \<Rightarrow> file_mgr \<Rightarrow> 'w \<Rightarrow> 'a res \<times> 'w" where
  "fm_NewSocket H fresh net s w =
     (case first_ok (\<lambda>h. HNewSocket H h net) (handlers s) w of
        (Some x, w') \<Rightarrow> (Inr x, w') | (None, w') \<Rightarrow> (Inr (fresh net), w'))"

end
