(* ===== verification/FileProps.thy ===== *)
theory FileProps
  imports FileManager
begin

text \<open>
  The reference counts of the file manager: in every state it reaches they count the descriptors
  that share a file, so that a file is closed when its last descriptor is; the standard streams,
  whose counts start one too low, are the exception.
\<close>

section \<open>Counting descriptors\<close>

definition users :: "(int, fobj) gomap \<Rightarrow> nat \<Rightarrow> nat" where
  "users m i = card {k. gm_get m k = Some (Ref i)}"

lemma users_finite: "finite {k. gm_get m k = Some (Ref i)}"
  using gm.finite_dom [of m] by (rule finite_subset [rotated]) auto

lemma users_del: "users (gm_del k m) i + (if gm_get m k = Some (Ref i) then 1 else 0) = users m i"
proof (cases "gm_get m k = Some (Ref i)")
  case True
  then have "{j. gm_get m j = Some (Ref i)} = insert k {j. gm_get (gm_del k m) j = Some (Ref i)}"
    by (auto simp: gm.get_del)
  then show ?thesis using True users_finite [of "gm_del k m" i] by (simp add: users_def gm.get_del)
next
  case False
  then have "{j. gm_get (gm_del k m) j = Some (Ref i)} = {j. gm_get m j = Some (Ref i)}"
    by (auto simp: gm.get_del)
  then show ?thesis using False by (simp add: users_def)
qed

lemma users_set:
  "users (gm_set k v m) i + (if gm_get m k = Some (Ref i) then 1 else 0) =
     users m i + (if v = Ref i then 1 else 0)"
proof -
  have "users (gm_set k v m) i = users (gm_del k m) i + (if v = Ref i then 1 else 0)"
  proof (cases "v = Ref i")
    case True
    then have "{j. gm_get (gm_set k v m) j = Some (Ref i)} = insert k {j. gm_get (gm_del k m) j = Some (Ref i)}"
      by (auto simp: gm.get_del gm.get_put)
    then show ?thesis using True users_finite [of "gm_del k m" i] by (simp add: users_def gm.get_del)
  next
    case False
    then have "{j. gm_get (gm_set k v m) j = Some (Ref i)} = {j. gm_get (gm_del k m) j = Some (Ref i)}"
      by (auto simp: gm.get_del gm.get_put)
    then show ?thesis using False by (simp add: users_def)
  qed
  with users_del [of k m i] show ?thesis by simp
qed

lemma users_zero: "users m i = 0 \<longleftrightarrow> (\<forall>k. gm_get m k \<noteq> Some (Ref i))"
  using users_finite [of m i] by (auto simp: users_def)

section \<open>The invariant\<close>

text \<open>
  The standard streams' counts leave out one of their descriptors. A count never falls below the number
  of descriptors; it is that number as long as no new descriptor has taken a number in use (\<open>lost\<close>).
\<close>

definition std_bias :: "nat \<Rightarrow> int" where
  "std_bias i = (if i < 3 then 1 else 0)"

definition counts :: "bool \<Rightarrow> int \<Rightarrow> nat \<Rightarrow> bool" where
  "counts lost c n \<longleftrightarrow> int n \<le> c \<and> (\<not> lost \<longrightarrow> int n = c)"

definition fm_inv :: "bool \<Rightarrow> file_mgr \<Rightarrow> bool" where
  "fm_inv lost s \<longleftrightarrow> 3 \<le> length (frefs s) \<and>
     (\<forall>k i. gm_get (fileMap s) k = Some (Ref i) \<longrightarrow> i < length (frefs s)) \<and>
     (\<forall>i < length (frefs s). counts lost (rf_count (frefs s ! i) + std_bias i) (users (fileMap s) i))"

lemma fm_inv_ref: "fm_inv lost s \<Longrightarrow> gm_get (fileMap s) k = Some (Ref i) \<Longrightarrow> i < length (frefs s)"
  and fm_inv_count: "fm_inv lost s \<Longrightarrow> i < length (frefs s) \<Longrightarrow>
    counts lost (rf_count (frefs s ! i) + std_bias i) (users (fileMap s) i)"
  by (auto simp: fm_inv_def)

lemma fm_inv_ctor: "fm_inv False fm_ctor"
proof -
  have "users (fileMap fm_ctor) i = 1" if "i < 3" for i
  proof -
    have "{k. gm_get (fileMap fm_ctor) k = Some (Ref i)} = {int i}"
      using that by (auto simp: fm_ctor_def less_Suc_eq numeral_3_eq_3 split: if_splits)
    then show ?thesis by (simp add: users_def)
  qed
  then show ?thesis
    by (auto simp: fm_inv_def counts_def fm_ctor_def std_bias_def less_Suc_eq numeral_3_eq_3 split: if_splits)
qed

lemma add_count_simps [simp]:
  "fileMap (add_count i d s) = fileMap s" "fm_fd (add_count i d s) = fm_fd s"
  "length (frefs (add_count i d s)) = length (frefs s)" "handlers (add_count i d s) = handlers s"
  by (simp_all add: add_count_def)

lemma add_count_count:
  "j < length (frefs s) \<Longrightarrow> rf_count (frefs (add_count i d s) ! j) = rf_count (frefs s ! j) + (if i = j then d else 0)"
  by (simp add: add_count_def nth_list_update)

lemma fileRef_Close_state: "fst (snd (fileRef_Close F i s w)) = add_count i (-1) s"
  by (simp add: fileRef_Close_def Let_def split: prod.split)

lemma file_Close_state:
  "fst (snd (file_Close F f s w)) = (case f of Raw n \<Rightarrow> s | Ref i \<Rightarrow> add_count i (-1) s)"
  by (cases f) (simp_all add: file_Close_def fileRef_Close_state split: prod.split)

text \<open>Taking one descriptor out of the table and one user off its reference\<close>

lemma inv_drop:
  assumes "fm_inv lost s" and "gm_get (fileMap s) k = Some f"
  defines "s1 \<equiv> (case f of Raw n \<Rightarrow> s | Ref i \<Rightarrow> add_count i (-1) s)"
  shows "fm_inv lost (s1\<lparr>fileMap := gm_del k (fileMap s1)\<rparr>)"
proof -
  have m: "fileMap s1 = fileMap s" "length (frefs s1) = length (frefs s)"
    by (simp_all add: s1_def split: fobj.split)
  have "counts lost (rf_count (frefs s1 ! i) + std_bias i) (users (gm_del k (fileMap s)) i)"
    if "i < length (frefs s)" for i
    using users_del [of k "fileMap s" i] fm_inv_count [OF assms(1) that] that assms(2)
    by (auto simp: s1_def counts_def add_count_count split: fobj.splits if_splits)
  then show ?thesis
    using assms(1) by (auto simp: fm_inv_def m gm.get_del split: if_splits)
qed

text \<open>Giving a descriptor to a shared reference; what the number named before is lost.\<close>

lemma inv_share:
  assumes inv: "fm_inv lost s" and f: "gm_get (fileMap s) fd = Some f" and sh: "share fd f s = (i, s1)"
    and new: "lost' = (lost \<or> gm_get (fileMap s) k \<noteq> None)"
  shows "fm_inv lost' (s1\<lparr>fileMap := gm_set k (Ref i) (fileMap s1)\<rparr>)"
proof (cases f)
  case (Ref j)
  then have s1: "i = j" "s1 = add_count j 1 s" using sh by (auto simp: share_def)
  have j: "j < length (frefs s)" using fm_inv_ref [OF inv] f Ref by simp
  have "counts lost' (rf_count (frefs s1 ! b) + std_bias b) (users (gm_set k (Ref j) (fileMap s)) b)"
    if "b < length (frefs s)" for b
    using users_set [of k "Ref j" "fileMap s" b] fm_inv_count [OF inv that] that new s1
    by (auto simp: counts_def add_count_count split: if_splits)
  then show ?thesis using inv new s1 j by (auto simp: fm_inv_def gm.get_put split: if_splits)
next
  case (Raw n)
  let ?l = "length (frefs s)"
  have s1: "i = ?l" "s1 = s\<lparr>frefs := frefs s @ [\<lparr>rf_file = n, rf_count = 2\<rparr>],
       fileMap := gm_set fd (Ref ?l) (fileMap s)\<rparr>"
    using sh Raw by (auto simp: share_def)
  let ?m1 = "gm_set fd (Ref ?l) (fileMap s)"
  let ?m = "gm_set k (Ref ?l) ?m1"
  have l3: "3 \<le> ?l" using inv by (simp add: fm_inv_def)
  have none: "gm_get (fileMap s) j \<noteq> Some (Ref ?l)" for j using fm_inv_ref [OF inv, of j ?l] by auto
  then have "users (fileMap s) ?l = 0" by (simp add: users_zero)
  then have u1: "users ?m1 b = (if b = ?l then 1 else users (fileMap s) b)" for b
    using users_set [of fd "Ref ?l" "fileMap s" b] f Raw none by (auto split: if_splits)
  have "counts lost' (rf_count (frefs s1 ! b) + std_bias b) (users ?m b)" if "b < Suc ?l" for b
  proof (cases "b = ?l")
    case True
    have "users ?m ?l + (if k = fd then 1 else 0) = 2"
      using users_set [of k "Ref ?l" ?m1 ?l] u1 none by (auto simp: gm.get_put split: if_splits)
    moreover have "k = fd \<Longrightarrow> lost'" using new f by auto
    ultimately show ?thesis using True l3 s1 by (auto simp: counts_def std_bias_def split: if_splits)
  next
    case False
    then have "users ?m b + (if gm_get ?m1 k = Some (Ref b) then 1 else 0) = users (fileMap s) b"
      using users_set [of k "Ref ?l" ?m1 b] u1 [of b] by simp
    moreover have "gm_get ?m1 k = Some (Ref b) \<Longrightarrow> lost'"
      using False new by (auto simp: gm.get_put split: if_splits)
    ultimately show ?thesis
      using False that fm_inv_count [OF inv, of b] new s1
      by (auto simp: counts_def nth_append split: if_splits)
  qed
  then show ?thesis
    using l3 s1 fm_inv_ref [OF inv] by (fastforce simp: fm_inv_def gm.get_put less_Suc_eq split: if_splits)
qed

lemma fm_inv_fd [simp]: "fm_inv lost (s\<lparr>fm_fd := c\<rparr>) = fm_inv lost s"
  by (simp add: fm_inv_def)

lemma share_fd: "share fd f s = (i, s1) \<Longrightarrow> fm_fd s1 = fm_fd s"
  by (auto simp: share_def split: fobj.splits)

section \<open>Runs\<close>

text \<open>
  A program opens plain files, duplicates descriptors, onto any number it likes, and closes them: takes
  the descriptor out of the table and closes the file it gets. \<open>takes_over\<close>: the next number the counter
  gives is in use already, because \<^verbatim>\<open>Dup2File\<close> was called with it.
\<close>

definition takes_over :: "file_mgr \<Rightarrow> bool" where
  "takes_over s \<longleftrightarrow> gm_get (fileMap s) (fm_fd s + 1) \<noteq> None"

inductive fm_step :: "'w file_ops \<Rightarrow> bool \<Rightarrow> file_mgr \<times> 'w \<Rightarrow> bool \<Rightarrow> file_mgr \<times> 'w \<Rightarrow> bool"
  for F :: "'w file_ops" where
  fs_create: "CreateFileDescriptor (Raw n) s = (fd, s') \<Longrightarrow> fm_step F lost (s, w) (lost \<or> takes_over s) (s', w)"
| fs_dup: "DupFile fd s = (Inr r, s') \<Longrightarrow> fm_step F lost (s, w) (lost \<or> takes_over s) (s', w)"
| fs_dup_err: "DupFile fd s = (Inl err, s') \<Longrightarrow> fm_step F lost (s, w) lost (s', w)"
| fs_dup2: "Dup2File F oldfd newfd s w = (r, s', w') \<Longrightarrow> fm_step F lost (s, w) lost (s', w')"
| fs_close: "CloseFileDescriptor fd s = (Inr f, s1) \<Longrightarrow> file_Close F f s1 w = (r, s', w') \<Longrightarrow>
    fm_step F lost (s, w) lost (s', w')"

inductive fm_reach :: "'w file_ops \<Rightarrow> 'w \<Rightarrow> bool \<Rightarrow> file_mgr \<times> 'w \<Rightarrow> bool" for F :: "'w file_ops" and w0 :: 'w where
  fr_start: "fm_reach F w0 False (fm_ctor, w0)"
| fr_step: "fm_reach F w0 lost c \<Longrightarrow> fm_step F lost c lost' c' \<Longrightarrow> fm_reach F w0 lost' c'"

lemma inv_create: "fm_inv lost s \<Longrightarrow> fm_inv (lost \<or> takes_over s) (snd (CreateFileDescriptor (Raw n) s))"
proof -
  assume inv: "fm_inv lost s"
  let ?fd = "fm_fd s + 1"
  have "counts (lost \<or> takes_over s) (rf_count (frefs s ! i) + std_bias i) (users (gm_set ?fd (Raw n) (fileMap s)) i)"
    if "i < length (frefs s)" for i
    using users_set [of ?fd "Raw n" "fileMap s" i] fm_inv_count [OF inv that]
    by (auto simp: counts_def takes_over_def split: if_splits)
  with inv show ?thesis
    by (auto simp: CreateFileDescriptor_def Let_def fm_inv_def gm.get_put split: if_splits)
qed

lemma inv_dup:
  assumes inv: "fm_inv lost s" and "DupFile fd s = (r, s')"
  shows "fm_inv (case r of Inl err \<Rightarrow> lost | Inr _ \<Rightarrow> lost \<or> takes_over s) s'"
proof (cases "gm_get (fileMap s) fd")
  case (Some f)
  obtain i s1 where sh: "share fd f s = (i, s1)" by (cases "share fd f s")
  from inv_share [OF inv Some sh, of _ "fm_fd s + 1"] Some sh assms(2) share_fd [OF sh]
  show ?thesis by (auto simp: DupFile_def Let_def takes_over_def fm_inv_def)
qed (use assms in \<open>auto simp: DupFile_def\<close>)

lemma fm_inv_cong:
  "gm_get (fileMap s') = gm_get (fileMap s) \<Longrightarrow> frefs s' = frefs s \<Longrightarrow> fm_inv lost s' = fm_inv lost s"
  by (simp add: fm_inv_def users_def)

text \<open>\<^verbatim>\<open>Dup2File\<close> first closes what the new number names, while the number is still in the table.\<close>

definition after_close :: "int \<Rightarrow> file_mgr \<Rightarrow> file_mgr" where
  "after_close k s = (case gm_get (fileMap s) k of Some (Ref i) \<Rightarrow> add_count i (-1) s | _ \<Rightarrow> s)"

lemma Dup2_state:
  assumes "oldfd \<noteq> newfd" and "3 \<le> newfd" and "gm_get (fileMap s) oldfd = Some f"
    and "share oldfd f (after_close newfd s) = (i, s2)"
  shows "\<exists>w'. Dup2File F oldfd newfd s w = (None, s2\<lparr>fileMap := gm_set newfd (Ref i) (fileMap s2)\<rparr>, w')"
proof -
  have "fst (case gm_get (fileMap s) newfd of Some old \<Rightarrow> snd (file_Close F old s w) | None \<Rightarrow> (s, w)) =
      after_close newfd s"
    by (auto simp: after_close_def file_Close_state split: option.split fobj.split)
  then obtain w1 where "(case gm_get (fileMap s) newfd of Some old \<Rightarrow> snd (file_Close F old s w) | None \<Rightarrow> (s, w)) =
      (after_close newfd s, w1)" by (metis prod.collapse)
  with assms show ?thesis by (simp add: Dup2File_def)
qed

lemma share_del:
  assumes "share fd f s = (i, s2)" and "k \<noteq> fd"
  shows "\<exists>s2'. share fd f (s\<lparr>fileMap := gm_del k (fileMap s)\<rparr>) = (i, s2') \<and> frefs s2' = frefs s2 \<and>
    fm_fd s2' = fm_fd s2 \<and>
    gm_get (gm_set k v (fileMap s2')) = gm_get (gm_set k v (fileMap s2))"
  using assms by (auto simp: share_def add_count_def gm.get_put gm.get_del fun_eq_iff split: fobj.splits)

lemma inv_dup2:
  assumes inv: "fm_inv lost s" and d: "Dup2File F oldfd newfd s w = (r, s', w')"
  shows "fm_inv lost s'"
proof (cases "oldfd = newfd \<or> newfd < 3 \<or> gm_get (fileMap s) oldfd = None")
  case True
  then have "s' = s" using d by (auto simp: Dup2File_def split: option.splits if_splits prod.splits)
  with inv show ?thesis by simp
next
  case False
  then obtain f where f: "gm_get (fileMap s) oldfd = Some f" and ne: "oldfd \<noteq> newfd" "3 \<le> newfd" by auto
  let ?s1 = "after_close newfd s"
  let ?sd = "?s1\<lparr>fileMap := gm_del newfd (fileMap ?s1)\<rparr>"
  obtain i s2 where sh: "share oldfd f ?s1 = (i, s2)" by (cases "share oldfd f ?s1")
  have s': "s' = s2\<lparr>fileMap := gm_set newfd (Ref i) (fileMap s2)\<rparr>"
    using Dup2_state [OF ne f sh, of F w] d by auto
  have m: "fileMap ?s1 = fileMap s" by (simp add: after_close_def split: option.split fobj.split)
  have "fm_inv lost ?sd"
  proof (cases "gm_get (fileMap s) newfd")
    case None
    then have "gm_get (fileMap ?sd) = gm_get (fileMap s)" "?s1 = s"
      by (auto simp: m gm.get_del after_close_def)
    with inv show ?thesis using fm_inv_cong [of ?sd s] by simp
  next
    case (Some g)
    with inv_drop [OF inv Some] show ?thesis
      by (cases g) (simp_all add: after_close_def)
  qed
  moreover have "gm_get (fileMap ?sd) oldfd = Some f" "gm_get (fileMap ?sd) newfd = None"
    using f ne by (simp_all add: m gm.get_del)
  moreover obtain s2' where s2': "share oldfd f ?sd = (i, s2')" "frefs s2' = frefs s2"
    "gm_get (gm_set newfd (Ref i) (fileMap s2')) = gm_get (gm_set newfd (Ref i) (fileMap s2))"
    using share_del [OF sh, of newfd "Ref i"] ne by blast
  ultimately have "fm_inv lost (s2'\<lparr>fileMap := gm_set newfd (Ref i) (fileMap s2')\<rparr>)"
    using inv_share [of lost ?sd oldfd f i s2' lost newfd] by simp
  with s2' show ?thesis using fm_inv_cong [of s' "s2'\<lparr>fileMap := gm_set newfd (Ref i) (fileMap s2')\<rparr>"]
    by (simp add: s')
qed

lemma close_state:
  assumes "CloseFileDescriptor fd s = (Inr f, s1)" and "file_Close F f s1 w = (r, s', w')"
  shows "gm_get (fileMap s) fd = Some f" and "fileMap s' = gm_del fd (fileMap s)"
    and "s' = (let s0 = (case f of Raw n \<Rightarrow> s | Ref i \<Rightarrow> add_count i (-1) s) in s0\<lparr>fileMap := gm_del fd (fileMap s0)\<rparr>)"
proof -
  have s1: "gm_get (fileMap s) fd = Some f \<and> s1 = s\<lparr>fileMap := gm_del fd (fileMap s)\<rparr>"
    using assms(1) by (auto simp: CloseFileDescriptor_def split: option.splits)
  have "s' = (case f of Raw n \<Rightarrow> s1 | Ref i \<Rightarrow> add_count i (-1) s1)"
    using file_Close_state [of F f s1 w] assms(2) by simp
  with s1 show "gm_get (fileMap s) fd = Some f" "fileMap s' = gm_del fd (fileMap s)"
    "s' = (let s0 = (case f of Raw n \<Rightarrow> s | Ref i \<Rightarrow> add_count i (-1) s) in s0\<lparr>fileMap := gm_del fd (fileMap s0)\<rparr>)"
    by (auto simp: add_count_def split: fobj.splits)
qed

lemma inv_close_fd:
  assumes "fm_inv lost s" and "CloseFileDescriptor fd s = (Inr f, s1)" and "file_Close F f s1 w = (r, s', w')"
  shows "fm_inv lost s'"
  using inv_drop [OF assms(1) close_state(1) [OF assms(2,3)]] close_state(3) [OF assms(2,3)]
  by (simp add: Let_def)

lemma fm_step_inv: "fm_step F lost c lost' c' \<Longrightarrow> fm_inv lost (fst c) \<Longrightarrow> fm_inv lost' (fst c')"
proof (induction rule: fm_step.induct)
  case (fs_create n s fd s' lost w)
  then show ?case using inv_create [of lost s n] by simp
next
  case (fs_dup fd s r s' lost w)
  then show ?case using inv_dup [OF _ fs_dup(1)] by fastforce
next
  case (fs_dup_err fd s err s' lost w)
  then show ?case using inv_dup [OF _ fs_dup_err(1)] by fastforce
next
  case (fs_dup2 oldfd newfd s w r s' w' lost)
  then show ?case using inv_dup2 by fastforce
next
  case (fs_close fd s f s1 w r s' w' lost)
  then show ?case using inv_close_fd by fastforce
qed

lemma fm_reach_inv: "fm_reach F w0 lost c \<Longrightarrow> fm_inv lost (fst c)"
  by (induction rule: fm_reach.induct) (auto simp: fm_inv_ctor intro: fm_step_inv)

section \<open>Properties\<close>

text \<open>A world that logs the files closed, and a run in which a file gets two descriptors.\<close>

definition log_ops :: "nat list file_ops" where
  "log_ops = \<lparr>RawClose = (\<lambda>n w. (None, n # w)), RawStat = (\<lambda>n w. (Inr n, w)), RawRead = (\<lambda>_. None),
     RawWrite = (\<lambda>_. None), RawReadDir = (\<lambda>_. None), RawDir = (\<lambda>_. None), RawControl = (\<lambda>_. None)\<rparr>"

definition fm2 :: file_mgr where
  "fm2 = snd (DupFile 4 (snd (CreateFileDescriptor (Raw 9) fm_ctor)))"

lemma fm2_map: "fileMap fm2 = [(0, Ref 0), (1, Ref 1), (2, Ref 2), (4, Ref 3), (5, Ref 3)]"
  and fm2_ref: "frefs fm2 ! 3 = \<lparr>rf_file = 9, rf_count = 2\<rparr>" "length (frefs fm2) = 4" "fm_fd fm2 = 5"
  by (simp_all add: fm2_def DupFile_def CreateFileDescriptor_def fm_ctor_def share_def)

lemma fm2_reach: "fm_reach log_ops [] False (fm2, [])"
proof -
  let ?s = "snd (CreateFileDescriptor (Raw 9) fm_ctor)"
  have t: "\<not> takes_over fm_ctor" "\<not> takes_over ?s"
    by (simp_all add: takes_over_def CreateFileDescriptor_def fm_ctor_def Let_def)
  have "fm_reach log_ops [] False (?s, [])"
    using fr_step [OF fr_start fs_create [where n = 9 and s = fm_ctor, OF prod.collapse [symmetric]]] t by simp
  moreover have "DupFile 4 ?s = (Inr 5, fm2)"
    by (simp add: fm2_def DupFile_def CreateFileDescriptor_def fm_ctor_def share_def)
  ultimately show ?thesis using fr_step [OF _ fs_dup [where fd = 4 and s = ?s and r = 5 and s' = fm2]] t by fastforce
qed

text \<open>C12: In every state a program reaches by entering plain files, duplicating descriptors onto any number
  and closing them, the count of a shared file is at least the number of the descriptors that name it,
  and exactly that number unless a new descriptor has taken a number in use, which \<^verbatim>\<open>Dup2File\<close> had put
  above the counter. The counts of the three standard streams are one less than that.\<close>

theorem refcount_counts_descriptors:
  assumes "fm_reach F w0 lost (s, w)" and "i < length (frefs s)"
  defines "n \<equiv> int (card {fd. gm_get (fileMap s) fd = Some (Ref i)}) - (if i < 3 then 1 else 0)"
  shows "n \<le> rf_count (frefs s ! i) \<and> (\<not> lost \<longrightarrow> n = rf_count (frefs s ! i))"
  using fm_inv_count [of lost s i] fm_reach_inv [OF assms(1)] assms(2)
  by (auto simp: n_def users_def std_bias_def counts_def split: if_splits)

lemma refcount_counts_descriptors_witness:
  "card {fd. gm_get (fileMap fm2) fd = Some (Ref 3)} = 2"
  using refcount_counts_descriptors [OF fm2_reach, of 3] by (simp add: fm2_ref)

text \<open>C30: Closing a descriptor of a file shared by duplication never closes the file while another
  descriptor names it, and closes it with the last one unless a new descriptor has taken a number in use
  before. For the standard streams it is one descriptor too early: with a single other descriptor left the
  stream is closed, and closing the last one is an error that closes nothing.\<close>

theorem last_descriptor_closes:
  assumes "fm_reach F w0 lost (s, w)" and "gm_get (fileMap s) fd = Some (Ref i)"
  defines "others \<equiv> card {k. k \<noteq> fd \<and> gm_get (fileMap s) k = Some (Ref i)}"
  shows "\<exists>s1. CloseFileDescriptor fd s = (Inr (Ref i), s1) \<and>
    (let res = file_Close F (Ref i) s1 w; raw = RawClose F (rf_file (frefs s ! i)) w; early = (if i < 3 then 1 else 0)
     in (early < others \<longrightarrow> fst res = None \<and> snd (snd res) = w) \<and>
        (\<not> lost \<and> others = early \<longrightarrow> fst res = fst raw \<and> snd (snd res) = snd raw) \<and>
        (\<not> lost \<and> others < early \<longrightarrow> fst res = Some FsErrClosed \<and> snd (snd res) = w))"
proof -
  have inv: "fm_inv lost s" using fm_reach_inv [OF assms(1)] by simp
  have i: "i < length (frefs s)" by (rule fm_inv_ref [OF inv assms(2)])
  have "users (gm_del fd (fileMap s)) i + 1 = users (fileMap s) i"
    using users_del [of fd "fileMap s" i] assms(2) by simp
  moreover have "{k. gm_get (gm_del fd (fileMap s)) k = Some (Ref i)} = {k. k \<noteq> fd \<and> gm_get (fileMap s) k = Some (Ref i)}"
    by (auto simp: gm.get_del)
  ultimately have u: "users (fileMap s) i = Suc others" by (simp add: users_def others_def)
  have c: "counts lost (rf_count (frefs s ! i) + std_bias i) (Suc others)" using fm_inv_count [OF inv i] u by simp
  let ?s1 = "s\<lparr>fileMap := gm_del fd (fileMap s)\<rparr>"
  have "CloseFileDescriptor fd s = (Inr (Ref i), ?s1)" by (simp add: CloseFileDescriptor_def assms(2))
  moreover have "rf_count (frefs (add_count i (-1) ?s1) ! i) = rf_count (frefs s ! i) - 1"
    using i by (simp add: add_count_count)
  moreover have "ref_file ?s1 i = rf_file (frefs s ! i)" by (simp add: ref_file_def)
  ultimately show ?thesis
    using c by (intro exI [of _ ?s1])
      (auto simp: file_Close_def fileRef_Close_def Let_def counts_def std_bias_def split: prod.split)
qed

lemma last_descriptor_closes_witness:
  "\<exists>s1. CloseFileDescriptor 5 fm2 = (Inr (Ref 3), s1) \<and> snd (snd (file_Close log_ops (Ref 3) s1 [])) = []"
proof -
  have "gm_get (fileMap fm2) 5 = Some (Ref 3)" by (simp add: fm2_map)
  note close = last_descriptor_closes [OF fm2_reach this]
  have "{k. k \<noteq> 5 \<and> gm_get (fileMap fm2) k = Some (Ref 3)} = {4}" by (auto simp: fm2_map split: if_splits)
  with close show ?thesis by (auto simp: Let_def)
qed

text \<open>The standard streams' references start at 0 instead of 1, so that closing a duplicate of
  descriptor 0 closes the host's standard input while descriptor 0 still names it; and closing
  descriptor 0 of a fresh manager reports an error and closes nothing.\<close>

lemma duplicate_closes_stdin:
  "\<exists>s1 s2 s3. DupFile 0 fm_ctor = (Inr 4, s1) \<and> CloseFileDescriptor 4 s1 = (Inr (Ref 0), s2) \<and>
     file_Close log_ops (Ref 0) s2 [] = (None, s3, [os_Stdin]) \<and> GetFile 0 s3 = Inr (Ref 0) \<and>
     fst (file_Close log_ops (Ref 0) (snd (CloseFileDescriptor 0 fm_ctor)) []) = Some FsErrClosed"
  by (simp add: DupFile_def CloseFileDescriptor_def file_Close_def fileRef_Close_def GetFile_def fm_ctor_def
      share_def add_count_def ref_file_def log_ops_def)

text \<open>\<^verbatim>\<open>Dup2File\<close> does not advance the descriptor counter: after duplicating onto the next number, the
  next file opened takes the same number, and the duplicate is gone without having been closed.\<close>

lemma create_overwrites_dup2:
  assumes "gm_get (fileMap s) fd = Some f" and "fd \<noteq> fm_fd s + 1" and "2 < fm_fd s + 1"
    and "gm_get (fileMap s) (fm_fd s + 1) = None"
  shows "\<exists>s1 i s2. Dup2File F fd (fm_fd s + 1) s w = (None, s1, w) \<and> GetFile (fm_fd s + 1) s1 = Inr (Ref i) \<and>
    CreateFileDescriptor g s1 = (fm_fd s + 1, s2) \<and> GetFile (fm_fd s + 1) s2 = Inr g \<and>
    frefs s2 = frefs s1"
proof -
  obtain i s1 where sh: "share fd f s = (i, s1)" by (cases "share fd f s")
  have fd1: "fm_fd s1 = fm_fd s" using sh by (auto simp: share_def split: fobj.splits)
  let ?k = "fm_fd s + 1"
  let ?s1 = "s1\<lparr>fileMap := gm_set ?k (Ref i) (fileMap s1)\<rparr>"
  let ?s2 = "?s1\<lparr>fm_fd := ?k, fileMap := gm_set ?k g (fileMap ?s1)\<rparr>"
  have "Dup2File F fd ?k s w = (None, ?s1, w)" using assms sh by (simp add: Dup2File_def)
  moreover have "CreateFileDescriptor g ?s1 = (?k, ?s2)" by (simp add: CreateFileDescriptor_def fd1 Let_def)
  ultimately show ?thesis
    by (intro exI [of _ ?s1] exI [of _ i] exI [of _ ?s2]) (simp add: GetFile_def gm.get_put)
qed

lemma create_overwrites_dup2_witness:
  "\<exists>s1 i s2. Dup2File log_ops 4 6 fm2 [] = (None, s1, []) \<and> CreateFileDescriptor (Raw 1) s1 = (6, s2) \<and>
     GetFile 6 s2 = Inr (Raw 1)"
  using create_overwrites_dup2 [of fm2 4 "Ref 3" log_ops "[]" "Raw 1"] by (simp add: fm2_map fm2_ref) blast

lemma first_ok_skip:
  "\<forall>h \<in> set pre. \<forall>w. \<exists>err. fst (call h w) = Inl err \<Longrightarrow>
     first_ok call (pre @ hs) w = first_ok call hs (fold (\<lambda>h w. snd (call h w)) pre w)"
proof (induction pre arbitrary: w)
  case (Cons a pre)
  obtain err w' where "call a w = (Inl err, w')" using Cons.prems by (metis list.set_intros(1) prod.collapse)
  with Cons show ?case by simp
qed simp

text \<open>C31: The handlers are asked in the order in which they were added, with the path made absolute; the
  first that succeeds serves the call, the ones behind it are not asked, and the errors of those
  before it are dropped. When none succeeds the error is \<^verbatim>\<open>ErrNotExist\<close>.\<close>

theorem first_handler_serves:
  assumes "handlers s = pre @ hs"
    and "\<forall>h \<in> set pre. \<forall>w. \<exists>err. fst (HOpenFile H h (Join_root name) flag perm w) = Inl err"
  shows "fm_OpenFile H name flag perm s w =
    (let w1 = fold (\<lambda>h w. snd (HOpenFile H h (Join_root name) flag perm w)) pre w in
     case hs of
       [] \<Rightarrow> (Inl FsErrNotExist, w1)
     | h # post \<Rightarrow>
         (case HOpenFile H h (Join_root name) flag perm w1 of
            (Inr x, w2) \<Rightarrow> (Inr x, w2)
          | (Inl err, w2) \<Rightarrow> fm_OpenFile H name flag perm (s\<lparr>handlers := post\<rparr>) w2))"
  using first_ok_skip [OF assms(2), of hs w] assms(1)
  by (auto simp: fm_OpenFile_def or_error_def Let_def split: list.split prod.splits sum.splits)

lemma first_handler_serves_witness:
  "fm_OpenFile \<lparr>HOpenFile = (\<lambda>h p fl pe w. if h = 1 then (Inr p, w) else (Inl FsErrInvalid, Suc w)),
       HStat = (\<lambda>h p w. (Inl FsErrInvalid, w)), HReadDir = (\<lambda>h p w. (Inl FsErrInvalid, w)),
       HMkdir = (\<lambda>h p pe w. (Inl FsErrInvalid, w)), HReadlink = (\<lambda>h p w. (Inl FsErrInvalid, w)),
       HNewSocket = (\<lambda>h p w. (Inl FsErrInvalid, w))\<rparr> ''../a'' 0 0 (fm_ctor\<lparr>handlers := [0, 1, 2]\<rparr>) 0 =
     (Inr ''/a'', 1)" (is "fm_OpenFile ?H _ _ _ _ _ = _")
  using first_handler_serves [of "fm_ctor\<lparr>handlers := [0, 1, 2]\<rparr>" "[0]" "[1, 2]" ?H "''../a''" 0 0 0]
  by (simp add: Join_root_def Clean_def rooted_def)

end
