(* ===== verification/Streams.thy ===== *)
theory Streams
  imports GoRun
begin

text \<open>
  The two streams values are encoded to and decoded from, and what they stand on: the pointers of
  \<^verbatim>\<open>emulator/pointer.go\<close>, the growing buffer of \<^verbatim>\<open>internal/debugger/buffer.go\<close>, the stream over emulator
  memory of \<^verbatim>\<open>internal/debugger/stream.go\<close> and the stream over the argument registers and the stack,
  which \<^verbatim>\<open>internal/debugger/arm/stream.go\<close> and \<^verbatim>\<open>internal/debugger/arm64/stream.go\<close> write out twice: one
  definition here, with a record of what differs. A stream is an object with state; the operations
  take it with the state of the world behind it. A float is its bits.
\<close>

section \<open>What a stream needs of its context\<close>

text \<open>
  The registers and the memory of a task's context (\<^verbatim>\<open>debugger.RegisterContext\<close>), over an abstract
  world \<open>'v\<close>. \<open>CAlloc\<close> is the \<^verbatim>\<open>alloc\<close> of a pointer stream.
\<close>

record 'v ctx =
  CArch :: arch
  CRegRead :: "reg \<Rightarrow> 'v \<Rightarrow> u64 res"
  CRegWrite :: "reg \<Rightarrow> u64 \<Rightarrow> 'v \<Rightarrow> goerr option \<times> 'v"
  CMemRead :: "u64 \<Rightarrow> u64 \<Rightarrow> 'v \<Rightarrow> byte list res"
  CMemWrite :: "u64 \<Rightarrow> byte list \<Rightarrow> 'v \<Rightarrow> goerr option \<times> 'v"
  CAlloc :: "u64 \<Rightarrow> (u64 res, 'v) go"

section \<open>Pointers\<close>

text \<open>A pointer is its address; the emulator in it is the one of the context.\<close>

definition ptr_Add :: "u64 \<Rightarrow> u64 \<Rightarrow> u64" where
  "ptr_Add p off = p + off"

definition ptr_Sub :: "u64 \<Rightarrow> u64 \<Rightarrow> u64" where
  "ptr_Sub p off = p - off"

definition IsNil :: "u64 \<Rightarrow> bool" where
  "IsNil p = (p = 0)"

text \<open>
  \<^verbatim>\<open>MemReadString\<close>: 16 bytes at a time, until one of them is zero. On a memory without a zero byte it
  does not return.
\<close>

partial_function (option) read_string :: "'v ctx \<Rightarrow> 'v \<Rightarrow> byte list \<Rightarrow> u64 \<Rightarrow> byte list res option" where
  "read_string X v data begin =
     (case CMemRead X begin 16 v of
        Inl err \<Rightarrow> Some (Inl err)
      | Inr buf \<Rightarrow>
          (if 0 \<in> set buf then Some (Inr (data @ takeWhile (\<lambda>b. b \<noteq> 0) buf))
           else read_string X v (data @ buf) (begin + 16)))"

definition MemReadString :: "'v ctx \<Rightarrow> u64 \<Rightarrow> 'v \<Rightarrow> byte list res option" where
  "MemReadString X p v = read_string X v [] p"

definition MemReadPointer :: "'v ctx \<Rightarrow> u64 \<Rightarrow> 'v \<Rightarrow> u64 res" where
  "MemReadPointer X p v =
     (case (case CArch X of
              ARCH_ARM \<Rightarrow> Some 4 | ARCH_X86 \<Rightarrow> Some 4
            | ARCH_ARM64 \<Rightarrow> Some 8 | ARCH_X86_64 \<Rightarrow> Some 8
            | ARCH_UNKNOWN \<Rightarrow> None) of
        None \<Rightarrow> Inl ErrArchUnsupported
      | Some n \<Rightarrow>
          (case CMemRead X p n v of Inl err \<Rightarrow> Inl err | Inr bs \<Rightarrow> Inr (of_le bs)))"

text \<open>\<^verbatim>\<open>ReadAt\<close> and \<^verbatim>\<open>WriteAt\<close> count the whole slice even when the memory refuses.\<close>

definition ptr_ReadAt :: "'v ctx \<Rightarrow> u64 \<Rightarrow> nat \<Rightarrow> int \<Rightarrow> (byte list \<times> nat \<times> goerr option, 'v) go" where
  "ptr_ReadAt X p n off v =
     (case CMemRead X (p + word_of_int off) (of_nat n) v of
        Inl err \<Rightarrow> Ret ([], n, Some err) v
      | Inr bs \<Rightarrow> Ret (bs, n, None) v)"

definition ptr_WriteAt :: "'v ctx \<Rightarrow> u64 \<Rightarrow> byte list \<Rightarrow> int \<Rightarrow> (nat \<times> goerr option, 'v) go" where
  "ptr_WriteAt X p b off v =
     (let (err, v') = CMemWrite X (p + word_of_int off) b v in Ret (length b, err) v')"

section \<open>The buffer\<close>

definition buf_ReadAt :: "byte list \<Rightarrow> nat \<Rightarrow> int \<Rightarrow> panic + (byte list \<times> nat \<times> goerr option)" where
  "buf_ReadAt buf n off =
     (if off \<ge> int (length buf) then Inr ([], 0, Some ErrEOF)
      else if off < 0 then Inl SliceBounds
      else let bs = take n (drop (nat off) buf) in Inr (bs, length bs, None))"

definition buf_WriteAt :: "byte list \<Rightarrow> byte list \<Rightarrow> int \<Rightarrow> panic + (nat \<times> byte list)" where
  "buf_WriteAt buf b off =
     (let end = int (length b) + off;
          buf' = (if end > int (length buf) then buf @ replicate (nat end - length buf) 0 else buf)
      in if off < 0 then Inl SliceBounds
         else Inr (length b, take (nat off) buf' @ b @ drop (nat end) buf'))"

section \<open>The stream over memory\<close>

record pstream =
  PsPtr :: u64
  PsSize :: nat

text \<open>The state of an operation is the stream and the world.\<close>

definition ps_Skip :: "int \<Rightarrow> (unit res, pstream \<times> 'v) go" where
  "ps_Skip n = update (\<lambda>(ps, v). (ps\<lparr>PsPtr := ptr_Add (PsPtr ps) (word_of_int n)\<rparr>, v))"

definition ps_Read :: "'v ctx \<Rightarrow> nat \<Rightarrow> (byte list \<times> goerr option, pstream \<times> 'v) go" where
  "ps_Read X n = seq get (\<lambda>(ps, v).
     seq (on_snd (ptr_ReadAt X (PsPtr ps) n 0)) (\<lambda>(bs, k, err).
       case err of
         None \<Rightarrow> seq (ps_Skip (int k)) (\<lambda>_. ret (bs, None))
       | Some e \<Rightarrow> ret (bs, Some e)))"

definition result :: "goerr option \<Rightarrow> unit res" where
  "result err = (case err of None \<Rightarrow> Inr () | Some e \<Rightarrow> Inl e)"

text \<open>
  Reading a value of \<open>n\<close> bytes into a variable: the bytes that were read, zero elsewhere, and only
  when there was no error.
\<close>

definition val_of :: "byte list \<times> goerr option \<Rightarrow> u64 res" where
  "val_of r = (case r of (bs, None) \<Rightarrow> Inr (of_le bs) | (bs, Some err) \<Rightarrow> Inl err)"

definition ps_ReadFloat :: "'v ctx \<Rightarrow> (u64 res, pstream \<times> 'v) go" where
  "ps_ReadFloat X = seq (ps_Read X 4) (\<lambda>r. ret (val_of r))"

definition ps_ReadDouble :: "'v ctx \<Rightarrow> (u64 res, pstream \<times> 'v) go" where
  "ps_ReadDouble X = seq (ps_Read X 8) (\<lambda>r. ret (val_of r))"

definition ps_ReadString :: "'v ctx \<Rightarrow> (byte list res, pstream \<times> 'v) go" where
  "ps_ReadString X = seq get (\<lambda>(ps, v).
     case MemReadString X (PsPtr ps) v of
       None \<Rightarrow> crash NoReturn
     | Some (Inl err) \<Rightarrow> ret (Inl err)
     | Some (Inr str) \<Rightarrow> seq (ps_Skip (int (length str) + 1)) (\<lambda>_. ret (Inr str)))"

definition PointerStream :: "u64 \<Rightarrow> nat \<Rightarrow> pstream" where
  "PointerStream p n = \<lparr>PsPtr = p, PsSize = n\<rparr>"

definition ps_ReadStream :: "'v ctx \<Rightarrow> (pstream res, pstream \<times> 'v) go" where
  "ps_ReadStream X = seq get (\<lambda>(ps, v).
     case MemReadPointer X (PsPtr ps) v of
       Inl err \<Rightarrow> ret (Inl err)
     | Inr p \<Rightarrow> seq (ps_Skip (int (PsSize ps))) (\<lambda>_. ret (Inr (PointerStream p (PsSize ps)))))"

definition ps_Write :: "'v ctx \<Rightarrow> byte list \<Rightarrow> (unit res, pstream \<times> 'v) go" where
  "ps_Write X b = seq get (\<lambda>(ps, v).
     seq (on_snd (ptr_WriteAt X (PsPtr ps) b 0)) (\<lambda>(k, err).
       case err of
         None \<Rightarrow> ps_Skip (int k)
       | Some e \<Rightarrow> ret (Inl e)))"

definition ps_WriteFloat :: "'v ctx \<Rightarrow> u64 \<Rightarrow> (unit res, pstream \<times> 'v) go" where
  "ps_WriteFloat X f = ps_Write X (le_bytes 4 f)"

definition ps_WriteDouble :: "'v ctx \<Rightarrow> u64 \<Rightarrow> (unit res, pstream \<times> 'v) go" where
  "ps_WriteDouble X d = ps_Write X (le_bytes 8 d)"

definition ps_WriteString :: "'v ctx \<Rightarrow> byte list \<Rightarrow> (unit res, pstream \<times> 'v) go" where
  "ps_WriteString X str = ps_Write X (str @ [0])"

text \<open>The error of writing the address is dropped.\<close>

definition ps_WriteStream :: "'v ctx \<Rightarrow> int \<Rightarrow> (pstream res, pstream \<times> 'v) go" where
  "ps_WriteStream X n = attempt (on_snd (CAlloc X (word_of_int n))) (\<lambda>p.
     seq get (\<lambda>(ps, v).
       if PsSize ps > 8 then crash SliceBounds
       else seq (ps_Write X (take (PsSize ps) (le_bytes 8 p)))
         (\<lambda>_. ret (Inr (PointerStream p (PsSize ps))))))"

section \<open>The stream over registers\<close>

text \<open>
  What differs between the two copies: the size of a pointer, the number of argument registers, the
  first integer and floating-point registers, the register \<^verbatim>\<open>WriteDouble\<close> starts from, and the size
  of the variable an address is kept in.
\<close>

record regconf =
  POINTER_SIZE :: nat
  ARG_REG_COUNT :: nat
  GpReg :: reg
  SReg :: reg
  DReg :: reg
  WdReg :: reg
  AddrSize :: nat

text \<open>
  The \<^verbatim>\<open>stack\<close> of the stream: no interface value at all, emulator memory at an address, or a buffer
  the stream's owner reads afterwards.
\<close>

datatype stack_dev = NoStack | MemStack u64 | BufStack "byte list"

record rstream =
  stoff :: int
  groff :: int
  vroff :: int
  rvalue :: u64
  stack :: stack_dev

definition new_rstream :: "stack_dev \<Rightarrow> rstream" where
  "new_rstream d = \<lparr>stoff = 0, groff = 0, vroff = 0, rvalue = 0, stack = d\<rparr>"

definition rs_limit :: "regconf \<Rightarrow> int" where
  "rs_limit C = int (ARG_REG_COUNT C) * int (POINTER_SIZE C)"

definition rs_Align :: "regconf \<Rightarrow> rstream \<Rightarrow> rstream" where
  "rs_Align C rs = rs\<lparr>stoff := Align (stoff rs) 4, groff := Align (groff rs) (int (POINTER_SIZE C))\<rparr>"

definition rs_Skip :: "regconf \<Rightarrow> int \<Rightarrow> (unit res, rstream \<times> 'v) go" where
  "rs_Skip C n = update (\<lambda>(rs, v).
     (if groff rs < rs_limit C then rs\<lparr>groff := groff rs + n\<rparr> else rs\<lparr>stoff := stoff rs + n\<rparr>, v))"

definition rs_stack_read :: "'v ctx \<Rightarrow> nat \<Rightarrow> (byte list \<times> nat \<times> goerr option, rstream \<times> 'v) go" where
  "rs_stack_read X n = (\<lambda>(rs, v).
     case stack rs of
       NoStack \<Rightarrow> Panic NilDeref (rs, v)
     | MemStack p \<Rightarrow> on_snd (ptr_ReadAt X p n (stoff rs)) (rs, v)
     | BufStack buf \<Rightarrow>
         (case buf_ReadAt buf n (stoff rs) of Inl p \<Rightarrow> Panic p (rs, v) | Inr r \<Rightarrow> Ret r (rs, v)))"

definition rs_stack_write :: "'v ctx \<Rightarrow> byte list \<Rightarrow> (nat \<times> goerr option, rstream \<times> 'v) go" where
  "rs_stack_write X b = (\<lambda>(rs, v).
     case stack rs of
       NoStack \<Rightarrow> Panic NilDeref (rs, v)
     | MemStack p \<Rightarrow> on_snd (ptr_WriteAt X p b (stoff rs)) (rs, v)
     | BufStack buf \<Rightarrow>
         (case buf_WriteAt buf b (stoff rs) of
            Inl p \<Rightarrow> Panic p (rs, v)
          | Inr (k, buf') \<Rightarrow> Ret (k, None) (rs\<lparr>stack := BufStack buf'\<rparr>, v)))"

text \<open>The rest of a read or a write on the stack, with the offset moved on.\<close>

definition rs_read_tail :: "'v ctx \<Rightarrow> nat \<Rightarrow> (byte list \<times> goerr option, rstream \<times> 'v) go" where
  "rs_read_tail X n = seq (rs_stack_read X n) (\<lambda>(bs, k, err).
     seq (update (\<lambda>(rs, v). (rs\<lparr>stoff := stoff rs + int k\<rparr>, v))) (\<lambda>_. ret (bs, err)))"

definition rs_write_tail :: "'v ctx \<Rightarrow> byte list \<Rightarrow> (unit res, rstream \<times> 'v) go" where
  "rs_write_tail X b = seq (rs_stack_write X b) (\<lambda>(k, err).
     seq (update (\<lambda>(rs, v). (rs\<lparr>stoff := stoff rs + int k\<rparr>, v))) (\<lambda>_. ret (result err)))"

text \<open>The loop over whole registers: \<open>n\<close> bytes are left, \<open>cnt\<close> is the next register.\<close>

function rs_read_loop :: "regconf \<Rightarrow> 'v ctx \<Rightarrow> int \<Rightarrow> nat \<Rightarrow>
    (byte list \<times> goerr option, rstream \<times> 'v) go" where
  "rs_read_loop C X cnt n = (\<lambda>(rs, v).
     if n = 0 then Ret ([], None) (rs, v)
     else if groff rs \<ge> rs_limit C then rs_read_tail X n (rs, v)
     else case CRegRead X (GpReg C + cnt) v of
       Inl err \<Rightarrow> Ret ([], Some err) (rs\<lparr>rvalue := 0\<rparr>, v)
     | Inr val \<Rightarrow>
         (let k = min n 8
          in seq (rs_read_loop C X (cnt + 1) (n - k)) (\<lambda>(bs, err). ret (le_bytes k val @ bs, err))
               (rs\<lparr>rvalue := val, groff := groff rs + int k\<rparr>, v)))"
  by pat_completeness auto
termination by (relation "measure (\<lambda>(C, X, cnt, n). n)") auto

definition rs_Read :: "regconf \<Rightarrow> 'v ctx \<Rightarrow> nat \<Rightarrow> (byte list \<times> goerr option, rstream \<times> 'v) go" where
  "rs_Read C X n = (\<lambda>(rs, v).
     if groff rs \<ge> rs_limit C then rs_read_tail X n (rs, v)
     else
       let cnt = groff rs div int (POINTER_SIZE C);
           i = nat (groff rs mod int (POINTER_SIZE C))
       in if i > 0
          then let bs = take n (drop i (le_bytes 8 (rvalue rs)))
               in seq (rs_read_loop C X (cnt + 1) (n - length bs)) (\<lambda>(cs, err). ret (bs @ cs, err))
                    (rs\<lparr>groff := groff rs + int (length bs)\<rparr>, v)
          else rs_read_loop C X cnt n (rs, v))"

text \<open>The bytes of a value with some of them replaced: \<^verbatim>\<open>copy(ToPtrRaw(&value)[i:], b)\<close>.\<close>

definition put_bytes :: "nat \<Rightarrow> byte list \<Rightarrow> u64 \<Rightarrow> u64" where
  "put_bytes i b v = (let raw = le_bytes 8 v; c = take (8 - i) b
                      in of_le (take i raw @ c @ drop (i + length c) raw))"

function rs_write_loop :: "regconf \<Rightarrow> 'v ctx \<Rightarrow> int \<Rightarrow> byte list \<Rightarrow>
    (unit res, rstream \<times> 'v) go" where
  "rs_write_loop C X cnt b = (\<lambda>(rs, v).
     if b = [] then Ret (Inr ()) (rs, v)
     else if groff rs \<ge> rs_limit C then rs_write_tail X b (rs, v)
     else
       let k = min (length b) 8;
           val = put_bytes 0 b (rvalue rs)
       in case CRegWrite X (GpReg C + cnt) val v of
            (Some err, v') \<Rightarrow> Ret (Inl err) (rs\<lparr>rvalue := val\<rparr>, v')
          | (None, v') \<Rightarrow>
              rs_write_loop C X (cnt + 1) (drop k b)
                (rs\<lparr>rvalue := val, groff := groff rs + int k\<rparr>, v'))"
  by pat_completeness auto
termination by (relation "measure (\<lambda>(C, X, cnt, b). length b)") auto

definition rs_Write :: "regconf \<Rightarrow> 'v ctx \<Rightarrow> byte list \<Rightarrow> (unit res, rstream \<times> 'v) go" where
  "rs_Write C X b = (\<lambda>(rs, v).
     if groff rs \<ge> rs_limit C then rs_write_tail X b (rs, v)
     else
       let cnt = groff rs div int (POINTER_SIZE C);
           i = nat (groff rs mod int (POINTER_SIZE C))
       in if i > 0
          then let k = min (8 - i) (length b);
                   val = put_bytes i b (rvalue rs)
               in case CRegWrite X (GpReg C + cnt) val v of
                    (Some err, v') \<Rightarrow> Ret (Inl err) (rs\<lparr>rvalue := val\<rparr>, v')
                  | (None, v') \<Rightarrow>
                      rs_write_loop C X (cnt + 1) (drop k b)
                        (rs\<lparr>rvalue := val, groff := groff rs + int k\<rparr>, v')
          else rs_write_loop C X cnt b (rs, v))"

declare rs_read_loop.simps [simp del] rs_write_loop.simps [simp del]

definition rs_ReadFloat :: "regconf \<Rightarrow> 'v ctx \<Rightarrow> (u64 res, rstream \<times> 'v) go" where
  "rs_ReadFloat C X = (\<lambda>(rs, v).
     if vroff rs \<ge> int (ARG_REG_COUNT C) then
       seq (rs_stack_read X 4) (\<lambda>(bs, k, err).
         seq (update (\<lambda>(rs, v). (rs\<lparr>stoff := stoff rs + 4\<rparr>, v))) (\<lambda>_. ret (val_of (bs, err)))) (rs, v)
     else case CRegRead X (SReg C + vroff rs) v of
       Inl err \<Rightarrow> Ret (Inl err) (rs, v)
     | Inr val \<Rightarrow> Ret (Inr (take_bit 32 val)) (rs\<lparr>vroff := vroff rs + 1\<rparr>, v))"

definition rs_ReadDouble :: "regconf \<Rightarrow> 'v ctx \<Rightarrow> (u64 res, rstream \<times> 'v) go" where
  "rs_ReadDouble C X = (\<lambda>(rs, v).
     if vroff rs \<ge> int (ARG_REG_COUNT C) then
       seq (rs_stack_read X 8) (\<lambda>(bs, k, err).
         seq (update (\<lambda>(rs, v). (rs\<lparr>stoff := stoff rs + 8\<rparr>, v))) (\<lambda>_. ret (val_of (bs, err)))) (rs, v)
     else case CRegRead X (DReg C + vroff rs) v of
       Inl err \<Rightarrow> Ret (Inl err) (rs, v)
     | Inr val \<Rightarrow> Ret (Inr val) (rs\<lparr>vroff := vroff rs + 1\<rparr>, v))"

definition rs_ReadStream :: "regconf \<Rightarrow> 'v ctx \<Rightarrow> (pstream res, rstream \<times> 'v) go" where
  "rs_ReadStream C X = seq (rs_Read C X (AddrSize C)) (\<lambda>r.
     ret (case val_of r of
            Inl err \<Rightarrow> Inl err
          | Inr addr \<Rightarrow> Inr (PointerStream addr (POINTER_SIZE C))))"

text \<open>A write to a floating-point register, or to the stack when they are used up.\<close>

definition rs_write_vec :: "regconf \<Rightarrow> 'v ctx \<Rightarrow> nat \<Rightarrow> reg \<Rightarrow> u64 \<Rightarrow> (unit res, rstream \<times> 'v) go" where
  "rs_write_vec C X n r val = (\<lambda>(rs, v).
     if vroff rs \<ge> int (ARG_REG_COUNT C) then
       seq (rs_stack_write X (le_bytes n val)) (\<lambda>(k, err).
         seq (update (\<lambda>(rs, v). (rs\<lparr>stoff := stoff rs + int n\<rparr>, v))) (\<lambda>_. ret (result err))) (rs, v)
     else case CRegWrite X (r + vroff rs) val v of
       (Some err, v') \<Rightarrow> Ret (Inl err) (rs, v')
     | (None, v') \<Rightarrow> Ret (Inr ()) (rs\<lparr>vroff := vroff rs + 1\<rparr>, v'))"

definition rs_WriteFloat :: "regconf \<Rightarrow> 'v ctx \<Rightarrow> u64 \<Rightarrow> (unit res, rstream \<times> 'v) go" where
  "rs_WriteFloat C X f = rs_write_vec C X 4 (SReg C) f"

definition rs_WriteDouble :: "regconf \<Rightarrow> 'v ctx \<Rightarrow> u64 \<Rightarrow> (unit res, rstream \<times> 'v) go" where
  "rs_WriteDouble C X d = rs_write_vec C X 8 (WdReg C) d"

definition rs_WriteStream :: "regconf \<Rightarrow> 'v ctx \<Rightarrow> int \<Rightarrow> (pstream res, rstream \<times> 'v) go" where
  "rs_WriteStream C X n = attempt (on_snd (CAlloc X (word_of_int n))) (\<lambda>p.
     attempt (rs_Write C X (le_bytes (AddrSize C) p)) (\<lambda>_.
       ret (Inr (PointerStream p (POINTER_SIZE C)))))"

section \<open>The interface\<close>

text \<open>
  \<^verbatim>\<open>encoding.Stream\<close>: the operations an encoder calls, over a type of streams \<open>'s\<close>. \<^verbatim>\<open>Read\<close> returns
  the bytes it got; the caller stores them.
\<close>

record ('s, 'v) stream_ops =
  BlockSize :: "'s \<Rightarrow> nat"
  Offset :: "'s \<Rightarrow> u64"
  SSkip :: "int \<Rightarrow> (unit res, 's \<times> 'v) go"
  SRead :: "nat \<Rightarrow> (byte list \<times> goerr option, 's \<times> 'v) go"
  ReadFloat :: "(u64 res, 's \<times> 'v) go"
  ReadDouble :: "(u64 res, 's \<times> 'v) go"
  ReadString :: "(byte list res, 's \<times> 'v) go"
  ReadStream :: "('s res, 's \<times> 'v) go"
  SWrite :: "byte list \<Rightarrow> (unit res, 's \<times> 'v) go"
  WriteFloat :: "u64 \<Rightarrow> (unit res, 's \<times> 'v) go"
  WriteDouble :: "u64 \<Rightarrow> (unit res, 's \<times> 'v) go"
  WriteString :: "byte list \<Rightarrow> (unit res, 's \<times> 'v) go"
  WriteStream :: "int \<Rightarrow> ('s res, 's \<times> 'v) go"

text \<open>The two implementations of the interface, and the choice between them at run time.\<close>

datatype stream = PtrS pstream | RegS rstream

definition wrap :: "('s \<Rightarrow> stream) \<Rightarrow> ('a, 's \<times> 'v) outcome \<Rightarrow> ('a, stream \<times> 'v) outcome" where
  "wrap c r = (case r of
     Ret a (s, v) \<Rightarrow> Ret a (c s, v)
   | Panic p (s, v) \<Rightarrow> Panic p (c s, v))"

definition by_kind ::
  "('a, pstream \<times> 'v) go \<Rightarrow> ('a, rstream \<times> 'v) go \<Rightarrow> ('a, stream \<times> 'v) go" where
  "by_kind m k = (\<lambda>(s, v).
     case s of PtrS ps \<Rightarrow> wrap PtrS (m (ps, v)) | RegS rs \<Rightarrow> wrap RegS (k (rs, v)))"

definition sub_of :: "(pstream res, 's) go \<Rightarrow> (stream res, 's) go" where
  "sub_of m = attempt m (\<lambda>ps. ret (Inr (PtrS ps)))"

definition streams :: "regconf \<Rightarrow> 'v ctx \<Rightarrow> (stream, 'v) stream_ops" where
  "streams C X = \<lparr>
     BlockSize = (\<lambda>s. case s of PtrS ps \<Rightarrow> PsSize ps | RegS rs \<Rightarrow> POINTER_SIZE C),
     Offset = (\<lambda>s. case s of PtrS ps \<Rightarrow> PsPtr ps | RegS rs \<Rightarrow> 0),
     SSkip = (\<lambda>n. by_kind (ps_Skip n) (rs_Skip C n)),
     SRead = (\<lambda>n. by_kind (ps_Read X n) (rs_Read C X n)),
     ReadFloat = by_kind (ps_ReadFloat X) (rs_ReadFloat C X),
     ReadDouble = by_kind (ps_ReadDouble X) (rs_ReadDouble C X),
     ReadString = by_kind (ps_ReadString X) (ret (Inl ErrUnsupported)),
     ReadStream = by_kind (sub_of (ps_ReadStream X)) (sub_of (rs_ReadStream C X)),
     SWrite = (\<lambda>b. by_kind (ps_Write X b) (rs_Write C X b)),
     WriteFloat = (\<lambda>f. by_kind (ps_WriteFloat X f) (rs_WriteFloat C X f)),
     WriteDouble = (\<lambda>d. by_kind (ps_WriteDouble X d) (rs_WriteDouble C X d)),
     WriteString = (\<lambda>str. by_kind (ps_WriteString X str) (ret (Inl ErrUnsupported))),
     WriteStream = (\<lambda>n. by_kind (sub_of (ps_WriteStream X n)) (sub_of (rs_WriteStream C X n)))\<rparr>"

end
