(* ===== verification/Encoding.thy ===== *)
theory Encoding
  imports Streams
begin

text \<open>
  The encoder and decoder of \<^verbatim>\<open>encoding/\<close>: a Go value of any type laid out in the guest's memory or
  registers. As in the code a type is first compiled to a handler and to the sizes of its pieces
  (\<^verbatim>\<open>encode\<close>, \<^verbatim>\<open>decode\<close>); the handler then runs on a stream and a pointer into the debugger's own
  memory, which is a map from addresses to bytes here, with a bump allocator for what the Go
  run-time allocates. The caches \<^verbatim>\<open>encodeProcess\<close> and \<^verbatim>\<open>decodeProcess\<close> keep the result per type and
  block size and are left out. A type is a finite tree, as \<^verbatim>\<open>reflect\<close> describes it on a 64-bit host;
  a recursive Go type, on which the code does not return, has no tree.
\<close>

section \<open>The debugger's own memory\<close>

record host =
  hbytes :: "u64 \<Rightarrow> byte"
  hnext :: u64

text \<open>
  A read or a write through a pointer of the first page is a nil dereference, as is a slice made
  over a nil pointer; both panic, unless they are empty.
\<close>

definition hguard :: "u64 \<Rightarrow> nat \<Rightarrow> (unit res, 'q \<times> host) go" where
  "hguard p n = (if 0 < n \<and> unat p < 4096 then crash NilDeref else ret (Inr ()))"

definition hread :: "u64 \<Rightarrow> nat \<Rightarrow> (byte list res, 'q \<times> host) go" where
  "hread p n = attempt (hguard p n) (\<lambda>_. \<lambda>(q, h). Ret (Inr (read_bytes p n (hbytes h))) (q, h))"

definition hwrite :: "u64 \<Rightarrow> byte list \<Rightarrow> (unit res, 'q \<times> host) go" where
  "hwrite p bs = attempt (hguard p (length bs))
     (\<lambda>_. update (\<lambda>(q, h). (q, h\<lparr>hbytes := write_bytes p bs (hbytes h)\<rparr>)))"

definition hread_ptr :: "u64 \<Rightarrow> (u64 res, 'q \<times> host) go" where
  "hread_ptr p = attempt (hread p 8) (\<lambda>bs. ret (Inr (of_le bs)))"

definition hwrite_ptr :: "u64 \<Rightarrow> u64 \<Rightarrow> (unit res, 'q \<times> host) go" where
  "hwrite_ptr p q = hwrite p (le_bytes 8 q)"

text \<open>Memory of the Go run-time: zeroed, or a copy of some bytes.\<close>

definition hnew :: "byte list \<Rightarrow> (u64 res, 'q \<times> host) go" where
  "hnew bs = (\<lambda>(q, h). Ret (Inr (hnext h))
     (q, \<lparr>hbytes = write_bytes (hnext h) bs (hbytes h), hnext = hnext h + of_nat (length bs)\<rparr>))"

section \<open>Types\<close>

datatype kind =
    Bool | Int8 | Int16 | Int32 | Int64 | Uint8 | Uint16 | Uint32 | Uint64 | Complex64 | Complex128
  | Float32 | Float64
  | GoInt | Uint | Uintptr | UnsafePointer

fun kind_size :: "kind \<Rightarrow> nat" where
  "kind_size Bool = 1" | "kind_size Int8 = 1" | "kind_size Int16 = 2" | "kind_size Int32 = 4"
| "kind_size Int64 = 8" | "kind_size Uint8 = 1" | "kind_size Uint16 = 2" | "kind_size Uint32 = 4"
| "kind_size Uint64 = 8" | "kind_size Complex64 = 8" | "kind_size Complex128 = 16"
| "kind_size Float32 = 4" | "kind_size Float64 = 8"
| "kind_size GoInt = 8" | "kind_size Uint = 8" | "kind_size Uintptr = 8" | "kind_size UnsafePointer = 8"

definition word_kind :: "kind \<Rightarrow> bool" where
  "word_kind k = (k = GoInt \<or> k = Uint \<or> k = Uintptr \<or> k = UnsafePointer)"

text \<open>
  A struct has its size and, for each field, its type, its offset and the value of its \<^verbatim>\<open>encoding\<close>
  tag. \<open>Other\<close> is a type the encoder does not support, with its size.
\<close>

datatype gotype =
    Basic kind
  | Array nat gotype
  | Slice gotype
  | Pointer gotype
  | StringT
  | Struct nat "(gotype \<times> nat \<times> string) list"
  | Other nat

fun go_size :: "gotype \<Rightarrow> nat" where
  "go_size (Basic k) = kind_size k"
| "go_size (Array n t) = n * go_size t"
| "go_size (Slice t) = 24"
| "go_size (Pointer t) = 8"
| "go_size StringT = 16"
| "go_size (Struct n fs) = n"
| "go_size (Other n) = n"

fun checkCustom :: "gotype \<Rightarrow> nat \<Rightarrow> bool" where
  "checkCustom (Basic k) bs = (word_kind k \<and> kind_size k \<noteq> bs)"
| "checkCustom _ bs = True"

section \<open>Sizes\<close>

type_synonym structSize = "int list"

definition ss_Add :: "structSize \<Rightarrow> structSize \<Rightarrow> structSize" where
  "ss_Add ss n = ss @ n"

definition ss_Size :: "structSize \<Rightarrow> int" where
  "ss_Size ss = fold (+) ss 0"

text \<open>
  The first loop of \<^verbatim>\<open>encodeStruct\<close>: the gaps between the offsets of the fields, up to the first
  field that needs a handler of its own. \<open>None\<close> stands for \<^verbatim>\<open>needCustom\<close>; the second component is the
  offset of the last field.
\<close>

fun plain_fields :: "nat \<Rightarrow> (gotype \<times> nat \<times> string) list \<Rightarrow> int \<Rightarrow> structSize \<Rightarrow> (structSize \<times> int) option" where
  "plain_fields bs [] offset n = Some (n, offset)"
| "plain_fields bs ((t, off, tag) # fs) offset n =
     (if tag = ''ignore'' then None
      else if checkCustom t bs then None
      else plain_fields bs fs (int off)
             (if int off - offset \<noteq> 0 then n @ [int off - offset] else n))"

text \<open>The same loop, as \<^verbatim>\<open>decodeStruct\<close> has it.\<close>

fun dec_plain_fields ::
  "nat \<Rightarrow> (gotype \<times> nat \<times> string) list \<Rightarrow> int \<Rightarrow> structSize \<Rightarrow> (structSize \<times> int) option" where
  "dec_plain_fields bs [] offset n = Some (n, offset)"
| "dec_plain_fields bs ((t, off, tag) # fs) offset n =
     (if tag = ''ignore'' then None
      else if checkCustom t bs then None
      else (let s = int off - offset
            in dec_plain_fields bs fs (int off) (if s \<noteq> 0 then n @ [s] else n)))"

text \<open>The padding of a field and of the end of a struct.\<close>

definition field_pad :: "structSize \<Rightarrow> int \<Rightarrow> panic + int" where
  "field_pad n offset =
     (case n of [] \<Rightarrow> Inl IndexRange | s # _ \<Rightarrow> Inr (enc_align offset s - offset))"

definition end_pad :: "structSize \<Rightarrow> int" where
  "end_pad n = enc_align (ss_Size n) (fold max n 0) - ss_Size n"

section \<open>Handlers\<close>

text \<open>
  A handler takes a pointer to the value. \<open>on_sub\<close> runs a computation on a stream another stream
  has handed out, and comes back to the first one.
\<close>

type_synonym ('s, 'v) handler = "u64 \<Rightarrow> (unit res, ('s \<times> 'v) \<times> host) go"

definition on_sub :: "'s \<Rightarrow> ('a, ('s \<times> 'v) \<times> host) go \<Rightarrow> ('a, ('s \<times> 'v) \<times> host) go" where
  "on_sub sub m = (\<lambda>((s, v), h).
     case m ((sub, v), h) of
       Ret a ((_, v'), h') \<Rightarrow> Ret a ((s, v'), h')
     | Panic p ((_, v'), h') \<Rightarrow> Panic p ((s, v'), h'))"

text \<open>A loop over \<open>n\<close> elements a fixed step apart, and over the fields of a struct.\<close>

primrec elems :: "('s, 'v) handler \<Rightarrow> int \<Rightarrow> nat \<Rightarrow> ('s, 'v) handler" where
  "elems m step 0 p = ret (Inr ())"
| "elems m step (Suc n) p = attempt (m p) (\<lambda>_. elems m step n (p + word_of_int step))"

definition run_fields :: "(('s, 'v) handler \<times> nat) list \<Rightarrow> ('s, 'v) handler" where
  "run_fields hs p = each (\<lambda>(m, off). m (p + of_nat off)) hs"

definition skip_pad :: "('s, 'v) stream_ops \<Rightarrow> int \<Rightarrow> (unit res, ('s \<times> 'v) \<times> host) go" where
  "skip_pad S pad = (if pad > 0 then on_fst (SSkip S pad) else ret (Inr ()))"

text \<open>The header of a slice or a string: \<^verbatim>\<open>sliceData\<close>.\<close>

definition slice_data :: "u64 \<Rightarrow> ((u64 \<times> int) res, 'q \<times> host) go" where
  "slice_data p = attempt (hread_ptr p) (\<lambda>data. attempt (hread_ptr (p + 8)) (\<lambda>len. ret (Inr (data, sint len))))"

section \<open>Encoding\<close>

definition enc_raw :: "('s, 'v) stream_ops \<Rightarrow> nat \<Rightarrow> ('s, 'v) handler" where
  "enc_raw S n p = attempt (hread p n) (\<lambda>bs. on_fst (SWrite S bs))"

definition enc_null :: "('s, 'v) stream_ops \<Rightarrow> nat \<Rightarrow> (unit res, ('s \<times> 'v) \<times> host) go" where
  "enc_null S n = (if n > 8 then crash SliceBounds else on_fst (SWrite S (replicate n 0)))"

definition enc_word :: "('s, 'v) stream_ops \<Rightarrow> nat \<Rightarrow> nat \<Rightarrow> ('s, 'v) handler" where
  "enc_word S n bs p =
     attempt (enc_raw S (min n bs) p) (\<lambda>_. if n < bs then enc_null S (bs - n) else ret (Inr ()))"

definition encodePointer ::
  "('s, 'v) stream_ops \<Rightarrow> nat \<Rightarrow> ('s, 'v) handler \<times> structSize \<Rightarrow> ('s, 'v) handler \<times> structSize" where
  "encodePointer S bs = (\<lambda>(m, n).
     (\<lambda>p. if p = 0 then on_fst (SSkip S (int bs))
           else attempt (on_fst (WriteStream S (ss_Size n))) (\<lambda>sub.
             attempt (hread_ptr p) (\<lambda>q. on_sub sub (m q))),
      [int bs]))"

definition encodeArray_plain :: "('s, 'v) stream_ops \<Rightarrow> nat \<Rightarrow> nat \<Rightarrow> ('s, 'v) handler \<times> structSize" where
  "encodeArray_plain S cnt elemSize =
     (let n = replicate cnt (int elemSize) in (enc_raw S (nat (ss_Size n)), n))"

definition encodeArray_custom :: "nat \<Rightarrow> ('s, 'v) handler \<times> structSize \<Rightarrow> ('s, 'v) handler \<times> structSize" where
  "encodeArray_custom cnt = (\<lambda>(m, n). (elems m (ss_Size n) cnt, concat (replicate cnt n)))"

definition encodeSlice_plain ::
  "('s, 'v) stream_ops \<Rightarrow> nat \<Rightarrow> nat \<Rightarrow> ('s, 'v) handler \<times> structSize" where
  "encodeSlice_plain S bs elemSize =
     (\<lambda>p. attempt (slice_data p) (\<lambda>(data, len).
        attempt (on_fst (WriteStream S (int elemSize * len))) (\<lambda>sub.
          attempt (hread data (nat (int elemSize * len))) (\<lambda>b. on_sub sub (on_fst (SWrite S b))))),
      [int bs])"

definition encodeSlice_custom ::
  "('s, 'v) stream_ops \<Rightarrow> nat \<Rightarrow> ('s, 'v) handler \<times> structSize \<Rightarrow> ('s, 'v) handler \<times> structSize" where
  "encodeSlice_custom S bs = (\<lambda>(m, n).
     (\<lambda>p. attempt (slice_data p) (\<lambda>(data, len).
        attempt (on_fst (WriteStream S (ss_Size n * len))) (\<lambda>sub.
          on_sub sub (elems m (ss_Size n) (nat len) data))),
      [int bs]))"

definition encodeString :: "('s, 'v) stream_ops \<Rightarrow> nat \<Rightarrow> ('s, 'v) handler \<times> structSize" where
  "encodeString S bs =
     (\<lambda>p. attempt (slice_data p) (\<lambda>(data, len).
        attempt (on_fst (WriteStream S (len + 1))) (\<lambda>sub.
          attempt (hread data (nat len)) (\<lambda>b. on_sub sub (on_fst (WriteString S b))))),
      [int bs, int bs])"

text \<open>\<^verbatim>\<open>encodeStruct\<close> for a struct whose fields need no handlers.\<close>

definition encodeStruct_plain ::
  "('s, 'v) stream_ops \<Rightarrow> nat \<Rightarrow> structSize \<times> int \<Rightarrow> ('s, 'v) handler \<times> structSize" where
  "encodeStruct_plain S sz = (\<lambda>(n, offset).
     let n' = n @ [int sz - offset] in (enc_raw S (nat (ss_Size n')), n'))"

text \<open>\<^verbatim>\<open>encodeFieldAlign\<close>: the handler of a field, after its padding.\<close>

definition field_align ::
  "('s, 'v) stream_ops \<Rightarrow> int \<Rightarrow> ('s, 'v) handler \<times> structSize \<Rightarrow> panic + ('s, 'v) handler \<times> structSize" where
  "field_align S offset = (\<lambda>(m, n).
     case field_pad n offset of
       Inl p \<Rightarrow> Inl p
     | Inr pad \<Rightarrow>
         if pad = 0 then Inr (m, n)
         else Inr (\<lambda>p. attempt (on_fst (SSkip S pad)) (\<lambda>_. m p), pad # n))"

text \<open>The end of \<^verbatim>\<open>encodeStruct\<close>, once the fields have their handlers.\<close>

definition struct_end ::
  "('s, 'v) stream_ops \<Rightarrow> (('s, 'v) handler \<times> nat) list \<times> structSize \<Rightarrow> ('s, 'v) handler \<times> structSize" where
  "struct_end S = (\<lambda>(hs, n).
     (\<lambda>p. attempt (run_fields hs p) (\<lambda>_. skip_pad S (end_pad n)),
      if end_pad n > 0 then n @ [end_pad n] else n))"

definition unsupported :: panic where
  "unsupported = PanicMsg ''Unsupported Type''"

fun encode :: "('s, 'v) stream_ops \<Rightarrow> nat \<Rightarrow> gotype \<Rightarrow> panic + ('s, 'v) handler \<times> structSize"
  and encode_fields :: "('s, 'v) stream_ops \<Rightarrow> nat \<Rightarrow> (gotype \<times> nat \<times> string) list \<Rightarrow> structSize \<Rightarrow>
    panic + (('s, 'v) handler \<times> nat) list \<times> structSize" where
  "encode S bs (Basic k) =
     Inr (if k = Float32 then (\<lambda>p. attempt (hread p 4) (\<lambda>b. on_fst (WriteFloat S (of_le b))), [4])
          else if k = Float64 then (\<lambda>p. attempt (hread p 8) (\<lambda>b. on_fst (WriteDouble S (of_le b))), [8])
          else if word_kind k then (enc_word S (kind_size k) bs, [int bs])
          else (enc_raw S (kind_size k), [int (kind_size k)]))"
| "encode S bs (Array cnt t) =
     (if \<not> checkCustom t bs then Inr (encodeArray_plain S cnt (go_size t))
      else case encode S bs t of Inl p \<Rightarrow> Inl p | Inr mn \<Rightarrow> Inr (encodeArray_custom cnt mn))"
| "encode S bs (Pointer t) =
     (case encode S bs t of Inl p \<Rightarrow> Inl p | Inr mn \<Rightarrow> Inr (encodePointer S bs mn))"
| "encode S bs (Slice t) =
     (if \<not> checkCustom t bs then Inr (encodeSlice_plain S bs (go_size t))
      else case encode S bs t of Inl p \<Rightarrow> Inl p | Inr mn \<Rightarrow> Inr (encodeSlice_custom S bs mn))"
| "encode S bs StringT = Inr (encodeString S bs)"
| "encode S bs (Struct sz fs) =
     (case plain_fields bs fs 0 [] of
        Some no \<Rightarrow> Inr (encodeStruct_plain S sz no)
      | None \<Rightarrow>
          (case encode_fields S bs fs [] of Inl p \<Rightarrow> Inl p | Inr hn \<Rightarrow> Inr (struct_end S hn)))"
| "encode S bs (Other sz) = Inl unsupported"
| "encode_fields S bs [] n = Inr ([], n)"
| "encode_fields S bs ((t, off, tag) # fs) n =
     (if tag = ''ignore'' then encode_fields S bs fs n
      else case encode S bs t of
        Inl p \<Rightarrow> Inl p
      | Inr mn \<Rightarrow>
          (case field_align S (ss_Size n) mn of
             Inl p \<Rightarrow> Inl p
           | Inr (m', n') \<Rightarrow>
               (case encode_fields S bs fs (ss_Add n n') of
                  Inl p \<Rightarrow> Inl p
                | Inr (hs, n'') \<Rightarrow> Inr ((m', off) # hs, n''))))"

text \<open>
  An interface value: its type and its data word, which is the value itself for a pointer and for a
  struct of one pointer, and the address of the value otherwise. For the first two, \<^verbatim>\<open>Encode\<close> passes
  the address of a variable that holds the word.
\<close>

record goany =
  AnyType :: gotype
  AnyPtr :: u64

definition one_pointer :: "gotype \<Rightarrow> bool" where
  "one_pointer t = (case t of Struct _ [(Pointer _, _, _)] \<Rightarrow> True | _ \<Rightarrow> False)"

definition is_pointer :: "gotype \<Rightarrow> bool" where
  "is_pointer t = (case t of Pointer _ \<Rightarrow> True | _ \<Rightarrow> False)"

definition with_var :: "u64 \<Rightarrow> ('s, 'v) handler \<Rightarrow> (unit res, ('s \<times> 'v) \<times> host) go" where
  "with_var q m = attempt (hnew (le_bytes 8 q)) m"

definition EncodeSize ::
  "('s, 'v) stream_ops \<Rightarrow> nat \<Rightarrow> goany \<Rightarrow> panic + int" where
  "EncodeSize S bs val =
     (if AnyPtr val = 0 then Inr (int bs)
      else case encode S bs (AnyType val) of Inl p \<Rightarrow> Inl p | Inr (m, n) \<Rightarrow> Inr (ss_Size n))"

definition Encode :: "('s, 'v) stream_ops \<Rightarrow> goany \<Rightarrow> (unit res, ('s \<times> 'v) \<times> host) go" where
  "Encode S val = seq get (\<lambda>((s, v), h).
     let bs = BlockSize S s; p = AnyPtr val; t = AnyType val
     in if p = 0 then enc_null S bs
        else case encode S bs t of
          Inl c \<Rightarrow> crash c
        | Inr (m, _) \<Rightarrow> if is_pointer t \<or> one_pointer t then with_var p m else m p)"

section \<open>Decoding\<close>

text \<open>
  A decoder of a slice or a string runs on a \<open>fake\<close> stream when it is the value itself that is
  decoded: the stream that holds the contents is then the stream itself.
\<close>

definition with_sub ::
  "('s, 'v) stream_ops \<Rightarrow> bool \<Rightarrow> (unit res, ('s \<times> 'v) \<times> host) go \<Rightarrow> (unit res, ('s \<times> 'v) \<times> host) go" where
  "with_sub S fake body =
     (if fake then seq get (\<lambda>((s, v), h). if Offset S s = 0 then ret (Inr ()) else body)
      else attempt (on_fst (ReadStream S)) (\<lambda>sub.
        if Offset S sub = 0 then ret (Inr ()) else on_sub sub body))"

definition dec_raw :: "('s, 'v) stream_ops \<Rightarrow> nat \<Rightarrow> ('s, 'v) handler" where
  "dec_raw S n p = attempt (hguard p n) (\<lambda>_.
     seq (on_fst (SRead S n)) (\<lambda>(bs, err). attempt (hwrite p bs) (\<lambda>_. ret (result err))))"

definition dec_word :: "('s, 'v) stream_ops \<Rightarrow> nat \<Rightarrow> nat \<Rightarrow> ('s, 'v) handler" where
  "dec_word S n bs p =
     attempt (dec_raw S (min n bs) p)
       (\<lambda>_. if n < bs then on_fst (SSkip S (int (bs - n))) else ret (Inr ()))"

definition decodePointer ::
  "('s, 'v) stream_ops \<Rightarrow> nat \<Rightarrow> nat \<Rightarrow> ('s, 'v) handler \<times> structSize \<Rightarrow> ('s, 'v) handler \<times> structSize" where
  "decodePointer S bs elemSize = (\<lambda>(m, n).
     (\<lambda>p. with_sub S False (attempt (hread_ptr p) (\<lambda>q.
        if q = 0 then attempt (hnew (replicate elemSize 0)) (\<lambda>q'.
          attempt (hwrite_ptr p q') (\<lambda>_. m q'))
        else m q)),
      [int bs]))"

definition decodeArray_plain :: "('s, 'v) stream_ops \<Rightarrow> nat \<Rightarrow> nat \<Rightarrow> ('s, 'v) handler \<times> structSize" where
  "decodeArray_plain S cnt elemSize =
     (let n = replicate cnt (int elemSize) in (dec_raw S (nat (ss_Size n)), n))"

definition decodeArray_custom :: "nat \<Rightarrow> ('s, 'v) handler \<times> structSize \<Rightarrow> ('s, 'v) handler \<times> structSize" where
  "decodeArray_custom cnt = (\<lambda>(m, n). (elems m (ss_Size n) cnt, concat (replicate cnt n)))"

text \<open>The plain decoder of a slice reads the contents from the stream, not from where they are.\<close>

definition decodeSlice_plain ::
  "('s, 'v) stream_ops \<Rightarrow> bool \<Rightarrow> nat \<Rightarrow> nat \<Rightarrow> ('s, 'v) handler \<times> structSize" where
  "decodeSlice_plain S fake bs elemSize =
     (let contents = \<lambda>p. attempt (slice_data p) (\<lambda>(data, len). dec_raw S (nat (int elemSize * len)) data)
      in (\<lambda>p. if fake then with_sub S fake (contents p)
               else attempt (on_fst (ReadStream S)) (\<lambda>sub.
                 if Offset S sub = 0 then ret (Inr ()) else contents p),
          [int bs]))"

definition decodeSlice_custom ::
  "('s, 'v) stream_ops \<Rightarrow> bool \<Rightarrow> nat \<Rightarrow> ('s, 'v) handler \<times> structSize \<Rightarrow> ('s, 'v) handler \<times> structSize" where
  "decodeSlice_custom S fake bs = (\<lambda>(m, n).
     (\<lambda>p. with_sub S fake (attempt (slice_data p) (\<lambda>(data, len). elems m (ss_Size n) (nat len) data)),
      [int bs]))"

text \<open>The header of the new string replaces the old one; an empty string has no data.\<close>

definition decodeString :: "('s, 'v) stream_ops \<Rightarrow> bool \<Rightarrow> nat \<Rightarrow> ('s, 'v) handler \<times> structSize" where
  "decodeString S fake bs =
     (\<lambda>p. with_sub S fake (attempt (on_fst (ReadString S)) (\<lambda>str.
        attempt (if str = [] then ret (Inr 0) else hnew str) (\<lambda>q.
          attempt (hwrite_ptr p q) (\<lambda>_. hwrite_ptr (p + 8) (of_nat (length str)))))),
      [int bs, int bs])"

text \<open>\<^verbatim>\<open>decodeStruct\<close> for a struct whose fields need no handlers.\<close>

definition decodeStruct_plain ::
  "('s, 'v) stream_ops \<Rightarrow> nat \<Rightarrow> structSize \<times> int \<Rightarrow> ('s, 'v) handler \<times> structSize" where
  "decodeStruct_plain S sz = (\<lambda>(n, offset).
     let n' = n @ [int sz - offset] in (dec_raw S (nat (ss_Size n')), n'))"

text \<open>\<^verbatim>\<open>decodeFieldAlign\<close>, and the end of \<^verbatim>\<open>decodeStruct\<close> once the fields have their handlers.\<close>

definition dec_field_align ::
  "('s, 'v) stream_ops \<Rightarrow> int \<Rightarrow> ('s, 'v) handler \<times> structSize \<Rightarrow> panic + ('s, 'v) handler \<times> structSize" where
  "dec_field_align S offset = (\<lambda>(unmarshal, n).
     case n of
       [] \<Rightarrow> Inl IndexRange
     | s # _ \<Rightarrow>
         (let addr = enc_align offset s; pad = addr - offset
          in if addr = offset then Inr (unmarshal, n)
             else Inr (\<lambda>p. attempt (on_fst (SSkip S pad)) (\<lambda>_. unmarshal p), pad # n)))"

definition dec_struct_end ::
  "('s, 'v) stream_ops \<Rightarrow> (('s, 'v) handler \<times> nat) list \<times> structSize \<Rightarrow> ('s, 'v) handler \<times> structSize" where
  "dec_struct_end S = (\<lambda>(fields, n).
     let maxSize = fold max n 0; totalSize = ss_Size n; pad = enc_align totalSize maxSize - totalSize
     in (\<lambda>p. attempt (run_fields fields p)
               (\<lambda>_. if pad > 0 then on_fst (SSkip S pad) else ret (Inr ())),
         if pad > 0 then n @ [pad] else n))"

text \<open>The two copies of this code are the same functions.\<close>

lemma dec_plain_fields_eq [simp]: "dec_plain_fields bs fs offset n = plain_fields bs fs offset n"
  by (induction bs fs offset n rule: plain_fields.induct) (simp_all add: Let_def)

lemma dec_field_align_eq [simp]: "dec_field_align S = field_align S"
  by (auto simp: fun_eq_iff dec_field_align_def field_align_def field_pad_def Let_def split: list.splits)

lemma dec_struct_end_eq [simp]: "dec_struct_end S = struct_end S"
  by (auto simp: fun_eq_iff dec_struct_end_def struct_end_def end_pad_def skip_pad_def Let_def)

fun decode :: "('s, 'v) stream_ops \<Rightarrow> bool \<Rightarrow> nat \<Rightarrow> gotype \<Rightarrow> panic + ('s, 'v) handler \<times> structSize"
  and decode_fields :: "('s, 'v) stream_ops \<Rightarrow> nat \<Rightarrow> (gotype \<times> nat \<times> string) list \<Rightarrow> structSize \<Rightarrow>
    panic + (('s, 'v) handler \<times> nat) list \<times> structSize" where
  "decode S fake bs (Basic k) =
     Inr (if k = Float32 then
            (\<lambda>p. attempt (on_fst (ReadFloat S)) (\<lambda>f. hwrite p (le_bytes 4 f)), [4])
          else if k = Float64 then
            (\<lambda>p. attempt (on_fst (ReadDouble S)) (\<lambda>d. hwrite p (le_bytes 8 d)), [8])
          else if word_kind k then (dec_word S (kind_size k) bs, [int bs])
          else (dec_raw S (kind_size k), [int (kind_size k)]))"
| "decode S fake bs (Array cnt t) =
     (if \<not> checkCustom t bs then Inr (decodeArray_plain S cnt (go_size t))
      else case decode S False bs t of Inl p \<Rightarrow> Inl p | Inr mn \<Rightarrow> Inr (decodeArray_custom cnt mn))"
| "decode S fake bs (Pointer t) =
     (case decode S False bs t of Inl p \<Rightarrow> Inl p | Inr mn \<Rightarrow> Inr (decodePointer S bs (go_size t) mn))"
| "decode S fake bs (Slice t) =
     (if \<not> checkCustom t bs then Inr (decodeSlice_plain S fake bs (go_size t))
      else case decode S False bs t of Inl p \<Rightarrow> Inl p | Inr mn \<Rightarrow> Inr (decodeSlice_custom S fake bs mn))"
| "decode S fake bs StringT = Inr (decodeString S fake bs)"
| "decode S fake bs (Struct sz fs) =
     (case dec_plain_fields bs fs 0 [] of
        Some no \<Rightarrow> Inr (decodeStruct_plain S sz no)
      | None \<Rightarrow>
          (case decode_fields S bs fs [] of Inl p \<Rightarrow> Inl p | Inr hn \<Rightarrow> Inr (dec_struct_end S hn)))"
| "decode S fake bs (Other sz) = Inl unsupported"
| "decode_fields S bs [] n = Inr ([], n)"
| "decode_fields S bs ((t, off, tag) # fs) n =
     (if tag = ''ignore'' then decode_fields S bs fs n
      else case decode S False bs t of
        Inl p \<Rightarrow> Inl p
      | Inr mn \<Rightarrow>
          (case dec_field_align S (ss_Size n) mn of
             Inl p \<Rightarrow> Inl p
           | Inr (m', n') \<Rightarrow>
               (case decode_fields S bs fs (ss_Add n n') of
                  Inl p \<Rightarrow> Inl p
                | Inr (hs, n'') \<Rightarrow> Inr ((m', off) # hs, n''))))"

definition DecodeSize ::
  "('s, 'v) stream_ops \<Rightarrow> nat \<Rightarrow> goany \<Rightarrow> panic + int" where
  "DecodeSize S bs val =
     (if AnyPtr val = 0 then Inr (int bs)
      else case decode S False bs (case AnyType val of Pointer t \<Rightarrow> t | t \<Rightarrow> t) of
        Inl p \<Rightarrow> Inl p | Inr (m, n) \<Rightarrow> Inr (ss_Size n))"

definition Decode :: "('s, 'v) stream_ops \<Rightarrow> goany \<Rightarrow> (unit res, ('s \<times> 'v) \<times> host) go" where
  "Decode S val = seq get (\<lambda>((s, v), h).
     let bs = BlockSize S s; p = AnyPtr val;
         run = \<lambda>fake t k. case decode S fake bs t of Inl c \<Rightarrow> crash c | Inr (m, _) \<Rightarrow> k m
     in if p = 0 then on_fst (SSkip S (int bs))
        else case AnyType val of
          Pointer t \<Rightarrow> run False t (\<lambda>m. m p)
        | Slice t \<Rightarrow> run True (Slice t) (\<lambda>m. m p)
        | StringT \<Rightarrow> run True StringT (\<lambda>m. m p)
        | t \<Rightarrow> run False t (\<lambda>m. if one_pointer t then with_var p m else m p))"

end
