(* ===== verification/EncLayout.thy ===== *)
theory EncLayout
  imports Encoding
begin

text \<open>
  What the compiled handlers of types without pointers do: the layout of a type, a list of pieces in
  the order of the stream, and the proof that the encoder writes and the decoder reads exactly it.
\<close>

section \<open>The layout of a type\<close>

text \<open>
  A piece copies bytes at an offset of the value, passes a float, fills a word up with zeros, or
  leaves a gap.
\<close>

datatype seg = SegBytes int nat | SegFloat int | SegDouble int | SegNull nat | SegSkip int

fun seg_shift :: "int \<Rightarrow> seg \<Rightarrow> seg" where
  "seg_shift k (SegBytes off n) = SegBytes (k + off) n"
| "seg_shift k (SegFloat off) = SegFloat (k + off)"
| "seg_shift k (SegDouble off) = SegDouble (k + off)"
| "seg_shift k (SegNull n) = SegNull n"
| "seg_shift k (SegSkip n) = SegSkip n"

fun seg_len :: "seg \<Rightarrow> int" where
  "seg_len (SegBytes off n) = int n"
| "seg_len (SegFloat off) = 4"
| "seg_len (SegDouble off) = 8"
| "seg_len (SegNull n) = int n"
| "seg_len (SegSkip n) = n"

definition segs_len :: "seg list \<Rightarrow> int" where
  "segs_len ss = sum_list (map seg_len ss)"

definition skip_seg :: "int \<Rightarrow> seg list" where
  "skip_seg pad = (if pad > 0 then [SegSkip pad] else [])"

fun repeat_segs :: "int \<Rightarrow> nat \<Rightarrow> int \<Rightarrow> seg list \<Rightarrow> seg list" where
  "repeat_segs step 0 k ss = []"
| "repeat_segs step (Suc n) k ss = map (seg_shift k) ss @ repeat_segs step n (k + step) ss"

fun flat :: "gotype \<Rightarrow> bool" where
  "flat (Basic k) = True"
| "flat (Array n t) = flat t"
| "flat (Struct n fs) = (\<forall>f \<in> set fs. flat (fst f))"
| "flat _ = False"

fun layout :: "nat \<Rightarrow> gotype \<Rightarrow> panic + seg list \<times> structSize"
  and layout_fields :: "nat \<Rightarrow> (gotype \<times> nat \<times> string) list \<Rightarrow> structSize \<Rightarrow>
    panic + seg list \<times> structSize" where
  "layout bs (Basic k) =
     Inr (if k = Float32 then ([SegFloat 0], [4])
          else if k = Float64 then ([SegDouble 0], [8])
          else if word_kind k then
            (SegBytes 0 (min (kind_size k) bs) # (if kind_size k < bs then [SegNull (bs - kind_size k)] else []),
             [int bs])
          else ([SegBytes 0 (kind_size k)], [int (kind_size k)]))"
| "layout bs (Array cnt t) =
     (if \<not> checkCustom t bs then
        (let n = replicate cnt (int (go_size t)) in Inr ([SegBytes 0 (nat (ss_Size n))], n))
      else case layout bs t of
        Inl p \<Rightarrow> Inl p
      | Inr (ss, n) \<Rightarrow> Inr (repeat_segs (ss_Size n) cnt 0 ss, concat (replicate cnt n)))"
| "layout bs (Struct sz fs) =
     (case plain_fields bs fs 0 [] of
        Some (n, offset) \<Rightarrow> Inr ([SegBytes 0 (nat (ss_Size (n @ [int sz - offset])))], n @ [int sz - offset])
      | None \<Rightarrow>
          (case layout_fields bs fs [] of
             Inl p \<Rightarrow> Inl p
           | Inr (ss, n) \<Rightarrow> Inr (ss @ skip_seg (end_pad n), if end_pad n > 0 then n @ [end_pad n] else n)))"
| "layout bs _ = Inl unsupported"
| "layout_fields bs [] n = Inr ([], n)"
| "layout_fields bs ((t, off, tag) # fs) n =
     (if tag = ''ignore'' then layout_fields bs fs n
      else case layout bs t of
        Inl p \<Rightarrow> Inl p
      | Inr (ss, k) \<Rightarrow>
          (case field_pad k (ss_Size n) of
             Inl p \<Rightarrow> Inl p
           | Inr pad \<Rightarrow>
               (case layout_fields bs fs (ss_Add n (if pad = 0 then k else pad # k)) of
                  Inl p \<Rightarrow> Inl p
                | Inr (rest, k') \<Rightarrow>
                    Inr (((if pad = 0 then [] else [SegSkip pad]) @ map (seg_shift (int off)) ss) @ rest, k'))))"

section \<open>Running it\<close>

fun enc_seg :: "('s, 'v) stream_ops \<Rightarrow> u64 \<Rightarrow> seg \<Rightarrow> (unit res, ('s \<times> 'v) \<times> host) go" where
  "enc_seg S p (SegBytes off n) = enc_raw S n (p + word_of_int off)"
| "enc_seg S p (SegFloat off) =
     attempt (hread (p + word_of_int off) 4) (\<lambda>b. on_fst (WriteFloat S (of_le b)))"
| "enc_seg S p (SegDouble off) =
     attempt (hread (p + word_of_int off) 8) (\<lambda>b. on_fst (WriteDouble S (of_le b)))"
| "enc_seg S p (SegNull n) = enc_null S n"
| "enc_seg S p (SegSkip n) = on_fst (SSkip S n)"

fun dec_seg :: "('s, 'v) stream_ops \<Rightarrow> u64 \<Rightarrow> seg \<Rightarrow> (unit res, ('s \<times> 'v) \<times> host) go" where
  "dec_seg S p (SegBytes off n) = dec_raw S n (p + word_of_int off)"
| "dec_seg S p (SegFloat off) =
     attempt (on_fst (ReadFloat S)) (\<lambda>f. hwrite (p + word_of_int off) (le_bytes 4 f))"
| "dec_seg S p (SegDouble off) =
     attempt (on_fst (ReadDouble S)) (\<lambda>d. hwrite (p + word_of_int off) (le_bytes 8 d))"
| "dec_seg S p (SegNull n) = on_fst (SSkip S (int n))"
| "dec_seg S p (SegSkip n) = on_fst (SSkip S n)"

definition run_enc :: "('s, 'v) stream_ops \<Rightarrow> seg list \<Rightarrow> ('s, 'v) handler" where
  "run_enc S ss p = each (enc_seg S p) ss"

definition run_dec :: "('s, 'v) stream_ops \<Rightarrow> seg list \<Rightarrow> ('s, 'v) handler" where
  "run_dec S ss p = each (dec_seg S p) ss"

text \<open>The compiled form of a layout, and of the layouts of some fields.\<close>

definition compiled :: "(seg list \<Rightarrow> ('s, 'v) handler) \<Rightarrow> panic + seg list \<times> structSize \<Rightarrow>
    panic + ('s, 'v) handler \<times> structSize" where
  "compiled run r = map_sum id (\<lambda>(ss, n). (run ss, n)) r"

lemma seg_shift_shift: "seg_shift k (seg_shift j s) = seg_shift (k + j) s"
  by (cases s) (simp_all add: add.assoc)

lemma seg_shift_0 [simp]: "seg_shift 0 s = s"
  by (cases s) simp_all

lemma enc_shift: "enc_seg S p (seg_shift k s) = enc_seg S (p + word_of_int k) s"
  by (cases s) (simp_all add: add.assoc)

lemma dec_shift: "dec_seg S p (seg_shift k s) = dec_seg S (p + word_of_int k) s"
  by (cases s) (simp_all add: add.assoc)

lemma elems_segs:
  assumes "\<And>k s p. f p (seg_shift k s) = f (p + word_of_int k) s"
  shows "elems (\<lambda>p. each (f p) ss) step n (p + word_of_int k) = each (f p) (repeat_segs step n k ss)"
proof (induction n arbitrary: k)
  case (Suc n)
  have "elems (\<lambda>p. each (f p) ss) step n (p + word_of_int k + word_of_int step) =
      elems (\<lambda>p. each (f p) ss) step n (p + word_of_int (k + step))"
    by (simp add: add.assoc)
  with Suc [of "k + step"] show ?case
    by (simp add: each_append each_map assms)
qed simp

section \<open>Both compilers follow the layout\<close>

lemma compiled_simps [simp]:
  "compiled run (Inl p) = Inl p" "compiled run (Inr (ss, n)) = Inr (run ss, n)"
  by (simp_all add: compiled_def)

lemma word_of_int_nat [simp]: "word_of_int (int n) = (of_nat n :: 'a::len word)"
  by simp

text \<open>The handler of a field, as pieces shifted to its offset, after its padding.\<close>

lemma field_align_cases:
  "field_align S offset (m, n) =
     (case field_pad n offset of
        Inl p \<Rightarrow> Inl p
      | Inr pad \<Rightarrow> Inr (if pad = 0 then m else (\<lambda>p. attempt (on_fst (SSkip S pad)) (\<lambda>_. m p)),
                     if pad = 0 then n else pad # n))"
  by (simp add: field_align_def split: sum.splits)

lemma fields_Cons: "run_fields ((m, off) # hs) p = attempt (m (p + of_nat off)) (\<lambda>_. run_fields hs p)"
  by (simp add: run_fields_def)

definition fields_compiled ::
  "(u64 \<Rightarrow> seg \<Rightarrow> (unit res, ('s \<times> 'v) \<times> host) go) \<Rightarrow> panic + seg list \<times> structSize \<Rightarrow>
    panic + (('s, 'v) handler \<times> nat) list \<times> structSize \<Rightarrow> bool" where
  "fields_compiled f l r =
     (case l of
        Inl p \<Rightarrow> r = Inl p
      | Inr (ss, k) \<Rightarrow> \<exists>hs. r = Inr (hs, k) \<and> (\<forall>p. run_fields hs p = each (f p) ss))"

lemma fields_compiled_Cons:
  assumes "fields_compiled f l r" and "\<And>p. m (p + of_nat off) = each (f p) ss"
  shows "fields_compiled f (case l of Inl p \<Rightarrow> Inl p | Inr (rest, k) \<Rightarrow> Inr (ss @ rest, k))
    (case r of Inl p \<Rightarrow> Inl p | Inr (hs, k) \<Rightarrow> Inr ((m, off) # hs, k))"
  using assms by (auto simp: fields_compiled_def fields_Cons each_append split: sum.splits)

lemma encode_layout_both:
  fixes S :: "('s, 'v) stream_ops"
  shows "flat t \<Longrightarrow> encode S bs t = compiled (run_enc S) (layout bs t)"
    and "\<forall>f \<in> set fs. flat (fst f) \<Longrightarrow>
      fields_compiled (enc_seg S) (layout_fields bs fs n) (encode_fields S bs fs n)"
proof (induction S bs t and S bs fs n rule: encode_encode_fields.induct)
  case (1 S bs k)
  show ?case by (auto simp: run_enc_def enc_word_def fun_eq_iff)
next
  case (2 S bs cnt t)
  show ?case
  proof (cases "checkCustom t bs")
    case False
    then show ?thesis by (simp add: encodeArray_plain_def run_enc_def fun_eq_iff Let_def)
  next
    case True
    with 2 have IH: "encode S bs t = compiled (run_enc S) (layout bs t)" by simp
    have "elems (run_enc S ss) step cnt p = run_enc S (repeat_segs step cnt 0 ss) p" for ss step p
      using elems_segs [of "enc_seg S" ss step cnt p 0] by (simp add: run_enc_def [abs_def] enc_shift)
    with IH True show ?thesis
      by (cases "layout bs t") (auto simp: encodeArray_custom_def fun_eq_iff)
  qed
next
  case (6 S bs sz fs)
  show ?case
  proof (cases "plain_fields bs fs 0 []")
    case (Some no)
    then show ?thesis by (cases no) (simp add: encodeStruct_plain_def run_enc_def fun_eq_iff Let_def)
  next
    case None
    with 6 have "fields_compiled (enc_seg S) (layout_fields bs fs []) (encode_fields S bs fs [])" by simp
    with None show ?thesis
      by (auto simp: fields_compiled_def struct_end_def run_enc_def each_append skip_pad_def skip_seg_def
          intro!: ext split: sum.splits)
  qed
next
  case (8 S bs n)
  show ?case by (simp add: fields_compiled_def run_fields_def)
next
  case (9 S bs t off tag fs n)
  show ?case
  proof (cases "tag = ''ignore''")
    case True with 9 show ?thesis by simp
  next
    case False
    with 9 have t: "encode S bs t = compiled (run_enc S) (layout bs t)" by simp
    show ?thesis
    proof (cases "layout bs t")
      case (Inl p) with t False show ?thesis by (simp add: fields_compiled_def)
    next
      case (Inr sk)
      obtain ss k where sk: "sk = (ss, k)" by (cases sk)
      with Inr t have e: "encode S bs t = Inr (run_enc S ss, k)" by simp
      show ?thesis
      proof (cases "field_pad k (ss_Size n)")
        case (Inl p) with e Inr sk False show ?thesis by (simp add: fields_compiled_def field_align_cases)
      next
        case pad: (Inr pad)
        let ?n = "ss_Add n (if pad = 0 then k else pad # k)"
        let ?m = "if pad = 0 then run_enc S ss
          else (\<lambda>p. attempt (on_fst (SSkip S pad)) (\<lambda>_. run_enc S ss p))"
        let ?ss = "(if pad = 0 then [] else [SegSkip pad]) @ map (seg_shift (int off)) ss"
        have "fields_compiled (enc_seg S) (layout_fields bs fs ?n) (encode_fields S bs fs ?n)"
          using 9(3) [OF False e, of "(?m, if pad = 0 then k else pad # k)"] 9(4) pad
          by (simp add: field_align_cases)
        moreover have "?m (p + of_nat off) = each (enc_seg S p) ?ss" for p
          by (simp add: run_enc_def each_map enc_shift)
        moreover have "layout_fields bs ((t, off, tag) # fs) n =
            (case layout_fields bs fs ?n of Inl p \<Rightarrow> Inl p | Inr (rest, k') \<Rightarrow> Inr (?ss @ rest, k'))"
          using Inr sk False pad by simp
        moreover have "encode_fields S bs ((t, off, tag) # fs) n =
            (case encode_fields S bs fs ?n of Inl p \<Rightarrow> Inl p | Inr (hs, k') \<Rightarrow> Inr ((?m, off) # hs, k'))"
          using e False pad by (simp add: field_align_cases)
        ultimately show ?thesis by (simp only: fields_compiled_Cons)
      qed
    qed
  qed
qed simp_all

lemma decode_layout_both:
  fixes S :: "('s, 'v) stream_ops"
  shows "flat t \<Longrightarrow> decode S fake bs t = compiled (run_dec S) (layout bs t)"
    and "\<forall>f \<in> set fs. flat (fst f) \<Longrightarrow>
      fields_compiled (dec_seg S) (layout_fields bs fs n) (decode_fields S bs fs n)"
proof (induction S fake bs t and S bs fs n rule: decode_decode_fields.induct)
  case (1 S fake bs k)
  show ?case by (auto simp: run_dec_def dec_word_def fun_eq_iff)
next
  case (2 S fake bs cnt t)
  show ?case
  proof (cases "checkCustom t bs")
    case False
    then show ?thesis by (simp add: decodeArray_plain_def run_dec_def fun_eq_iff Let_def)
  next
    case True
    with 2 have IH: "decode S False bs t = compiled (run_dec S) (layout bs t)" by simp
    have "elems (run_dec S ss) step cnt p = run_dec S (repeat_segs step cnt 0 ss) p" for ss step p
      using elems_segs [of "dec_seg S" ss step cnt p 0] by (simp add: run_dec_def [abs_def] dec_shift)
    with IH True show ?thesis
      by (cases "layout bs t") (auto simp: decodeArray_custom_def fun_eq_iff)
  qed
next
  case (6 S fake bs sz fs)
  show ?case
  proof (cases "plain_fields bs fs 0 []")
    case (Some no)
    then show ?thesis by (cases no) (simp add: decodeStruct_plain_def run_dec_def fun_eq_iff Let_def)
  next
    case None
    with 6 have "fields_compiled (dec_seg S) (layout_fields bs fs []) (decode_fields S bs fs [])" by simp
    with None show ?thesis
      by (auto simp: fields_compiled_def struct_end_def run_dec_def each_append skip_pad_def skip_seg_def
          intro!: ext split: sum.splits)
  qed
next
  case (8 S bs n)
  show ?case by (simp add: fields_compiled_def run_fields_def)
next
  case (9 S bs t off tag fs n)
  show ?case
  proof (cases "tag = ''ignore''")
    case True with 9 show ?thesis by simp
  next
    case False
    with 9 have t: "decode S False bs t = compiled (run_dec S) (layout bs t)" by simp
    show ?thesis
    proof (cases "layout bs t")
      case (Inl p) with t False show ?thesis by (simp add: fields_compiled_def)
    next
      case (Inr sk)
      obtain ss k where sk: "sk = (ss, k)" by (cases sk)
      with Inr t have e: "decode S False bs t = Inr (run_dec S ss, k)" by simp
      show ?thesis
      proof (cases "field_pad k (ss_Size n)")
        case (Inl p) with e Inr sk False show ?thesis by (simp add: fields_compiled_def field_align_cases)
      next
        case pad: (Inr pad)
        let ?n = "ss_Add n (if pad = 0 then k else pad # k)"
        let ?m = "if pad = 0 then run_dec S ss
          else (\<lambda>p. attempt (on_fst (SSkip S pad)) (\<lambda>_. run_dec S ss p))"
        let ?ss = "(if pad = 0 then [] else [SegSkip pad]) @ map (seg_shift (int off)) ss"
        have "fields_compiled (dec_seg S) (layout_fields bs fs ?n) (decode_fields S bs fs ?n)"
          using 9(3) [OF False e, of "(?m, if pad = 0 then k else pad # k)"] 9(4) pad
          by (simp add: field_align_cases)
        moreover have "?m (p + of_nat off) = each (dec_seg S p) ?ss" for p
          by (simp add: run_dec_def each_map dec_shift)
        moreover have "layout_fields bs ((t, off, tag) # fs) n =
            (case layout_fields bs fs ?n of Inl p \<Rightarrow> Inl p | Inr (rest, k') \<Rightarrow> Inr (?ss @ rest, k'))"
          using Inr sk False pad by simp
        moreover have "decode_fields S bs ((t, off, tag) # fs) n =
            (case decode_fields S bs fs ?n of Inl p \<Rightarrow> Inl p | Inr (hs, k') \<Rightarrow> Inr ((?m, off) # hs, k'))"
          using e False pad by (simp add: field_align_cases)
        ultimately show ?thesis by (simp only: fields_compiled_Cons)
      qed
    qed
  qed
qed simp_all

end
