(* ===== verification/EncMemory.thy ===== *)
theory EncMemory
  imports EncLayout
begin

text \<open>
  Encoding to and decoding from the guest's memory through a pointer stream: what a layout writes,
  byte by byte, and that reading it back copies the value.
\<close>

section \<open>Sizes\<close>

lemma ss_Size_sum: "ss_Size n = sum_list n"
  by (simp add: ss_Size_def fold_plus_sum_list_rev)

lemma segs_len_simps [simp]:
  "segs_len [] = 0" "segs_len (s # ss) = seg_len s + segs_len ss"
  "segs_len (ss @ rs) = segs_len ss + segs_len rs"
  by (simp_all add: segs_len_def)

lemma segs_len_shift [simp]: "segs_len (map (seg_shift k) ss) = segs_len ss"
proof (induction ss)
  case (Cons s ss) then show ?case by (cases s) simp_all
qed simp

lemma segs_len_repeat: "segs_len (repeat_segs step n k ss) = int n * segs_len ss"
  by (induction n arbitrary: k) (simp_all add: algebra_simps)

lemma plain_fields_size:
  "plain_fields bs fs offset n = Some (n', offset') \<Longrightarrow> sum_list n' - offset' = sum_list n - offset"
  by (induction bs fs offset n rule: plain_fields.induct) (auto split: if_splits)

lemma sum_list_copies: "sum_list (concat (replicate cnt n)) = int cnt * sum_list n"
  by (induction cnt) (simp_all add: algebra_simps)

lemma layout_size_both:
  "layout bs t = Inr (ss, n) \<Longrightarrow> segs_len ss = ss_Size n"
  "layout_fields bs fs k = Inr (ss', n') \<Longrightarrow> ss_Size n' = ss_Size k + segs_len ss'"
proof (induction bs t and bs fs k arbitrary: ss n and ss' n' rule: layout_layout_fields.induct)
  case (2 bs cnt t)
  then show ?case
    by (auto simp: Let_def ss_Size_sum segs_len_repeat sum_list_replicate sum_list_copies
        split: if_splits sum.splits)
next
  case (3 bs sz fs)
  show ?case
  proof (cases "plain_fields bs fs 0 []")
    case (Some no)
    with 3 plain_fields_size [of bs fs 0 "[]"] show ?thesis
      by (cases no) (auto simp: ss_Size_sum)
  next
    case None
    with 3 show ?thesis
      by (auto simp: skip_seg_def ss_Size_sum split: sum.splits if_splits)
  qed
next
  case (6 bs t off tag fs k)
  show ?case
  proof (cases "tag = ''ignore''")
    case True with 6(1) [OF True] 6(4) show ?thesis by simp
  next
    case False
    then obtain ss1 k1 where t: "layout bs t = Inr (ss1, k1)"
      using 6(4) by (auto split: sum.splits)
    then obtain pad where pad: "field_pad k1 (ss_Size k) = Inr pad"
      using 6(4) False by (auto split: sum.splits)
    let ?k = "ss_Add k (if pad = 0 then k1 else pad # k1)"
    obtain ss2 where r: "layout_fields bs fs ?k = Inr (ss2, n')"
      and ss': "ss' = ((if pad = 0 then [] else [SegSkip pad]) @ map (seg_shift (int off)) ss1) @ ss2"
      using 6(4) False t pad by (auto split: sum.splits)
    have "segs_len ss1 = ss_Size k1" using 6(2) [OF False t] .
    moreover have "ss_Size n' = ss_Size ?k + segs_len ss2"
      using 6(3) [OF False t refl pad r] .
    ultimately show ?thesis by (simp add: ss' ss_Size_sum ss_Add_def)
  qed
qed (auto simp: ss_Size_sum split: if_splits)

lemmas layout_size = layout_size_both(1)

section \<open>The guest's memory\<close>

text \<open>
  What the debugger relies on in an emulator's memory: inside a mapped set of addresses \<open>R\<close>, a
  write succeeds and changes the bytes it names and a read returns the bytes.
\<close>

definition area :: "u64 \<Rightarrow> nat \<Rightarrow> nat set" where
  "area a n = {unat a ..< unat a + n}"

definition guest_mem :: "'v ctx \<Rightarrow> ('v \<Rightarrow> u64 \<Rightarrow> byte) \<Rightarrow> nat set \<Rightarrow> bool" where
  "guest_mem X mem R \<longleftrightarrow>
     (\<forall>a b v. area a (length b) \<subseteq> R \<longrightarrow>
        (case CMemWrite X a b v of (err, v') \<Rightarrow> err = None \<and> mem v' = write_bytes a b (mem v))) \<and>
     (\<forall>a n v. area a (unat n) \<subseteq> R \<longrightarrow> CMemRead X a n v = Inr (read_bytes a (unat n) (mem v)))"

lemma guest_write:
  assumes "guest_mem X mem R" and "area a (length b) \<subseteq> R"
  obtains v' where "CMemWrite X a b v = (None, v')" and "mem v' = write_bytes a b (mem v)"
proof -
  have "case CMemWrite X a b v of (err, v') \<Rightarrow> err = None \<and> mem v' = write_bytes a b (mem v)"
    by (rule conjunct1 [OF assms(1) [unfolded guest_mem_def], rule_format, OF assms(2)])
  then show thesis by (cases "CMemWrite X a b v") (simp add: that)
qed

lemma guest_read:
  "guest_mem X mem R \<Longrightarrow> area a (unat n) \<subseteq> R \<Longrightarrow> CMemRead X a n v = Inr (read_bytes a (unat n) (mem v))"
  by (simp add: guest_mem_def)

lemma length_read_bytes [simp]: "length (read_bytes a n m) = n"
  by (induction n arbitrary: a) simp_all

lemma read_bytes_nth: "i < n \<Longrightarrow> read_bytes a n m ! i = m (a + of_nat i)"
  by (induction n arbitrary: a i) (auto simp: nth_Cons add.assoc split: nat.splits)

lemma unat_le_add: "unat a + n < 2 ^ 64 \<Longrightarrow> unat (a + of_nat n) = unat a + n" for a :: u64
  by (simp add: unat_word_ariths unat_of_nat)

lemma write_bytes_at: "write_bytes a bs m x =
    (if unat (x - a) < length bs then bs ! unat (x - a) else m x)" if "unat a + length bs < 2 ^ 64"
  using that
proof (induction bs arbitrary: a m)
  case (Cons b bs)
  have a1: "unat (a + 1) = unat a + 1" using Cons.prems unat_le_add [of a 1] by simp
  show ?case
  proof (cases "x = a")
    case True
    have "unat (a - (a + 1)) = 2 ^ 64 - 1"
      by (simp add: unsigned_minus_1_eq_mask mask_eq_exp_minus_1)
    with Cons a1 True show ?thesis by simp
  next
    case False
    then have "unat (x - a - 1) = unat (x - a) - 1" and "unat (x - a) \<noteq> 0"
      by (simp_all add: unat_minus_one unat_eq_0)
    then have "unat (x - a) = Suc (unat (x - (a + 1)))" by (simp add: diff_diff_eq)
    with Cons a1 False show ?thesis by simp
  qed
qed simp

lemma write_read_bytes: "write_bytes a (read_bytes b n hb) m x =
    (if \<exists>i<n. x = a + of_nat i then hb (b + (x - a)) else m x)"
proof (induction n arbitrary: a b m)
  case (Suc n)
  have ex: "(\<exists>i<Suc n. x = a + of_nat i) \<longleftrightarrow> x = a \<or> (\<exists>i<n. x = a + 1 + of_nat i)"
    unfolding Ex_less_Suc2 by (simp add: add.assoc)
  show ?case
    unfolding read_bytes.simps write_bytes.simps Suc ex by (auto simp: algebra_simps)
qed simp

section \<open>What a layout puts into memory\<close>

text \<open>
  The bytes a piece of the value at \<open>p\<close> puts on the stream; a gap leaves bytes as they are. A
  piece is well-behaved if it moves forward and reads no nil pointer.
\<close>

fun seg_out :: "(u64 \<Rightarrow> byte) \<Rightarrow> u64 \<Rightarrow> seg \<Rightarrow> byte option list" where
  "seg_out hb p (SegBytes off n) = map Some (read_bytes (p + word_of_int off) n hb)"
| "seg_out hb p (SegFloat off) = map Some (read_bytes (p + word_of_int off) 4 hb)"
| "seg_out hb p (SegDouble off) = map Some (read_bytes (p + word_of_int off) 8 hb)"
| "seg_out hb p (SegNull n) = replicate n (Some 0)"
| "seg_out hb p (SegSkip n) = replicate (nat n) None"

definition segs_out :: "(u64 \<Rightarrow> byte) \<Rightarrow> u64 \<Rightarrow> seg list \<Rightarrow> byte option list" where
  "segs_out hb p ss = concat (map (seg_out hb p) ss)"

fun seg_forward :: "seg \<Rightarrow> bool" where
  "seg_forward (SegSkip n) = (0 \<le> n)"
| "seg_forward (SegNull n) = (n \<le> 8)"
| "seg_forward _ = True"

definition not_nil :: "u64 \<Rightarrow> nat \<Rightarrow> bool" where
  "not_nil p n = (n = 0 \<or> 4096 \<le> unat p)"

fun seg_host :: "u64 \<Rightarrow> seg \<Rightarrow> bool" where
  "seg_host p (SegBytes off n) = not_nil (p + word_of_int off) n"
| "seg_host p (SegFloat off) = not_nil (p + word_of_int off) 4"
| "seg_host p (SegDouble off) = not_nil (p + word_of_int off) 8"
| "seg_host p _ = True"

definition overlay :: "u64 \<Rightarrow> byte option list \<Rightarrow> (u64 \<Rightarrow> byte) \<Rightarrow> (u64 \<Rightarrow> byte)" where
  "overlay a os m x =
     (if unat (x - a) < length os then (case os ! unat (x - a) of None \<Rightarrow> m x | Some b \<Rightarrow> b) else m x)"

definition matches :: "u64 \<Rightarrow> byte option list \<Rightarrow> (u64 \<Rightarrow> byte) \<Rightarrow> bool" where
  "matches a os m \<longleftrightarrow> (\<forall>i < length os. case os ! i of None \<Rightarrow> True | Some b \<Rightarrow> m (a + of_nat i) = b)"

lemma seg_out_length: "seg_forward s \<Longrightarrow> int (length (seg_out hb p s)) = seg_len s"
  by (cases s) auto

lemma segs_out_simps [simp]:
  "segs_out hb p [] = []" "segs_out hb p (s # ss) = seg_out hb p s @ segs_out hb p ss"
  by (simp_all add: segs_out_def)

lemma segs_out_length: "list_all seg_forward ss \<Longrightarrow> int (length (segs_out hb p ss)) = segs_len ss"
  by (induction ss) (auto simp: seg_out_length)

lemma unat_minus_nat: "k < 2 ^ 64 \<Longrightarrow>
    unat (y - of_nat k :: u64) = (if k \<le> unat y then unat y - k else unat y + 2 ^ 64 - k)"
  by (simp add: unat_sub_if' unat_of_nat)

lemma overlay_append:
  assumes "length os + length rs < 2 ^ 64"
  shows "overlay a (os @ rs) m = overlay (a + of_nat (length os)) rs (overlay a os m)"
proof
  fix x
  let ?i = "unat (x - a)"
  have i: "unat (x - (a + of_nat (length os))) =
      (if length os \<le> ?i then ?i - length os else ?i + 2 ^ 64 - length os)"
    using unat_minus_nat [of "length os" "x - a"] assms by (simp add: diff_diff_eq)
  have "?i < 2 ^ 64" using unsigned_less [of "x - a"] by simp
  show "overlay a (os @ rs) m x = overlay (a + of_nat (length os)) rs (overlay a os m) x"
  proof (cases "?i < length os")
    case True
    moreover have "\<not> ?i + 2 ^ 64 - length os < length rs" using assms True by linarith
    ultimately show ?thesis using i by (simp add: overlay_def nth_append)
  next
    case False
    then show ?thesis using i by (auto simp: overlay_def nth_append split: option.splits)
  qed
qed

lemma overlay_bytes: "unat a + length bs < 2 ^ 64 \<Longrightarrow> overlay a (map Some bs) m = write_bytes a bs m"
  by (auto simp: overlay_def fun_eq_iff write_bytes_at)

lemma overlay_none: "overlay a (replicate n None) m = m"
  by (auto simp: overlay_def fun_eq_iff)

lemma matches_overlay: "length os < 2 ^ 64 \<Longrightarrow> matches a os (overlay a os m)"
  by (auto simp: matches_def overlay_def unat_of_nat split: option.splits)

lemma all_less_add: "(\<forall>i < n + k. P i) \<longleftrightarrow> (\<forall>i < n. P i) \<and> (\<forall>i < k. P (n + i))" for n k :: nat
proof (safe; simp?)
  fix i assume P: "\<forall>i < n. P i" "\<forall>i < k. P (n + i)" "i < n + k"
  show "P i"
  proof (cases "i < n")
    case False
    then have "i - n < k" and "i = n + (i - n)" using P by simp_all
    with P show ?thesis by metis
  qed (simp add: P)
qed

lemma matches_append:
  "matches a (os @ rs) m \<longleftrightarrow> matches a os m \<and> matches (a + of_nat (length os)) rs m"
  by (simp add: matches_def all_less_add nth_append add.assoc split: option.split)

lemma matches_bytes: "matches a (map Some bs) m \<longleftrightarrow> read_bytes a (length bs) m = bs"
  by (auto simp: matches_def list_eq_iff_nth_eq read_bytes_nth)

end
