(* ===== verification/EncBytes.thy ===== *)
theory EncBytes
  imports EncLayout
begin

text \<open>
  Which bytes of a value of a type without pointers the encoding carries: those a value consists of,
  said of the type alone, and that the layout covers all of them and no byte of an ignored field.
\<close>

section \<open>The bytes of a value\<close>

text \<open>
  The offsets of the bytes that make up a value of a type without pointers: all the bytes of a basic
  value, of every element of an array and of every field of a struct that is not ignored.
\<close>

fun value_bytes :: "gotype \<Rightarrow> int set" where
  "value_bytes (Basic k) = {0 ..< int (kind_size k)}"
| "value_bytes (Array n t) = (\<Union>i \<in> {..< n}. (+) (int i * int (go_size t)) ` value_bytes t)"
| "value_bytes (Struct sz fs) =
     (\<Union>f \<in> set fs. if snd (snd f) = ''ignore'' then {} else (+) (int (fst (snd f))) ` value_bytes (fst f))"
| "value_bytes _ = {}"

text \<open>The offsets of the ignored fields, at any depth.\<close>

fun ignored_bytes :: "gotype \<Rightarrow> int set" where
  "ignored_bytes (Array n t) = (\<Union>i \<in> {..< n}. (+) (int i * int (go_size t)) ` ignored_bytes t)"
| "ignored_bytes (Struct sz fs) =
     (\<Union>f \<in> set fs. (+) (int (fst (snd f))) `
        (if snd (snd f) = ''ignore'' then {0 ..< int (go_size (fst f))} else ignored_bytes (fst f)))"
| "ignored_bytes _ = {}"

text \<open>How Go lays a type out: the fields of a struct come in order, do not overlap and end within it.\<close>

fun fields_in :: "nat \<Rightarrow> (gotype \<times> nat \<times> string) list \<Rightarrow> bool" where
  "fields_in sz [] = True"
| "fields_in sz (f # fs) =
     (fst (snd f) + go_size (fst f) \<le> sz \<and>
      (\<forall>g \<in> set fs. fst (snd f) + go_size (fst f) \<le> fst (snd g)) \<and> fields_in sz fs)"

fun go_type :: "gotype \<Rightarrow> bool" where
  "go_type (Array n t) = go_type t"
| "go_type (Struct sz fs) = ((\<forall>f \<in> set fs. go_type (fst f)) \<and> fields_in sz fs)"
| "go_type _ = True"

text \<open>
  The types whose values a stream with pointers of \<open>bs\<close> bytes carries whole: an \<^verbatim>\<open>int\<close>, \<^verbatim>\<open>uint\<close> or
  \<^verbatim>\<open>uintptr\<close> is not cut to a smaller pointer, and what an array's element is encoded into has the size
  of the element, by which the loop over the elements should step.
\<close>

fun carried :: "nat \<Rightarrow> gotype \<Rightarrow> bool" where
  "carried bs (Basic k) = (word_kind k \<longrightarrow> 8 \<le> bs)"
| "carried bs (Array n t) =
     (carried bs t \<and> (\<forall>ss k. layout bs t = Inr (ss, k) \<longrightarrow> n \<le> 1 \<or> ss_Size k = int (go_size t)))"
| "carried bs (Struct sz fs) = (\<forall>f \<in> set fs. snd (snd f) \<noteq> ''ignore'' \<longrightarrow> carried bs (fst f))"
| "carried bs _ = True"

text \<open>The offsets of the bytes of a value that its layout carries.\<close>

fun seg_foot :: "seg \<Rightarrow> int set" where
  "seg_foot (SegBytes off n) = {off ..< off + int n}"
| "seg_foot (SegFloat off) = {off ..< off + 4}"
| "seg_foot (SegDouble off) = {off ..< off + 8}"
| "seg_foot _ = {}"

definition foot :: "seg list \<Rightarrow> int set" where
  "foot ss = (\<Union>s \<in> set ss. seg_foot s)"

lemma word_kind_size: "word_kind k \<Longrightarrow> kind_size k = 8"
  by (auto simp: word_kind_def)

lemma foot_simps [simp]: "foot [] = {}" "foot (s # ss) = seg_foot s \<union> foot ss" "foot (ss @ ts) = foot ss \<union> foot ts"
  by (auto simp: foot_def)

lemma seg_foot_shift: "seg_foot (seg_shift k s) = (+) k ` seg_foot s"
  by (cases s) (simp_all add: algebra_simps)

lemma foot_shift: "foot (map (seg_shift k) ss) = (+) k ` foot ss"
  by (induction ss) (simp_all add: seg_foot_shift image_Un)

lemma foot_repeat: "foot (repeat_segs step n k ss) = (\<Union>i \<in> {..< n}. (+) (k + int i * step) ` foot ss)"
proof (induction n arbitrary: k)
  case (Suc n)
  have "{..< Suc n} = insert 0 (Suc ` {..< n})" by (auto simp: image_iff less_Suc_eq_0_disj)
  then show ?case by (simp add: Suc foot_shift algebra_simps)
qed simp

lemma ss_Size_snoc: "ss_Size (n @ [k]) = ss_Size n + k"
  by (simp add: ss_Size_def)

lemma ss_Size_replicate: "ss_Size (replicate n k) = int n * k"
proof -
  have "fold (+) (replicate n k) s = s + int n * k" for s :: int
    by (induction n arbitrary: s) (simp_all add: algebra_simps)
  then show ?thesis by (simp add: ss_Size_def)
qed

lemma plain_fields_sum:
  "plain_fields bs fs offset n = Some (n', offset') \<Longrightarrow>
     ss_Size n' - offset' = ss_Size n - offset \<and>
     (\<forall>f \<in> set fs. snd (snd f) \<noteq> ''ignore'' \<and> (\<exists>k. fst f = Basic k))"
proof (induction bs fs offset n rule: plain_fields.induct)
  case (2 bs t off tag fs offset n)
  then have "\<exists>k. t = Basic k" by (cases t) (auto split: if_splits)
  with 2 show ?case by (auto simp: ss_Size_snoc split: if_splits)
qed simp

text \<open>The bytes of fields, each of which covers its own.\<close>

definition fields_cover :: "(gotype \<times> nat \<times> string) list \<Rightarrow> int set \<Rightarrow> bool" where
  "fields_cover fs F \<longleftrightarrow>
     (\<forall>f \<in> set fs. snd (snd f) \<noteq> ''ignore'' \<longrightarrow> (+) (int (fst (snd f))) ` value_bytes (fst f) \<subseteq> F) \<and>
     F \<subseteq> (\<Union>f \<in> {f \<in> set fs. snd (snd f) \<noteq> ''ignore''}.
            (+) (int (fst (snd f))) ` ({0 ..< int (go_size (fst f))} - ignored_bytes (fst f)))"

lemma fields_inD:
  "fields_in sz fs \<Longrightarrow> f \<in> set fs \<Longrightarrow> fst (snd f) + go_size (fst f) \<le> sz"
  by (induction fs) auto

lemma fields_in_disjoint:
  "fields_in sz fs \<Longrightarrow> f \<in> set fs \<Longrightarrow> g \<in> set fs \<Longrightarrow>
     x \<in> {0 ..< int (go_size (fst f))} \<Longrightarrow> y \<in> {0 ..< int (go_size (fst g))} \<Longrightarrow>
     int (fst (snd f)) + x = int (fst (snd g)) + y \<Longrightarrow> f = g"
  by (induction fs) fastforce+

lemma slots_disjoint:
  assumes "x \<in> {0 ..< s}" and "y \<in> {0 ..< s}" and "int i * s + x = int j * s + y"
  shows "i = j"
proof -
  have "(int i * s + x) div s = int i" "(int j * s + y) div s = int j" using assms(1,2) by auto
  with assms(3) show ?thesis by simp
qed

lemma slot_in: "i < n \<Longrightarrow> (+) (int i * int s) ` {0 ..< int s} \<subseteq> {0 ..< int (n * s)}"
proof -
  assume "i < n"
  then have "int i * int s + int s \<le> int n * int s"
    using mult_right_mono [of "int i + 1" "int n" "int s"] by (simp add: algebra_simps)
  then show ?thesis by auto
qed

lemma ignored_in: "go_type t \<Longrightarrow> ignored_bytes t \<subseteq> {0 ..< int (go_size t)}"
proof (induction t rule: ignored_bytes.induct)
  case (1 n t)
  have "(+) (int i * int (go_size t)) ` ignored_bytes t \<subseteq> {0 ..< int (go_size (Array n t))}" if "i < n" for i
    using 1 slot_in [OF that, of "go_size t"] that by fastforce
  then show ?case by (simp add: UN_subset_iff)
next
  case (2 sz fs)
  have "(+) (int (fst (snd f))) ` (if snd (snd f) = ''ignore'' then {0 ..< int (go_size (fst f))}
      else ignored_bytes (fst f)) \<subseteq> {0 ..< int sz}" if f: "f \<in> set fs" for f
    using 2 f fields_inD [of sz fs f] by (fastforce split: if_splits)
  then show ?case by (simp only: ignored_bytes.simps go_size.simps UN_subset_iff) blast
qed simp_all

text \<open>The elements of an array, a whole number of sizes apart, and the fields of a struct.\<close>

lemma array_cover:
  assumes "go_type t" and "value_bytes t \<subseteq> F" and "F \<subseteq> {0 ..< int (go_size t)} - ignored_bytes t"
  shows "value_bytes (Array n t) \<subseteq> (\<Union>i \<in> {..< n}. (+) (int i * int (go_size t)) ` F)"
    and "(\<Union>i \<in> {..< n}. (+) (int i * int (go_size t)) ` F) \<subseteq> {0 ..< int (go_size (Array n t))} - ignored_bytes (Array n t)"
proof -
  show "value_bytes (Array n t) \<subseteq> (\<Union>i \<in> {..< n}. (+) (int i * int (go_size t)) ` F)"
    using assms(2) by fastforce
  show "(\<Union>i \<in> {..< n}. (+) (int i * int (go_size t)) ` F) \<subseteq> {0 ..< int (go_size (Array n t))} - ignored_bytes (Array n t)"
  proof (rule subsetI)
    fix z assume "z \<in> (\<Union>i \<in> {..< n}. (+) (int i * int (go_size t)) ` F)"
    then obtain i x where i: "i < n" "x \<in> F" "z = int i * int (go_size t) + x" by auto
    with assms(3) have x: "x \<in> {0 ..< int (go_size t)}" "x \<notin> ignored_bytes t" by auto
    have "z \<in> {0 ..< int (n * go_size t)}" using slot_in [OF i(1), of "go_size t"] x(1) i(3) by auto
    moreover have "z \<notin> ignored_bytes (Array n t)"
    proof
      assume "z \<in> ignored_bytes (Array n t)"
      then obtain j y where j: "y \<in> ignored_bytes t" "z = int j * int (go_size t) + y" by auto
      with ignored_in [OF assms(1)] have "y \<in> {0 ..< int (go_size t)}" by auto
      from slots_disjoint [OF x(1) this, of i j] i(3) j(2) have "i = j" by simp
      with i(3) j x(2) show False by simp
    qed
    ultimately show "z \<in> {0 ..< int (go_size (Array n t))} - ignored_bytes (Array n t)" by simp
  qed
qed

lemma struct_cover:
  assumes "go_type (Struct sz fs)" and "fields_cover fs F"
  shows "value_bytes (Struct sz fs) \<subseteq> F" and "F \<subseteq> {0 ..< int sz} - ignored_bytes (Struct sz fs)"
proof -
  show "value_bytes (Struct sz fs) \<subseteq> F"
    using assms(2) by (auto simp: fields_cover_def split: if_splits)
  show "F \<subseteq> {0 ..< int sz} - ignored_bytes (Struct sz fs)"
  proof (rule subsetI)
    fix z assume "z \<in> F"
    with assms(2) obtain f x where f: "f \<in> set fs" "snd (snd f) \<noteq> ''ignore''" "z = int (fst (snd f)) + x"
      "x \<in> {0 ..< int (go_size (fst f))}" "x \<notin> ignored_bytes (fst f)"
      by (auto simp: fields_cover_def)
    have "z \<in> {0 ..< int sz}" using f(3,4) fields_inD [of sz fs f] assms(1) f(1) by auto
    moreover have "z \<notin> ignored_bytes (Struct sz fs)"
    proof
      assume "z \<in> ignored_bytes (Struct sz fs)"
      then obtain g y where g: "g \<in> set fs" "z = int (fst (snd g)) + y"
        "y \<in> (if snd (snd g) = ''ignore'' then {0 ..< int (go_size (fst g))} else ignored_bytes (fst g))"
        by auto
      have "y \<in> {0 ..< int (go_size (fst g))}"
        using g(1,3) ignored_in [of "fst g"] assms(1) by (auto split: if_splits)
      with fields_in_disjoint [of sz fs f g x y] f g assms(1) have "f = g" by simp
      with f g show False by simp
    qed
    ultimately show "z \<in> {0 ..< int sz} - ignored_bytes (Struct sz fs)" by blast
  qed
qed

lemma fields_cover_Cons:
  assumes "fields_cover fs G"
  shows "snd (snd f) = ''ignore'' \<Longrightarrow> fields_cover (f # fs) G"
    and "snd (snd f) \<noteq> ''ignore'' \<Longrightarrow> value_bytes (fst f) \<subseteq> F \<Longrightarrow>
      F \<subseteq> {0 ..< int (go_size (fst f))} - ignored_bytes (fst f) \<Longrightarrow>
      fields_cover (f # fs) ((+) (int (fst (snd f))) ` F \<union> G)"
proof -
  let ?ok = "\<lambda>fs. {f \<in> set fs. snd (snd f) \<noteq> ''ignore''}"
  show "fields_cover (f # fs) G" if "snd (snd f) = ''ignore''"
  proof -
    from that have "?ok (f # fs) = ?ok fs" by auto
    with assms that show ?thesis unfolding fields_cover_def by simp
  qed
  assume f: "snd (snd f) \<noteq> ''ignore''" and F: "value_bytes (fst f) \<subseteq> F"
    "F \<subseteq> {0 ..< int (go_size (fst f))} - ignored_bytes (fst f)"
  let ?A = "\<lambda>g. (+) (int (fst (snd g)))" and ?U = "\<lambda>g. {0 ..< int (go_size (fst g))} - ignored_bytes (fst g)"
  have A: "?A f ` value_bytes (fst f) \<subseteq> ?A f ` F" "?A f ` F \<subseteq> ?A f ` ?U f"
    using F by (simp_all add: image_mono)
  have fs: "?A g ` value_bytes (fst g) \<subseteq> G" if "g \<in> ?ok fs" for g
    using assms that by (simp add: fields_cover_def)
  have G: "G \<subseteq> (\<Union>g \<in> ?ok fs. ?A g ` ?U g)" using assms by (simp add: fields_cover_def)
  have "?A g ` value_bytes (fst g) \<subseteq> ?A f ` F \<union> G" if "g \<in> ?ok (f # fs)" for g
    using that A(1) fs [of g] by (cases "g = f") (simp_all add: le_supI1 le_supI2)
  moreover have "?ok (f # fs) = insert f (?ok fs)" using f by auto
  then have "?A f ` F \<union> G \<subseteq> (\<Union>g \<in> ?ok (f # fs). ?A g ` ?U g)"
    using A(2) G by (simp only: UN_insert) (rule Un_mono)
  ultimately show "fields_cover (f # fs) (?A f ` F \<union> G)"
    unfolding fields_cover_def by blast
qed

lemma foot_pad [simp]: "foot (skip_seg k) = {}" "foot [SegSkip k] = {}"
  by (simp_all add: skip_seg_def)

lemma basic_cover: "carried bs (Basic k) \<Longrightarrow> layout bs (Basic k) = Inr (ss, n) \<Longrightarrow> foot ss = {0 ..< int (kind_size k)}"
  by (cases k) (auto simp: word_kind_def split: if_splits)

text \<open>
  The layout of such a type carries every byte of a value and none of an ignored field; what else it
  may carry is padding.
\<close>

lemma layout_bytes:
  shows "flat t \<Longrightarrow> go_type t \<Longrightarrow> carried bs t \<Longrightarrow> layout bs t = Inr (ss, n) \<Longrightarrow>
      value_bytes t \<subseteq> foot ss \<and> foot ss \<subseteq> {0 ..< int (go_size t)} - ignored_bytes t"
    and "\<forall>f \<in> set fs. flat (fst f) \<and> go_type (fst f) \<and> (snd (snd f) \<noteq> ''ignore'' \<longrightarrow> carried bs (fst f)) \<Longrightarrow>
      layout_fields bs fs n0 = Inr (ss, n) \<Longrightarrow> fields_cover fs (foot ss)"
proof (induction bs t and bs fs n0 arbitrary: ss n and ss n rule: layout_layout_fields.induct)
  case (1 bs k)
  then show ?case using basic_cover [of bs k ss n] by simp
next
  case (2 bs cnt t)
  have t: "flat t" "go_type t" "carried bs t" using "2.prems" by simp_all
  show ?case
  proof (cases "checkCustom t bs")
    case False
    then obtain k where k: "t = Basic k" by (cases t) auto
    have "foot ss = {0 ..< int (cnt * kind_size k)}"
      using "2.prems"(4) False by (auto simp: Let_def ss_Size_replicate k)
    moreover have "value_bytes (Array cnt t) \<subseteq> {0 ..< int (cnt * kind_size k)}"
      using slot_in [of _ cnt "kind_size k"] by (simp add: k UN_subset_iff)
    ultimately show ?thesis by (simp add: k)
  next
    case True
    with "2.prems"(4) obtain ts k where ts: "layout bs t = Inr (ts, k)" "ss = repeat_segs (ss_Size k) cnt 0 ts"
      by (auto split: sum.splits)
    have step: "int i * ss_Size k = int i * int (go_size t)" if "i < cnt" for i
      using "2.prems"(3) ts(1) that by (cases i) auto
    have "foot ss = (\<Union>i \<in> {..< cnt}. (+) (int i * int (go_size t)) ` foot ts)"
      unfolding ts(2) foot_repeat by (rule SUP_cong [OF refl]) (simp only: lessThan_iff step add_0)
    with array_cover [OF t(2), of "foot ts" cnt] "2.IH" [OF _ t ts(1)] True show ?thesis by simp
  qed
next
  case (3 bs sz fs)
  show ?case
  proof (cases "plain_fields bs fs 0 []")
    case (Some no)
    obtain k off where no: "no = (k, off)" by (cases no)
    note sum = plain_fields_sum [OF Some [unfolded no]]
    have "foot ss = {0 ..< int sz}"
      using "3.prems"(4) Some sum by (auto simp: no ss_Size_snoc ss_Size_def)
    moreover have "ignored_bytes (Struct sz fs) = {}" using sum by fastforce
    moreover have "value_bytes (Struct sz fs) \<subseteq> {0 ..< int sz}"
      using sum fields_inD [of sz fs] "3.prems"(2) by fastforce
    ultimately show ?thesis by simp
  next
    case None
    with "3.prems"(4) obtain ts k where ts: "layout_fields bs fs [] = Inr (ts, k)" "foot ss = foot ts"
      by (auto split: sum.splits)
    have "\<forall>f \<in> set fs. flat (fst f) \<and> go_type (fst f) \<and> (snd (snd f) \<noteq> ''ignore'' \<longrightarrow> carried bs (fst f))"
      using "3.prems" by simp
    with "3.IH" [OF None _ ts(1)] have "fields_cover fs (foot ts)" by simp
    with struct_cover [OF "3.prems"(2)] ts(2) show ?thesis by simp
  qed
next
  case (5 bs n0)
  then show ?case by (simp add: fields_cover_def)
next
  case (6 bs t off tag fs n0)
  show ?case
  proof (cases "tag = ''ignore''")
    case True
    with 6 fields_cover_Cons(1) [of fs "foot ss" "(t, off, tag)"] show ?thesis by simp
  next
    case False
    from "6.prems"(2) False obtain ts k pad rest k' where ts: "layout bs t = Inr (ts, k)"
      "field_pad k (ss_Size n0) = Inr pad"
      "layout_fields bs fs (ss_Add n0 (if pad = 0 then k else pad # k)) = Inr (rest, k')"
      "foot ss = (+) (int off) ` foot ts \<union> foot rest"
      by (auto simp: foot_shift split: sum.splits if_splits)
    have "value_bytes t \<subseteq> foot ts \<and> foot ts \<subseteq> {0 ..< int (go_size t)} - ignored_bytes t"
      using "6.IH"(2) [OF False] "6.prems"(1) ts(1) False by simp
    moreover have "fields_cover fs (foot rest)"
      using "6.IH"(3) [OF False ts(1) _ ts(2)] ts(3) "6.prems"(1) by simp
    ultimately show ?thesis
      using fields_cover_Cons(2) [of fs "foot rest" "(t, off, tag)" "foot ts"] False ts(4) by simp
  qed
qed simp_all

end
