(* ===== verification/Context.thy ===== *)
theory Context
  imports Streams Registers
begin

text \<open>
  The context of a task (\<^verbatim>\<open>internal/debugger/context.go\<close>): the registers and the memory a callback
  sees, the guest's stack, and a store of its own. What a debugger says about its architecture
  (\<^verbatim>\<open>internal/debugger/arm/arm.go\<close>, \<^verbatim>\<open>internal/debugger/arm64/arm64.go\<close>) is a record.
\<close>

section \<open>The architecture\<close>

record dbg_arch =
  DArch :: arch
  DPointerSize :: u64
  DStackSize :: u64
  DStackAlign :: u64
  DPC :: reg
  DSP :: reg
  DLR :: reg

definition ARM_STACK_SIZE :: u64 where
  "ARM_STACK_SIZE = 10 * 0x1000"

definition ARM64_STACK_SIZE :: u64 where
  "ARM64_STACK_SIZE = ARM_STACK_SIZE * 2"

definition ArmDbg :: dbg_arch where
  "ArmDbg = \<lparr>DArch = ARCH_ARM, DPointerSize = 4, DStackSize = ARM_STACK_SIZE, DStackAlign = 8,
     DPC = ARM_REG_PC, DSP = ARM_REG_SP, DLR = ARM_REG_LR\<rparr>"

definition Arm64Dbg :: dbg_arch where
  "Arm64Dbg = \<lparr>DArch = ARCH_ARM64, DPointerSize = 8, DStackSize = ARM64_STACK_SIZE, DStackAlign = 16,
     DPC = ARM64_REG_PC, DSP = ARM64_REG_SP, DLR = ARM64_REG_LR\<rparr>"

section \<open>Registers\<close>

text \<open>The global context is no task: it has the emulator's own registers and cannot be forked.\<close>

definition base_PC :: "dbg_arch \<Rightarrow> reg" where
  [simp]: "base_PC D = DPC D"

definition base_SP :: "dbg_arch \<Rightarrow> reg" where
  [simp]: "base_SP D = DSP D"

definition base_RegRead :: "'e emulator \<Rightarrow> reg \<Rightarrow> 'e \<Rightarrow> u64 res" where
  [simp]: "base_RegRead E = EmuRegRead E"

definition base_RegWrite :: "'e emulator \<Rightarrow> reg \<Rightarrow> u64 \<Rightarrow> 'e \<Rightarrow> goerr option \<times> 'e" where
  [simp]: "base_RegWrite E = EmuRegWrite E"

definition base_TaskFork :: "nat res" where
  "base_TaskFork = Inl ErrUnsupported"

section \<open>The stack\<close>

definition StackAlloc ::
  "dbg_arch \<Rightarrow> (reg \<Rightarrow> 'v \<Rightarrow> u64 res) \<Rightarrow> (reg \<Rightarrow> u64 \<Rightarrow> 'v \<Rightarrow> goerr option \<times> 'v) \<Rightarrow> u64 \<Rightarrow> (u64 res, 'v) go" where
  "StackAlloc D rd wr n = (let n = Align n (DStackAlign D) in
     attempt (reading (rd (base_SP D))) (\<lambda>a.
       let a = a - n in attempt (errable (wr (base_SP D) a)) (\<lambda>_. ret (Inr a))))"

definition StackFree ::
  "dbg_arch \<Rightarrow> (reg \<Rightarrow> 'v \<Rightarrow> u64 res) \<Rightarrow> (reg \<Rightarrow> u64 \<Rightarrow> 'v \<Rightarrow> goerr option \<times> 'v) \<Rightarrow> u64 \<Rightarrow> (unit res, 'v) go" where
  "StackFree D rd wr n = (let n = Align n (DStackAlign D) in
     attempt (reading (rd (base_SP D))) (\<lambda>a. errable (wr (base_SP D) (a + n))))"

definition Goto :: "dbg_arch \<Rightarrow> (reg \<Rightarrow> u64 \<Rightarrow> 'v \<Rightarrow> goerr option \<times> 'v) \<Rightarrow> u64 \<Rightarrow> (unit res, 'v) go" where
  "Goto D wr addr = errable (wr (base_PC D) addr)"

text \<open>
  The global context works on the emulator's own registers; its streams allocate on the stack.
\<close>

definition global_ctx :: "dbg_arch \<Rightarrow> 'e emulator \<Rightarrow> 'e ctx" where
  "global_ctx D E = \<lparr>CArch = EmuArch E, CRegRead = base_RegRead E, CRegWrite = base_RegWrite E,
     CMemRead = EmuMemRead E, CMemWrite = EmuMemWrite E,
     CAlloc = StackAlloc D (base_RegRead E) (base_RegWrite E)\<rparr>"

section \<open>The local store\<close>

type_synonym storage = "(nat, nat) gomap"

definition LocalStore :: "nat \<Rightarrow> nat \<Rightarrow> storage \<Rightarrow> storage" where
  "LocalStore k x s = gm_set k x s"

definition LocalLoad :: "nat \<Rightarrow> storage \<Rightarrow> nat option" where
  "LocalLoad k s = gm_get s k"

definition LocalDelete :: "nat \<Rightarrow> storage \<Rightarrow> storage" where
  "LocalDelete k s = gm_del k s"

end
