(* ===== verification/Calling.thy ===== *)
theory Calling
  imports Context Encoding MemManager
begin

text \<open>
  The calling conventions (\<^verbatim>\<open>internal/debugger/arm/arm.go\<close>, \<^verbatim>\<open>internal/debugger/arm64/arm64.go\<close>):
  arguments and results of guest functions, written to and read from registers and the stack through
  the encoder, and the stacks of tasks. The two files differ in the register stream they use and in
  the constants of \<open>dbg_arch\<close>.
\<close>

section \<open>The two register streams\<close>

definition arm64_conf :: regconf where
  "arm64_conf = \<lparr>POINTER_SIZE = 8, ARG_REG_COUNT = 8, GpReg = ARM64_REG_X0, SReg = ARM64_REG_S0,
     DReg = ARM64_REG_D0, WdReg = ARM64_REG_S0, AddrSize = 8\<rparr>"

definition arm_conf :: regconf where
  "arm_conf = \<lparr>POINTER_SIZE = 4, ARG_REG_COUNT = 4, GpReg = ARM_REG_R0, SReg = ARM_REG_S0,
     DReg = ARM_REG_D0, WdReg = ARM64_REG_S0, AddrSize = 4\<rparr>"

text \<open>The methods of the ARM copy.\<close>

definition arm_Align :: "rstream \<Rightarrow> rstream" where
  "arm_Align = rs_Align arm_conf"

definition arm_Skip :: "int \<Rightarrow> (unit res, rstream \<times> 'v) go" where
  "arm_Skip = rs_Skip arm_conf"

definition arm_Read :: "'v ctx \<Rightarrow> nat \<Rightarrow> (byte list \<times> goerr option, rstream \<times> 'v) go" where
  "arm_Read = rs_Read arm_conf"

definition arm_ReadFloat :: "'v ctx \<Rightarrow> (u64 res, rstream \<times> 'v) go" where
  "arm_ReadFloat = rs_ReadFloat arm_conf"

definition arm_ReadDouble :: "'v ctx \<Rightarrow> (u64 res, rstream \<times> 'v) go" where
  "arm_ReadDouble = rs_ReadDouble arm_conf"

definition arm_ReadStream :: "'v ctx \<Rightarrow> (pstream res, rstream \<times> 'v) go" where
  "arm_ReadStream = rs_ReadStream arm_conf"

definition arm_Write :: "'v ctx \<Rightarrow> byte list \<Rightarrow> (unit res, rstream \<times> 'v) go" where
  "arm_Write = rs_Write arm_conf"

definition arm_WriteFloat :: "'v ctx \<Rightarrow> u64 \<Rightarrow> (unit res, rstream \<times> 'v) go" where
  "arm_WriteFloat = rs_WriteFloat arm_conf"

definition arm_WriteDouble :: "'v ctx \<Rightarrow> u64 \<Rightarrow> (unit res, rstream \<times> 'v) go" where
  "arm_WriteDouble = rs_WriteDouble arm_conf"

definition arm_WriteStream :: "'v ctx \<Rightarrow> int \<Rightarrow> (pstream res, rstream \<times> 'v) go" where
  "arm_WriteStream = rs_WriteStream arm_conf"

definition arm_streams :: "'v ctx \<Rightarrow> (stream, 'v) stream_ops" where
  "arm_streams X = streams arm_conf X"

text \<open>Its operations are the ones above.\<close>

lemma arm_streams_ops:
  "SSkip (arm_streams X) n = by_kind (ps_Skip n) (arm_Skip n)"
  "SRead (arm_streams X) k = by_kind (ps_Read X k) (arm_Read X k)"
  "ReadFloat (arm_streams X) = by_kind (ps_ReadFloat X) (arm_ReadFloat X)"
  "ReadDouble (arm_streams X) = by_kind (ps_ReadDouble X) (arm_ReadDouble X)"
  "ReadStream (arm_streams X) = by_kind (sub_of (ps_ReadStream X)) (sub_of (arm_ReadStream X))"
  "SWrite (arm_streams X) b = by_kind (ps_Write X b) (arm_Write X b)"
  "WriteFloat (arm_streams X) f = by_kind (ps_WriteFloat X f) (arm_WriteFloat X f)"
  "WriteDouble (arm_streams X) d = by_kind (ps_WriteDouble X d) (arm_WriteDouble X d)"
  "WriteStream (arm_streams X) n = by_kind (sub_of (ps_WriteStream X n)) (sub_of (arm_WriteStream X n))"
  by (simp_all add: arm_streams_def streams_def arm_Skip_def arm_Read_def arm_ReadFloat_def
      arm_ReadDouble_def arm_ReadStream_def arm_Write_def arm_WriteFloat_def arm_WriteDouble_def
      arm_WriteStream_def)

definition arm64_streams :: "'v ctx \<Rightarrow> (stream, 'v) stream_ops" where
  "arm64_streams X = streams arm64_conf X"

section \<open>Arguments and results\<close>

datatype calling = Calling_Default | Calling_Cdecl | Calling_Stdcall | Calling_Fastcall

definition supported :: "calling \<Rightarrow> bool" where
  "supported c = (c = Calling_Default \<or> c = Calling_Fastcall)"

text \<open>\<^verbatim>\<open>stream.Align()\<close>, after each argument.\<close>

definition align_args :: "regconf \<Rightarrow> (unit res, ((stream \<times> 'v) \<times> host)) go" where
  "align_args C = update (\<lambda>((s, v), h).
     ((case s of RegS rs \<Rightarrow> RegS (rs_Align C rs) | PtrS ps \<Rightarrow> PtrS ps, v), h))"

text \<open>
  \<^verbatim>\<open>Args\<close> makes the stream the returned function reads the arguments from; each call of the function
  (\<open>Extract\<close>) goes on where the last one stopped.
\<close>

definition Args :: "dbg_arch \<Rightarrow> 'v ctx \<Rightarrow> calling \<Rightarrow> (stream res, 'v) go" where
  "Args D X c =
     (if \<not> supported c then ret (Inl ErrCallingUnsupported)
      else attempt (reading (CRegRead X (DSP D))) (\<lambda>a. ret (Inr (RegS (new_rstream (MemStack a))))))"

definition Extract :: "regconf \<Rightarrow> 'v ctx \<Rightarrow> goany list \<Rightarrow> (unit res, (stream \<times> 'v) \<times> host) go" where
  "Extract C X args = each (\<lambda>arg. attempt (Decode (streams C X) arg) (\<lambda>_. align_args C)) args"

definition write_args :: "regconf \<Rightarrow> 'v ctx \<Rightarrow> goany list \<Rightarrow> (unit res, (stream \<times> 'v) \<times> host) go" where
  "write_args C X args = each (\<lambda>arg. attempt (Encode (streams C X) arg) (\<lambda>_. align_args C)) args"

definition stream_buf :: "stream \<Rightarrow> int \<times> byte list" where
  "stream_buf s = (case s of
     RegS rs \<Rightarrow> (stoff rs, case stack rs of BufStack b \<Rightarrow> b | _ \<Rightarrow> [])
   | PtrS ps \<Rightarrow> (0, []))"

text \<open>
  A computation with a stream of its own, dropped at the end. \<^verbatim>\<open>ArgWrite\<close> runs one over a buffer for
  the arguments that go on the stack, and then copies the buffer below the stack pointer.
\<close>

definition with_stream :: "stream \<Rightarrow> ('a, (stream \<times> 'v) \<times> host) go \<Rightarrow> ('a \<times> stream, 'v \<times> host) go" where
  "with_stream s m = (\<lambda>(v, h).
     case m ((s, v), h) of
       Ret a ((s', v'), h') \<Rightarrow> Ret (a, s') (v', h')
     | Panic p ((s', v'), h') \<Rightarrow> Panic p (v', h'))"

definition ArgWrite :: "regconf \<Rightarrow> 'v ctx \<Rightarrow> calling \<Rightarrow> goany list \<Rightarrow> (unit res, 'v \<times> host) go" where
  "ArgWrite C X c args =
     (if \<not> supported c then ret (Inl ErrCallingUnsupported)
      else seq (with_stream (RegS (new_rstream (BufStack []))) (write_args C X args)) (\<lambda>(r, s).
        case r of
          Inl err \<Rightarrow> ret (Inl err)
        | Inr _ \<Rightarrow>
            (let (off, buf) = stream_buf s
             in if off = 0 then ret (Inr ())
                else attempt (on_fst (CAlloc X (word_of_int off))) (\<lambda>p.
                  on_fst (errable (CMemWrite X p buf))))))"

definition RetExtract :: "regconf \<Rightarrow> 'v ctx \<Rightarrow> goany \<Rightarrow> (unit res, 'v \<times> host) go" where
  "RetExtract C X val =
     (if AnyPtr val = 0 then ret (Inl ErrArgumentInvalid)
      else seq (with_stream (RegS (new_rstream NoStack)) (Decode (streams C X) val)) (\<lambda>(r, s). ret r))"

definition RetWrite :: "regconf \<Rightarrow> 'v ctx \<Rightarrow> goany \<Rightarrow> (unit res, 'v \<times> host) go" where
  "RetWrite C X val =
     (if AnyPtr val = 0 then on_fst (errable (CRegWrite X (GpReg C) 0))
      else seq (with_stream (RegS (new_rstream NoStack)) (Encode (streams C X) val)) (\<lambda>(r, s). ret r))"

definition Return :: "dbg_arch \<Rightarrow> 'v ctx \<Rightarrow> (unit res, 'v) go" where
  "Return D X = attempt (reading (CRegRead X (DLR D))) (\<lambda>lr. errable (CRegWrite X (DPC D) lr))"

section \<open>Stacks\<close>

definition InitStack :: "dbg_arch \<Rightarrow> 'e emulator \<Rightarrow> mem_state \<Rightarrow> 'e \<Rightarrow> u64 res \<times> mem_state \<times> 'e" where
  "InitStack D E s e =
     (case mapAlloc E (DStackSize D) (MEM_PROT_READ OR MEM_PROT_WRITE) s e of
        (Inl err, s', e') \<Rightarrow> (Inl err, s', e')
      | (Inr region, s', e') \<Rightarrow> (Inr (Addr region + DStackSize D), s', e'))"

definition CloseStack :: "dbg_arch \<Rightarrow> 'e emulator \<Rightarrow> u64 \<Rightarrow> mem_state \<Rightarrow> 'e \<Rightarrow> goerr option \<times> mem_state \<times> 'e" where
  "CloseStack D E st s e = mapFree E (st - DStackSize D) (DStackSize D) s e"

section \<open>Floating point\<close>

text \<open>The floating-point unit is switched on when the debugger starts; errors are ignored.\<close>

definition reg_or :: "'e emulator \<Rightarrow> reg \<Rightarrow> u64 \<Rightarrow> 'e \<Rightarrow> 'e" where
  "reg_or E r bits e =
     (let val = (case EmuRegRead E r e of Inl _ \<Rightarrow> 0 | Inr x \<Rightarrow> x)
      in snd (EmuRegWrite E r (val OR bits) e))"

definition arm_enableVFP :: "'e emulator \<Rightarrow> 'e \<Rightarrow> 'e" where
  "arm_enableVFP E e = snd (EmuRegWrite E ARM_REG_FPEXC 0x40000000 (reg_or E ARM_REG_C1_C0_2 0xf00000 e))"

definition arm64_enableVFP :: "'e emulator \<Rightarrow> 'e \<Rightarrow> 'e" where
  "arm64_enableVFP E e = reg_or E ARM64_REG_CPACR_EL1 0x300000 e"

section \<open>The ARM debugger\<close>

definition arm_Args :: "'v ctx \<Rightarrow> calling \<Rightarrow> (stream res, 'v) go" where
  "arm_Args X c = Args ArmDbg X c"

definition arm_Extract :: "'v ctx \<Rightarrow> goany list \<Rightarrow> (unit res, (stream \<times> 'v) \<times> host) go" where
  "arm_Extract X args = Extract arm_conf X args"

definition arm_ArgWrite :: "'v ctx \<Rightarrow> calling \<Rightarrow> goany list \<Rightarrow> (unit res, 'v \<times> host) go" where
  "arm_ArgWrite X c args = ArgWrite arm_conf X c args"

definition arm_RetExtract :: "'v ctx \<Rightarrow> goany \<Rightarrow> (unit res, 'v \<times> host) go" where
  "arm_RetExtract X val = RetExtract arm_conf X val"

definition arm_RetWrite :: "'v ctx \<Rightarrow> goany \<Rightarrow> (unit res, 'v \<times> host) go" where
  "arm_RetWrite X val = RetWrite arm_conf X val"

definition arm_Return :: "'v ctx \<Rightarrow> (unit res, 'v) go" where
  "arm_Return X = Return ArmDbg X"

definition arm_InitStack :: "'e emulator \<Rightarrow> mem_state \<Rightarrow> 'e \<Rightarrow> u64 res \<times> mem_state \<times> 'e" where
  "arm_InitStack E s e = InitStack ArmDbg E s e"

definition arm_CloseStack :: "'e emulator \<Rightarrow> u64 \<Rightarrow> mem_state \<Rightarrow> 'e \<Rightarrow> goerr option \<times> mem_state \<times> 'e" where
  "arm_CloseStack E st s e = CloseStack ArmDbg E st s e"

section \<open>Through a context\<close>

text \<open>
  The methods of \<^verbatim>\<open>baseContext\<close> by which a callback reaches its arguments and results; \<open>D\<close> and \<open>C\<close> are
  the debugger's architecture. \<^verbatim>\<open>ArgExtract\<close> makes a stream, reads all the arguments from it and drops it.
\<close>

definition base_GetArgs :: "dbg_arch \<Rightarrow> 'v ctx \<Rightarrow> calling \<Rightarrow> (stream res, 'v) go" where
  "base_GetArgs D X c = Args D X c"

definition base_ArgExtract ::
  "dbg_arch \<Rightarrow> regconf \<Rightarrow> 'v ctx \<Rightarrow> calling \<Rightarrow> goany list \<Rightarrow> (unit res, 'v \<times> host) go" where
  "base_ArgExtract D C X c args =
     attempt (on_fst (base_GetArgs D X c)) (\<lambda>s.
       seq (with_stream s (Extract C X args)) (\<lambda>(r, s). ret r))"

definition base_ArgWrite :: "regconf \<Rightarrow> 'v ctx \<Rightarrow> calling \<Rightarrow> goany list \<Rightarrow> (unit res, 'v \<times> host) go" where
  "base_ArgWrite C X c args = ArgWrite C X c args"

definition base_RetExtract :: "regconf \<Rightarrow> 'v ctx \<Rightarrow> goany \<Rightarrow> (unit res, 'v \<times> host) go" where
  "base_RetExtract C X val = RetExtract C X val"

definition base_RetWrite :: "regconf \<Rightarrow> 'v ctx \<Rightarrow> goany \<Rightarrow> (unit res, 'v \<times> host) go" where
  "base_RetWrite C X val = RetWrite C X val"

definition base_Return :: "dbg_arch \<Rightarrow> 'v ctx \<Rightarrow> (unit res, 'v) go" where
  "base_Return D X = Return D X"

end
