(* ===== verification/EncProps.thy ===== *)
theory EncProps
  imports EncMemory EncBytes Calling SampleEmu
begin

text \<open>
  The properties of the encoder: encoder and decoder compile a type to the same layout, an encoded
  value has the size announced, a value without pointers comes back, and the cases where the
  encoding loses or misplaces data.
\<close>

section \<open>Operations on a pointer stream\<close>

definition pstate :: "u64 \<Rightarrow> nat \<Rightarrow> 'v \<Rightarrow> host \<Rightarrow> (stream \<times> 'v) \<times> host" where
  "pstate a k v h = ((PtrS (PointerStream a k), v), h)"

lemmas ps_run_defs = pstate_def streams_def by_kind_def wrap_def ps_Write_def ps_Read_def ps_Skip_def
  ptr_WriteAt_def ptr_ReadAt_def ptr_Add_def PointerStream_def go_defs

lemma run_write:
  assumes "guest_mem X mem R" and "area a (length b) \<subseteq> R"
  shows "\<exists>v'. on_fst (SWrite (streams C X) b) (pstate a k v h) =
      Ret (Inr ()) (pstate (a + of_nat (length b)) k v' h) \<and> mem v' = write_bytes a b (mem v)"
proof -
  obtain v' where "CMemWrite X a b v = (None, v')" "mem v' = write_bytes a b (mem v)"
    using guest_write [OF assms] .
  then show ?thesis by (simp add: ps_run_defs)
qed

lemma run_read:
  assumes "guest_mem X mem R" and "area a n \<subseteq> R" and "n < 2 ^ 64"
  shows "on_fst (SRead (streams C X) n) (pstate a k v h) =
    Ret (read_bytes a n (mem v), None) (pstate (a + of_nat n) k v h)"
  using guest_read [OF assms(1), of a "of_nat n" v] assms(2,3)
  by (simp add: ps_run_defs unat_of_nat)

lemma run_skip: "on_fst (SSkip (streams C X) n) (pstate a k v h) =
    Ret (Inr ()) (pstate (a + word_of_int n) k v h)"
  by (simp add: ps_run_defs)

lemma float_ops:
  "WriteFloat (streams C X) f (PtrS ps, v) = SWrite (streams C X) (le_bytes 4 f) (PtrS ps, v)"
  "WriteDouble (streams C X) f (PtrS ps, v) = SWrite (streams C X) (le_bytes 8 f) (PtrS ps, v)"
  "ReadFloat (streams C X) (PtrS ps, v) = seq (SRead (streams C X) 4) (\<lambda>r. ret (val_of r)) (PtrS ps, v)"
  "ReadDouble (streams C X) (PtrS ps, v) = seq (SRead (streams C X) 8) (\<lambda>r. ret (val_of r)) (PtrS ps, v)"
  by (auto simp: streams_def by_kind_def wrap_def ps_WriteFloat_def ps_WriteDouble_def ps_ReadFloat_def
      ps_ReadDouble_def seq_def ret_def split: outcome.splits)

lemma float_run:
  "on_fst (WriteFloat (streams C X) f) (pstate a k v h) = on_fst (SWrite (streams C X) (le_bytes 4 f)) (pstate a k v h)"
  "on_fst (WriteDouble (streams C X) f) (pstate a k v h) = on_fst (SWrite (streams C X) (le_bytes 8 f)) (pstate a k v h)"
  "on_fst (ReadFloat (streams C X)) (pstate a k v h) =
     seq (on_fst (SRead (streams C X) 4)) (\<lambda>r. ret (val_of r)) (pstate a k v h)"
  "on_fst (ReadDouble (streams C X)) (pstate a k v h) =
     seq (on_fst (SRead (streams C X) 8)) (\<lambda>r. ret (val_of r)) (pstate a k v h)"
  by (auto simp: pstate_def on_fst_def float_ops seq_def ret_def split: outcome.splits)

lemma run_hread: "not_nil p n \<Longrightarrow> hread p n (q, h) = Ret (Inr (read_bytes p n (hbytes h))) (q, h)"
  by (auto simp: not_nil_def hread_def hguard_def go_defs)

lemma run_hwrite: "not_nil p (length b) \<Longrightarrow>
    hwrite p b (q, h) = Ret (Inr ()) (q, h\<lparr>hbytes := write_bytes p b (hbytes h)\<rparr>)"
  by (auto simp: not_nil_def hwrite_def hguard_def go_defs)

section \<open>One piece\<close>

lemma pstate_snd: "pstate a k v h = (fst (pstate a k v h), h)"
  by (simp add: pstate_def)

lemma run_read_write:
  assumes "guest_mem X mem R" and "area a n \<subseteq> R" and "not_nil p n"
  shows "\<exists>v'. attempt (hread p n) (\<lambda>b. on_fst (SWrite (streams C X) b)) (pstate a k v h) =
      Ret (Inr ()) (pstate (a + of_nat n) k v' h) \<and>
      mem v' = write_bytes a (read_bytes p n (hbytes h)) (mem v)"
proof -
  have "hread p n (pstate a k v h) = Ret (Inr (read_bytes p n (hbytes h))) (pstate a k v h)"
    using run_hread [OF assms(3)] by (simp add: pstate_def)
  then show ?thesis
    using run_write [OF assms(1), of a "read_bytes p n (hbytes h)"] assms(2) by (simp add: attempt_run)
qed

lemma float_id: "attempt (hread p 4) (\<lambda>b. on_fst (WriteFloat (streams C X) (of_le b))) (pstate a k v h) =
    attempt (hread p 4) (\<lambda>b. on_fst (SWrite (streams C X) b)) (pstate a k v h)"
  "attempt (hread p 8) (\<lambda>b. on_fst (WriteDouble (streams C X) (of_le b))) (pstate a k v h) =
    attempt (hread p 8) (\<lambda>b. on_fst (SWrite (streams C X) b)) (pstate a k v h)"
proof -
  have le: "le_bytes n (of_le (read_bytes p n m)) = read_bytes p n m" if "n \<le> 8" for n m
    using le_bytes_of_le [of "read_bytes p n m"] that by simp
  have h: "hread p n (pstate a k v h) =
      (if 0 < n \<and> unat p < 4096 then Panic NilDeref (pstate a k v h)
       else Ret (Inr (read_bytes p n (hbytes h))) (pstate a k v h))" for n
    by (simp add: hread_def hguard_def pstate_def go_defs)
  show "attempt (hread p 4) (\<lambda>b. on_fst (WriteFloat (streams C X) (of_le b))) (pstate a k v h) =
      attempt (hread p 4) (\<lambda>b. on_fst (SWrite (streams C X) b)) (pstate a k v h)"
    by (simp add: attempt_def seq_def h float_run le del: of_le.simps read_bytes.simps)
  show "attempt (hread p 8) (\<lambda>b. on_fst (WriteDouble (streams C X) (of_le b))) (pstate a k v h) =
      attempt (hread p 8) (\<lambda>b. on_fst (SWrite (streams C X) b)) (pstate a k v h)"
    by (simp add: attempt_def seq_def h float_run le)
qed

lemma enc_seg_run:
  assumes "guest_mem X mem R" and "seg_forward s" and "seg_host p s"
    and "area a (nat (seg_len s)) \<subseteq> R" and "unat a + nat (seg_len s) < 2 ^ 64"
  shows "\<exists>v'. enc_seg (streams C X) p s (pstate a k v h) =
      Ret (Inr ()) (pstate (a + word_of_int (seg_len s)) k v' h) \<and>
      mem v' = overlay a (seg_out (hbytes h) p s) (mem v)"
proof (cases s)
  case (SegBytes off n)
  with assms run_read_write [OF assms(1), of a n "p + word_of_int off"] show ?thesis
    by (simp add: enc_raw_def overlay_bytes)
next
  case (SegFloat off)
  with assms run_read_write [OF assms(1), of a 4 "p + word_of_int off"] show ?thesis
    by (simp add: float_id overlay_bytes del: read_bytes.simps)
next
  case (SegDouble off)
  with assms run_read_write [OF assms(1), of a 8 "p + word_of_int off"] show ?thesis
    by (simp add: float_id overlay_bytes)
next
  case (SegNull n)
  with assms run_write [OF assms(1), of a "replicate n 0"] show ?thesis
    by (simp add: enc_null_def overlay_bytes [of a "replicate n 0", simplified])
next
  case (SegSkip n)
  then show ?thesis by (auto simp: run_skip overlay_none)
qed

text \<open>The bytes a decoded piece puts at \<open>q\<close>, when the stream holds the value at \<open>p\<close> of \<open>hb\<close>.\<close>

fun seg_copy :: "(u64 \<Rightarrow> byte) \<Rightarrow> u64 \<Rightarrow> u64 \<Rightarrow> seg \<Rightarrow> (u64 \<Rightarrow> byte) \<Rightarrow> (u64 \<Rightarrow> byte)" where
  "seg_copy hb p q (SegBytes off n) m = write_bytes (q + word_of_int off) (read_bytes (p + word_of_int off) n hb) m"
| "seg_copy hb p q (SegFloat off) m = write_bytes (q + word_of_int off) (read_bytes (p + word_of_int off) 4 hb) m"
| "seg_copy hb p q (SegDouble off) m = write_bytes (q + word_of_int off) (read_bytes (p + word_of_int off) 8 hb) m"
| "seg_copy hb p q _ m = m"

lemma dec_value_run:
  assumes "guest_mem X mem R" and "area a n \<subseteq> R" and "n \<le> 8" and "not_nil q n"
  shows "attempt (seq (on_fst (SRead (streams C X) n)) (\<lambda>r. ret (val_of r)))
      (\<lambda>f. hwrite q (le_bytes n f)) (pstate a k v h) =
    Ret (Inr ()) (pstate (a + of_nat n) k v (h\<lparr>hbytes := write_bytes q (read_bytes a n (mem v)) (hbytes h)\<rparr>))"
proof -
  have le: "le_bytes n (of_le (read_bytes a n (mem v))) = read_bytes a n (mem v)"
    using le_bytes_of_le [of "read_bytes a n (mem v)"] assms(3) by simp
  have "hwrite q (le_bytes n (of_le (read_bytes a n (mem v)))) (pstate (a + of_nat n) k v h) =
      Ret (Inr ()) (pstate (a + of_nat n) k v (h\<lparr>hbytes := write_bytes q (read_bytes a n (mem v)) (hbytes h)\<rparr>))"
    unfolding le using run_hwrite [of q "read_bytes a n (mem v)"] assms(4) by (simp add: pstate_def)
  moreover have "on_fst (SRead (streams C X) n) (pstate a k v h) =
      Ret (read_bytes a n (mem v), None) (pstate (a + of_nat n) k v h)"
    using assms by (intro run_read) auto
  ultimately show ?thesis by (simp add: attempt_def seq_def ret_def val_of_def)
qed

lemma dec_raw_run:
  assumes "guest_mem X mem R" and "area a n \<subseteq> R" and "n < 2 ^ 64" and "not_nil q n"
  shows "dec_raw (streams C X) n q (pstate a k v h) =
    Ret (Inr ()) (pstate (a + of_nat n) k v (h\<lparr>hbytes := write_bytes q (read_bytes a n (mem v)) (hbytes h)\<rparr>))"
proof -
  have g: "hguard q n = ret (Inr ())" using assms(4) by (auto simp: hguard_def not_nil_def)
  have "hwrite q (read_bytes a n (mem v)) (pstate (a + of_nat n) k v h) =
      Ret (Inr ()) (pstate (a + of_nat n) k v (h\<lparr>hbytes := write_bytes q (read_bytes a n (mem v)) (hbytes h)\<rparr>))"
    using run_hwrite [of q "read_bytes a n (mem v)"] assms(4) by (simp add: pstate_def)
  with run_read [OF assms(1-3), of C k v h] show ?thesis
    by (simp add: dec_raw_def g attempt_def seq_def ret_def result_def)
qed

lemma attempt_cong_at: "m s = m' s \<Longrightarrow> attempt m k s = attempt m' k s"
  by (simp add: attempt_def seq_def)

lemma read_float_cong:
  "attempt (on_fst (ReadFloat (streams C X))) K (pstate a k v h) =
     attempt (seq (on_fst (SRead (streams C X) 4)) (\<lambda>r. ret (val_of r))) K (pstate a k v h)"
  "attempt (on_fst (ReadDouble (streams C X))) K (pstate a k v h) =
     attempt (seq (on_fst (SRead (streams C X) 8)) (\<lambda>r. ret (val_of r))) K (pstate a k v h)"
  by (rule attempt_cong_at, rule float_run)+

lemma dec_seg_run:
  assumes "guest_mem X mem R" and "seg_forward s" and "seg_host q s"
    and "area a (nat (seg_len s)) \<subseteq> R" and "unat a + nat (seg_len s) < 2 ^ 64"
    and "matches a (seg_out hb p s) (mem v)"
  shows "dec_seg (streams C X) q s (pstate a k v h) =
    Ret (Inr ()) (pstate (a + word_of_int (seg_len s)) k v (h\<lparr>hbytes := seg_copy hb p q s (hbytes h)\<rparr>))"
proof (cases s)
  case (SegBytes off n)
  with assms dec_raw_run [OF assms(1), of a n "q + word_of_int off"] show ?thesis
    by (simp add: matches_bytes)
next
  case (SegFloat off)
  with assms dec_value_run [OF assms(1), of a 4 "q + word_of_int off" C k v h] show ?thesis
    by (simp add: matches_bytes read_float_cong del: read_bytes.simps le_bytes.simps)
next
  case (SegDouble off)
  with assms dec_value_run [OF assms(1), of a 8 "q + word_of_int off" C k v h] show ?thesis
    by (simp add: matches_bytes read_float_cong)
qed (simp_all add: run_skip)

section \<open>A whole layout\<close>

lemma area_append: "0 \<le> y \<Longrightarrow> area a (nat (int m + y)) \<subseteq> R \<Longrightarrow> unat a + nat (int m + y) < 2 ^ 64 \<Longrightarrow>
    area a m \<subseteq> R \<and> area (a + of_nat m) (nat y) \<subseteq> R \<and> unat (a + of_nat m) + nat y < 2 ^ 64"
  using unat_le_add [of a m] by (auto simp: area_def nat_add_distrib)

lemma segs_len_ge: "list_all seg_forward ss \<Longrightarrow> 0 \<le> segs_len ss"
  by (metis segs_out_length of_nat_0_le_iff)

text \<open>Where the first piece of a layout ends, and the rest begins.\<close>

lemma segs_split:
  assumes "list_all seg_forward (s # ss)" and "area a (nat (segs_len (s # ss))) \<subseteq> R"
    and "unat a + nat (segs_len (s # ss)) < 2 ^ 64"
  shows "area a (nat (seg_len s)) \<subseteq> R" "unat a + nat (seg_len s) < 2 ^ 64"
    "area (a + word_of_int (seg_len s)) (nat (segs_len ss)) \<subseteq> R"
    "unat (a + word_of_int (seg_len s)) + nat (segs_len ss) < 2 ^ 64"
    "word_of_int (seg_len s) = (of_nat (length (seg_out hb p s)) :: u64)"
    "length (seg_out hb p s) + length (segs_out hb p ss) < 2 ^ 64"
proof -
  define m where "m = length (seg_out hb p s)"
  have m: "seg_len s = int m" using assms(1) seg_out_length [of s hb p] by (simp add: m_def)
  have ge: "0 \<le> segs_len ss" using assms(1) by (intro segs_len_ge) simp
  note ap = area_append [OF ge, of a m R]
  from ap assms(2,3) show "area a (nat (seg_len s)) \<subseteq> R"
      "area (a + word_of_int (seg_len s)) (nat (segs_len ss)) \<subseteq> R"
      "unat (a + word_of_int (seg_len s)) + nat (segs_len ss) < 2 ^ 64"
    by (simp_all add: m)
  from assms(3) ge m show "unat a + nat (seg_len s) < 2 ^ 64" by simp
  show "word_of_int (seg_len s) = (of_nat (length (seg_out hb p s)) :: u64)"
    by (simp only: m m_def word_of_int_nat)
  have "int (length (segs_out hb p ss)) = segs_len ss" using assms(1) by (intro segs_out_length) simp
  with assms(3) m ge show "length (seg_out hb p s) + length (segs_out hb p ss) < 2 ^ 64"
    unfolding m_def [symmetric] by simp
qed

lemma run_enc_ok:
  assumes "guest_mem X mem R" and "list_all seg_forward ss" and "list_all (seg_host p) ss"
    and "area a (nat (segs_len ss)) \<subseteq> R" and "unat a + nat (segs_len ss) < 2 ^ 64"
  shows "\<exists>v'. run_enc (streams C X) ss p (pstate a k v h) =
      Ret (Inr ()) (pstate (a + word_of_int (segs_len ss)) k v' h) \<and>
      mem v' = overlay a (segs_out (hbytes h) p ss) (mem v)"
  using assms(2-5)
proof (induction ss arbitrary: a v)
  case Nil
  show ?case by (intro exI [of _ v]) (simp add: run_enc_def ret_def overlay_def fun_eq_iff)
next
  case (Cons s ss)
  let ?a = "a + word_of_int (seg_len s)"
  note split = segs_split(1-4) [OF Cons.prems(1,3,4)]
    segs_split(5,6) [OF Cons.prems(1,3,4), where hb = "hbytes h" and p = p]
  have f: "seg_forward s" "seg_host p s" using Cons.prems(1,2) by simp_all
  obtain v1 where v1: "enc_seg (streams C X) p s (pstate a k v h) = Ret (Inr ()) (pstate ?a k v1 h)"
      "mem v1 = overlay a (seg_out (hbytes h) p s) (mem v)"
    using enc_seg_run [OF assms(1) f split(1,2), of C k v h] by blast
  obtain v2 where v2: "run_enc (streams C X) ss p (pstate ?a k v1 h) =
        Ret (Inr ()) (pstate (?a + word_of_int (segs_len ss)) k v2 h)"
      "mem v2 = overlay ?a (segs_out (hbytes h) p ss) (mem v1)"
    using Cons.IH [OF _ _ split(3,4)] Cons.prems by auto
  have "mem v2 = overlay a (segs_out (hbytes h) p (s # ss)) (mem v)"
    using v1(2) v2(2) overlay_append [OF split(6)] by (simp add: split(5))
  with v1(1) v2(1) show ?case
    by (auto simp: run_enc_def attempt_run add.assoc intro!: exI [of _ v2])
qed

lemma run_dec_ok:
  assumes "guest_mem X mem R" and "list_all seg_forward ss" and "list_all (seg_host q) ss"
    and "area a (nat (segs_len ss)) \<subseteq> R" and "unat a + nat (segs_len ss) < 2 ^ 64"
    and "matches a (segs_out hb p ss) (mem v)"
  shows "run_dec (streams C X) ss q (pstate a k v h) =
    Ret (Inr ()) (pstate (a + word_of_int (segs_len ss)) k v (h\<lparr>hbytes := fold (seg_copy hb p q) ss (hbytes h)\<rparr>))"
  using assms(2-6)
proof (induction ss arbitrary: a h)
  case Nil
  show ?case by (simp add: run_dec_def ret_def)
next
  case (Cons s ss)
  let ?a = "a + word_of_int (seg_len s)"
  note split = segs_split(1-4) [OF Cons.prems(1,3,4)]
    segs_split(5,6) [OF Cons.prems(1,3,4), where hb = hb and p = p]
  have mt: "matches a (seg_out hb p s) (mem v)" "matches ?a (segs_out hb p ss) (mem v)"
    using Cons.prems(5) by (simp_all add: matches_append split(5))
  show ?case
    using dec_seg_run [OF assms(1) _ _ split(1,2) mt(1), of q C k h]
      Cons.IH [OF _ _ split(3,4) mt(2), of "h\<lparr>hbytes := seg_copy hb p q s (hbytes h)\<rparr>"] Cons.prems
    by (simp add: run_dec_def attempt_run add.assoc)
qed

text \<open>The copy that the bytes carried make.\<close>

lemma copy_range: "write_bytes (q + word_of_int off) (read_bytes (p + word_of_int off) n hb) m x =
    (if \<exists>k \<in> {off ..< off + int n}. x = q + word_of_int k then hb (p + (x - q)) else m x)"
proof -
  have "(\<exists>i<n. x = q + word_of_int off + of_nat i) \<longleftrightarrow> (\<exists>k \<in> {off ..< off + int n}. x = q + word_of_int k)"
  proof
    assume "\<exists>i<n. x = q + word_of_int off + of_nat i"
    then obtain i where "i < n" "x = q + word_of_int off + of_nat i" by blast
    then have "off + int i \<in> {off ..< off + int n} \<and> x = q + word_of_int (off + int i)" by simp
    then show "\<exists>k \<in> {off ..< off + int n}. x = q + word_of_int k" by blast
  next
    assume "\<exists>k \<in> {off ..< off + int n}. x = q + word_of_int k"
    then obtain k where k: "off \<le> k" "k < off + int n" "x = q + word_of_int k" by auto
    then have "nat (k - off) < n \<and> x = q + word_of_int off + of_nat (nat (k - off))" by auto
    then show "\<exists>i<n. x = q + word_of_int off + of_nat i" by blast
  qed
  then show ?thesis by (simp add: write_read_bytes algebra_simps)
qed

lemma seg_copy_at: "seg_copy hb p q s m x =
    (if \<exists>k \<in> seg_foot s. x = q + word_of_int k then hb (p + (x - q)) else m x)"
proof (cases s)
  case (SegFloat off)
  then show ?thesis using copy_range [of q off p 4 hb m x] by (simp del: read_bytes.simps)
next
  case (SegDouble off)
  then show ?thesis using copy_range [of q off p 8 hb m x] by simp
qed (simp_all add: copy_range)

lemma copy_at: "fold (seg_copy hb p q) ss m x =
    (if \<exists>k \<in> foot ss. x = q + word_of_int k then hb (p + (x - q)) else m x)"
proof (induction ss arbitrary: m)
  case (Cons s ss)
  show ?case unfolding fold_simps Cons.IH by (auto simp: seg_copy_at foot_def)
qed (simp add: foot_def)

section \<open>Top level\<close>

text \<open>
  What the theorems below assume of a value of type \<open>t\<close> at \<open>p\<close>: the type compiles, to a layout that
  moves forward (only a field of size zero makes it step back) and reads no nil pointer.
\<close>

definition encodable :: "nat \<Rightarrow> gotype \<Rightarrow> seg list \<Rightarrow> bool" where
  "encodable bs t ss \<longleftrightarrow> flat t \<and> (\<exists>n. layout bs t = Inr (ss, n)) \<and> list_all seg_forward ss"

definition host_at :: "u64 \<Rightarrow> seg list \<Rightarrow> bool" where
  "host_at p ss \<longleftrightarrow> p \<noteq> 0 \<and> list_all (seg_host p) ss"

definition fits :: "u64 \<Rightarrow> seg list \<Rightarrow> nat set \<Rightarrow> bool" where
  "fits a ss R \<longleftrightarrow> area a (nat (segs_len ss)) \<subseteq> R \<and> unat a + nat (segs_len ss) < 2 ^ 64"

lemma flat_no_pointer: "flat t \<Longrightarrow> \<not> is_pointer t \<and> \<not> one_pointer t"
  by (cases t) (auto simp: is_pointer_def one_pointer_def split: list.splits gotype.splits)

lemma encodableD:
  fixes S :: "('s, 'v) stream_ops"
  assumes "encodable bs t ss"
  shows "\<exists>n. encode S bs t = Inr (run_enc S ss, n) \<and> decode S fake bs t = Inr (run_dec S ss, n) \<and>
    ss_Size n = segs_len ss"
  using assms encode_layout_both(1) [of t S bs] decode_layout_both(1) [of t S fake bs] layout_size [of bs t ss]
  by (auto simp: encodable_def)

lemma Encode_flat:
  assumes "encodable bs t ss" and "p \<noteq> 0"
  shows "Encode (streams C X) \<lparr>AnyType = t, AnyPtr = p\<rparr> (pstate a bs v h) =
    run_enc (streams C X) ss p (pstate a bs v h)"
proof -
  obtain n where "encode (streams C X) bs t = Inr (run_enc (streams C X) ss, n)"
    using encodableD [OF assms(1)] by blast
  moreover have "\<not> is_pointer t" "\<not> one_pointer t"
    using flat_no_pointer assms(1) by (auto simp: encodable_def)
  ultimately show ?thesis
    using assms(2) by (simp add: Encode_def seq_def get_def pstate_def streams_def PointerStream_def)
qed

lemma Decode_flat:
  assumes "encodable bs t ss" and "q \<noteq> 0"
  shows "Decode (streams C X) \<lparr>AnyType = Pointer t, AnyPtr = q\<rparr> (pstate a bs v h) =
    run_dec (streams C X) ss q (pstate a bs v h)"
proof -
  obtain n where "decode (streams C X) False bs t = Inr (run_dec (streams C X) ss, n)"
    using encodableD [OF assms(1)] by blast
  then show ?thesis
    using assms(2) by (simp add: Decode_def seq_def get_def pstate_def streams_def PointerStream_def)
qed

section \<open>A sample context and value\<close>

definition X0 :: "semu ctx" where "X0 = global_ctx Arm64Dbg (sample_emu ARCH_ARM64)"

definition h0 :: host where "h0 = \<lparr>hbytes = (\<lambda>_. 0), hnext = 0x100000\<rparr>"

lemma X0_mem: "guest_mem X0 s_mem UNIV"
  by (simp add: guest_mem_def X0_def global_ctx_def sample_emu_def)

text \<open>\<^verbatim>\<open>struct { a uint8; b [2]int; c float32 `encoding:"ignore"`; d uint64 }\<close>\<close>

definition sampleT :: gotype where
  "sampleT = Struct 40 [(Basic Uint8, 0, ''''), (Array 2 (Basic GoInt), 8, ''''),
     (Basic Float32, 24, ''ignore''), (Basic Uint64, 32, '''')]"

definition sampleL :: "seg list" where
  "sampleL = [SegBytes 0 1, SegSkip 7, SegBytes 8 16, SegBytes 32 8]"

lemma sampleT_layout: "layout 8 sampleT = Inr (sampleL, [1, 7, 8, 8, 8])"
  by code_simp

lemma sampleT_flat: "flat sampleT"
  by (simp add: sampleT_def)

lemma sampleT_ok: "encodable 8 sampleT sampleL" "host_at 0x10000 sampleL" "host_at 0x20000 sampleL"
    "fits 0x400000 sampleL UNIV"
  by (simp_all add: encodable_def sampleT_flat sampleT_layout sampleL_def host_at_def not_nil_def fits_def)

section \<open>Properties\<close>

text \<open>C32: For a type without pointers, slices and strings the encoder and the decoder compile to the
  same layout: both panic on the same types, both announce the same sizes, the encoder writes the
  pieces of the layout in order and the decoder reads them, on any stream whatever.\<close>

theorem compile_same_layout:
  fixes S :: "('s, 'v) stream_ops"
  assumes "flat t"
  shows "encode S bs t = compiled (run_enc S) (layout bs t) \<and>
    decode S fake bs t = compiled (run_dec S) (layout bs t)"
  using assms by (simp add: encode_layout_both decode_layout_both)

lemma compile_same_layout_witness:
  "\<forall>S :: (stream, semu) stream_ops. encode S 8 sampleT = Inr (run_enc S sampleL, [1, 7, 8, 8, 8])"
proof
  fix S :: "(stream, semu) stream_ops"
  from compile_same_layout [OF sampleT_flat, of S 8 False]
  show "encode S 8 sampleT = Inr (run_enc S sampleL, [1, 7, 8, 8, 8])"
    by (simp add: sampleT_layout)
qed



lemma roundtrip_foot:
  assumes "guest_mem X mem R" and "encodable bs t ss" and "host_at p ss" and "host_at q ss"
    and "fits a ss R"
  shows "\<exists>b v'. Encode (streams C X) \<lparr>AnyType = t, AnyPtr = p\<rparr> (pstate a bs v h) =
      Ret (Inr ()) (pstate b bs v' h) \<and>
    (\<exists>h2. Decode (streams C X) \<lparr>AnyType = Pointer t, AnyPtr = q\<rparr> (pstate a bs v' h1) =
        Ret (Inr ()) (pstate b bs v' h2) \<and>
      (\<forall>x. hbytes h2 x =
        (if \<exists>k \<in> foot ss. x = q + word_of_int k then hbytes h (p + (x - q)) else hbytes h1 x)))"
proof -
  from assms(3,4) have pq: "p \<noteq> 0" "list_all (seg_host p) ss" "q \<noteq> 0" "list_all (seg_host q) ss"
    by (simp_all add: host_at_def)
  from assms(2) have fw: "list_all seg_forward ss" by (simp add: encodable_def)
  from assms(5) have fit: "area a (nat (segs_len ss)) \<subseteq> R" "unat a + nat (segs_len ss) < 2 ^ 64"
    by (simp_all add: fits_def)
  let ?b = "a + word_of_int (segs_len ss)"
  obtain v' where v': "run_enc (streams C X) ss p (pstate a bs v h) = Ret (Inr ()) (pstate ?b bs v' h)"
      "mem v' = overlay a (segs_out (hbytes h) p ss) (mem v)"
    using run_enc_ok [OF assms(1) fw pq(2) fit] by blast
  have "length (segs_out (hbytes h) p ss) < 2 ^ 64"
    using segs_out_length [OF fw, of "hbytes h" p] fit(2) by linarith
  then have "matches a (segs_out (hbytes h) p ss) (mem v')"
    unfolding v'(2) by (rule matches_overlay)
  from run_dec_ok [OF assms(1) fw pq(4) fit this]
  have "run_dec (streams C X) ss q (pstate a bs v' h1) =
      Ret (Inr ()) (pstate ?b bs v' (h1\<lparr>hbytes := fold (seg_copy (hbytes h) p q) ss (hbytes h1)\<rparr>))" .
  with v'(1) show ?thesis
    unfolding Encode_flat [OF assms(2) pq(1)] Decode_flat [OF assms(2) pq(3)]
    by (force simp: copy_at)
qed



section \<open>Where the encoding goes wrong\<close>

text \<open>
  On ARM an \<^verbatim>\<open>int\<close> of the debugger has eight bytes, four of them encoded; the loop over an array
  steps by the four, so that the second element is taken from the upper half of the first.
\<close>

lemma int_array_step: "layout 4 (Array 2 (Basic GoInt)) = Inr ([SegBytes 0 4, SegBytes 4 4], [4, 4])"
  by code_simp

text \<open>
  The same with elements that have an ignored field, on any stream: the second element is taken from the
  ignored field of the first.
\<close>

lemma struct_array_step:
  "layout 8 (Array 2 (Struct 16 [(Basic Uint64, 0, ''''), (Basic Uint64, 8, ''ignore'')])) =
     Inr ([SegBytes 0 8, SegBytes 8 8], [8, 8])"
  by code_simp

text \<open>
  The alignment of a nested struct is taken from the gap between its first two fields:
  \<^verbatim>\<open>struct { x uint8; s struct { a uint8; b uint8; c uint32 } }\<close> has \<open>s\<close> at offset 4 in Go and at
  offset 1 in the encoding.
\<close>

lemma nested_struct_align: "layout 8 (Struct 12 [(Basic Uint8, 0, ''''),
    (Struct 8 [(Basic Uint8, 0, ''''), (Basic Uint8, 1, ''''), (Basic Uint32, 4, '''')], 4, '''')]) =
  Inr ([SegBytes 0 1, SegBytes 4 8, SegSkip 3], [1, 1, 3, 4, 3])"
  by code_simp

text \<open>A field of size zero moves the stream back to where the struct began; an empty array panics.\<close>

lemma empty_struct_field:
  "layout 8 (Struct 16 [(Basic Uint32, 0, ''''), (Struct 0 [], 4, ''''), (Basic Uint64, 8, '''')]) =
     Inr ([SegBytes 0 4, SegSkip (- 4), SegBytes 4 0, SegBytes 8 8], [4, - 4, 0, 8])"
  "layout 8 (Struct 8 [(Array 0 (Basic Uint8), 0, ''''), (Basic Uint64, 0, '''')]) = Inl IndexRange"
  by code_simp+

text \<open>A string is announced with twice the size it takes on the stream.\<close>

lemma string_size:
  fixes S :: "('s, 'v) stream_ops"
  shows "EncodeSize S bs \<lparr>AnyType = StringT, AnyPtr = p\<rparr> = Inr (if p = 0 then int bs else 2 * int bs)"
  by (simp add: EncodeSize_def encodeString_def ss_Size_def)

text \<open>
  The encoder of a pointer tests the address of the variable, not the pointer in it: a nil pointer
  in a struct panics, once the memory for what it does not point to has been allocated.
\<close>

lemma nil_pointer_panics:
  assumes "encode S bs (Pointer (Basic Uint8)) = Inr (m, n)" and "p \<noteq> 0" and "not_nil p 8"
    and "of_le (read_bytes p 8 (hbytes h)) = 0" and "WriteStream S 1 (s, v) = Ret (Inr sub) (s', v')"
  shows "m p ((s, v), h) = Panic NilDeref ((s', v'), h)"
proof -
  have m: "m = fst (encodePointer S bs (enc_raw S 1, [1]))"
    using assms(1) by (auto simp: word_kind_def)
  have "hread_ptr p ((s', v'), h) = Ret (Inr 0) ((s', v'), h)"
    using run_hread [OF assms(3), of "(s', v')" h] assms(4)
    by (simp add: hread_ptr_def attempt_run ret_def)
  then show ?thesis
    using assms(2,5) by (simp add: m encodePointer_def ss_Size_def enc_raw_def hread_def hguard_def on_sub_def go_defs)
qed

end
