(* ===== verification/ArgRegs.thy ===== *)
theory ArgRegs
  imports EncProps
begin

text \<open>
  Passing integer arguments through the register stream: what one argument does to the registers
  and to the stack buffer when it is written, and that reading follows the same path.
\<close>

section \<open>What the debugger relies on in a register file\<close>

text \<open>
  \<open>rg v i\<close> is the bytes of the \<open>i\<close>-th argument register, as many as a pointer has, and \<open>sp v\<close> the
  stack pointer. A register holds the low bytes of what was written to it; memory and registers do
  not disturb each other.
\<close>

definition reg_file ::
  "regconf \<Rightarrow> reg \<Rightarrow> 'v ctx \<Rightarrow> ('v \<Rightarrow> nat \<Rightarrow> byte list) \<Rightarrow> ('v \<Rightarrow> u64) \<Rightarrow> bool" where
  "reg_file C SP X rg sp \<longleftrightarrow>
     (\<forall>i < ARG_REG_COUNT C. \<forall>x v. \<exists>v'. CRegWrite X (GpReg C + int i) x v = (None, v') \<and>
        rg v' = (rg v)(i := le_bytes (POINTER_SIZE C) x) \<and> sp v' = sp v) \<and>
     (\<forall>i < ARG_REG_COUNT C. \<forall>v. \<exists>w. CRegRead X (GpReg C + int i) v = Inr w \<and>
        le_bytes (POINTER_SIZE C) w = rg v i) \<and>
     (\<forall>v. CRegRead X SP v = Inr (sp v)) \<and>
     (\<forall>x v. \<exists>v'. CRegWrite X SP x v = (None, v') \<and> rg v' = rg v \<and>
        (unat x < 256 ^ POINTER_SIZE C \<longrightarrow> sp v' = x)) \<and>
     (\<forall>a b v. rg (snd (CMemWrite X a b v)) = rg v \<and> sp (snd (CMemWrite X a b v)) = sp v)"

lemma reg_fileD:
  assumes "reg_file C SP X rg sp"
  shows "i < ARG_REG_COUNT C \<Longrightarrow> \<exists>v'. CRegWrite X (GpReg C + int i) x v = (None, v') \<and>
      rg v' = (rg v)(i := le_bytes (POINTER_SIZE C) x) \<and> sp v' = sp v"
    and "i < ARG_REG_COUNT C \<Longrightarrow> \<exists>w. CRegRead X (GpReg C + int i) v = Inr w \<and> le_bytes (POINTER_SIZE C) w = rg v i"
    and "CRegRead X SP v = Inr (sp v)"
    and "\<exists>v'. CRegWrite X SP x v = (None, v') \<and> rg v' = rg v \<and> (unat x < 256 ^ POINTER_SIZE C \<longrightarrow> sp v' = x)"
    and "CMemWrite X a b v = (err, v') \<Longrightarrow> rg v' = rg v \<and> sp v' = sp v"
  using assms unfolding reg_file_def by (blast, blast, blast, blast, metis snd_conv)

section \<open>Rounding\<close>

definition conf_ok :: "regconf \<Rightarrow> bool" where
  "conf_ok C \<longleftrightarrow> POINTER_SIZE C = 4 \<or> POINTER_SIZE C = 8"

definition up4 :: "nat \<Rightarrow> nat" where
  "up4 n = (n + 3) div 4 * 4"

lemma up4_ge: "n \<le> up4 n"
  unfolding up4_def by linarith

lemma up4_dvd: "4 dvd up4 n"
  by (simp add: up4_def)

lemma up4_add: "4 dvd k \<Longrightarrow> up4 (k + n) = k + up4 n"
proof -
  assume "4 dvd k"
  then obtain j where "k = 4 * j" by blast
  moreover have "(4 * j + n + 3) div 4 = j + (n + 3) div 4" by linarith
  ultimately show ?thesis by (simp add: up4_def)
qed

lemma Align_int: "Align a (2 ^ k) = (a + 2 ^ k - 1) div 2 ^ k * (2 ^ k :: int)"
  using enc_align_eq [of a k] by (simp add: enc_align_def Align_def)

lemma Align_up4: "Align (int n) 4 = int (up4 n)"
  using Align_int [of "int n" 2] by (simp add: up4_def zdiv_int algebra_simps)

lemma Align_ptr:
  assumes "conf_ok C" and "n \<le> POINTER_SIZE C"
  shows "Align (int (POINTER_SIZE C * i + n)) (int (POINTER_SIZE C)) =
    int (POINTER_SIZE C * (if n = 0 then i else Suc i))"
proof -
  define P where "P = POINTER_SIZE C"
  have "int P = 2 ^ 2 \<or> int P = 2 ^ 3" using assms(1) by (auto simp: conf_ok_def P_def)
  then obtain k where k: "int P = 2 ^ k" by blast
  have "Align (int (P * i + n)) (int P) = (int (P * i + n) + int P - 1) div int P * int P"
    unfolding k by (rule Align_int)
  also have "(int (P * i + n) + int P - 1) div int P = int (if n = 0 then i else Suc i)"
  proof -
    have P: "int P \<noteq> 0" using assms(1) by (auto simp: P_def conf_ok_def)
    have n: "int n \<le> int P" using assms(2) by (simp add: P_def)
    have "(int P - 1 + int P * int i) div int P = int i + (int P - 1) div int P"
      and "(int n - 1 + int P * (int i + 1)) div int P = int i + 1 + (int n - 1) div int P"
      using P by (rule div_mult_self2)+
    moreover have "(int P - 1) div int P = 0" "0 < n \<Longrightarrow> (int n - 1) div int P = 0"
      using P n by (simp_all add: div_pos_pos_trivial)
    moreover have "int (P * i + n) + int P - 1 = (if n = 0 then int P - 1 + int P * int i
        else int n - 1 + int P * (int i + 1))"
      by (simp add: algebra_simps)
    ultimately show ?thesis by simp
  qed
  finally show ?thesis by (simp add: P_def)
qed

section \<open>One argument in a register\<close>

lemma put_bytes_prefix: "length b \<le> 8 \<Longrightarrow> le_bytes 8 (put_bytes 0 b x) = b @ drop (length b) (le_bytes 8 x)"
  using le_bytes_of_le [of "b @ drop (length b) (le_bytes 8 x)"] by (simp add: put_bytes_def)

lemma put_bytes_take:
  assumes "length b \<le> n" and "n \<le> 8"
  shows "take (length b) (le_bytes n (put_bytes 0 b x)) = b"
proof -
  have "take (length b) (le_bytes n (put_bytes 0 b x)) = take (length b) (take n (le_bytes 8 (put_bytes 0 b x)))"
    using assms by (simp add: le_bytes_take)
  also have "\<dots> = b" using assms by (simp add: put_bytes_prefix)
  finally show ?thesis .
qed

lemma reg_position:
  assumes "conf_ok C" and "i < ARG_REG_COUNT C" and "groff rs = int (POINTER_SIZE C * i)"
  shows "\<not> groff rs \<ge> rs_limit C" "groff rs div int (POINTER_SIZE C) = int i"
    "groff rs mod int (POINTER_SIZE C) = 0"
proof -
  have "0 < int (POINTER_SIZE C)" using assms(1) by (auto simp: conf_ok_def)
  then show "\<not> groff rs \<ge> rs_limit C" "groff rs div int (POINTER_SIZE C) = int i"
      "groff rs mod int (POINTER_SIZE C) = 0"
    using assms(2,3) by (simp_all add: rs_limit_def mult.commute [of "int (ARG_REG_COUNT C)"])
qed

lemma write_reg:
  assumes "conf_ok C" and "i < ARG_REG_COUNT C" and "groff rs = int (POINTER_SIZE C * i)"
    and "0 < length b" and "length b \<le> 8"
    and "CRegWrite X (GpReg C + int i) (put_bytes 0 b (rvalue rs)) v = (None, v')"
  shows "rs_Write C X b (rs, v) = Ret (Inr ())
    (rs\<lparr>rvalue := put_bytes 0 b (rvalue rs), groff := groff rs + int (length b)\<rparr>, v')"
proof -
  note pos = reg_position [OF assms(1-3)]
  have "b \<noteq> []" using assms(4) by auto
  then show ?thesis
    using assms(5,6) pos by (simp add: rs_Write_def rs_write_loop.simps [of C X "int i" b]
      rs_write_loop.simps [of C X "int i + 1" "[]"] min_def)
qed

lemma read_reg:
  assumes "conf_ok C" and "i < ARG_REG_COUNT C" and "groff rs = int (POINTER_SIZE C * i)"
    and "0 < n" and "n \<le> 8" and "CRegRead X (GpReg C + int i) v = Inr w"
  shows "rs_Read C X n (rs, v) = Ret (le_bytes n w, None) (rs\<lparr>rvalue := w, groff := groff rs + int n\<rparr>, v)"
proof -
  note pos = reg_position [OF assms(1-3)]
  show ?thesis
    using assms(4-6) pos by (simp add: rs_Read_def rs_read_loop.simps [of C X "int i" n]
      rs_read_loop.simps [of C X "int i + 1" 0] min_def seq_def ret_def)
qed

section \<open>The stack buffer\<close>

text \<open>Arguments on the stack are padded to four bytes; the last one is not.\<close>

definition pad4 :: "byte list \<Rightarrow> byte list" where
  "pad4 b = b @ replicate (up4 (length b) - length b) 0"

definition stk :: "byte list list \<Rightarrow> byte list" where
  "stk ds = concat (map pad4 ds)"

definition buf_of :: "byte list list \<Rightarrow> byte list" where
  "buf_of ds = (if ds = [] then [] else stk (butlast ds) @ last ds)"

lemma length_pad4: "length (pad4 b) = up4 (length b)"
  using up4_ge [of "length b"] by (simp add: pad4_def)

lemma stk_append [simp]: "stk [] = []" "stk (xs @ ys) = stk xs @ stk ys" "stk (b # ys) = pad4 b @ stk ys"
  by (simp_all add: stk_def)

lemma stk_dvd: "4 dvd length (stk ds)"
  by (induction ds) (auto simp: stk_def length_pad4 up4_dvd)

lemma stk_buf: "stk ds = buf_of ds @ replicate (length (stk ds) - length (buf_of ds)) 0"
proof (cases ds rule: rev_cases)
  case (snoc xs b)
  then show ?thesis using up4_ge [of "length b"] by (simp add: buf_of_def length_pad4 pad4_def)
qed (simp add: buf_of_def)

lemma length_buf: "length (buf_of ds) \<le> length (stk ds)"
  by (cases ds rule: rev_cases) (simp_all add: buf_of_def length_pad4 up4_ge)

lemma buf_snoc: "buf_of (ds @ [b]) = stk ds @ b"
  by (simp add: buf_of_def)

lemma buf_write: "buf_WriteAt (buf_of ds) b (int (length (stk ds))) = Inr (length b, buf_of (ds @ [b]))"
proof -
  let ?n = "length (stk ds)"
  define buf where "buf = buf_of ds"
  have len: "length buf \<le> ?n" by (simp add: buf_def length_buf)
  have e: "nat (int (length b) + int ?n) = length b + ?n" by simp
  show ?thesis
  proof (cases "length buf < length b + ?n")
    case True
    have "take ?n (buf @ replicate (length b + ?n - length buf) 0) = stk ds"
    proof -
      have "?n - length buf \<le> length b + ?n - length buf" by simp
      then show ?thesis using len stk_buf [of ds] by (simp add: buf_def min_absorb1)
    qed
    with True len show ?thesis
      by (simp add: buf_WriteAt_def buf_snoc buf_def [symmetric] e)
  next
    case False
    with len have "length b = 0" "length buf = ?n" by linarith+
    then have "b = []" "length buf = ?n" by simp_all
    moreover from this have "buf = stk ds" using stk_buf [of ds] by (simp add: buf_def)
    ultimately show ?thesis
      by (simp add: buf_WriteAt_def buf_snoc buf_def [symmetric])
  qed
qed

text \<open>Where an argument is in the buffer.\<close>

lemma buf_at: "take (length b) (drop (length (stk xs)) (buf_of (xs @ b # ys))) = b"
proof (cases ys rule: rev_cases)
  case Nil then show ?thesis by (simp add: buf_snoc)
next
  case (snoc zs c)
  then have "xs @ b # ys = (xs @ [b] @ zs) @ [c]" by simp
  then have "buf_of (xs @ b # ys) = stk xs @ pad4 b @ stk zs @ c" by (simp only: buf_snoc) simp
  then show ?thesis by (simp add: pad4_def)
qed

lemma buf_at_length: "length (stk xs) + length b \<le> length (buf_of (xs @ b # ys))"
proof (cases ys rule: rev_cases)
  case Nil then show ?thesis by (simp add: buf_snoc)
next
  case (snoc zs c)
  then have "xs @ b # ys = (xs @ [b] @ zs) @ [c]" by simp
  then have "buf_of (xs @ b # ys) = stk xs @ pad4 b @ stk zs @ c" by (simp only: buf_snoc) simp
  then show ?thesis using up4_ge [of "length b"] by (simp add: length_pad4)
qed

lemma read_written:
  assumes "unat a + length buf < 2 ^ 64" and "off + n \<le> length buf"
  shows "read_bytes (a + of_nat off) n (write_bytes a buf m) = take n (drop off buf)"
proof (rule nth_equalityI)
  fix i assume "i < length (read_bytes (a + of_nat off) n (write_bytes a buf m))"
  then have i: "i < n" by simp
  have "unat (of_nat (off + i) :: u64) = off + i"
    using assms i unat_le_add [of 0 "off + i"] by simp
  then have "write_bytes a buf m (a + of_nat (off + i)) = buf ! (off + i)"
    using assms i by (simp add: write_bytes_at)
  then show "read_bytes (a + of_nat off) n (write_bytes a buf m) ! i = take n (drop off buf) ! i"
    using i assms(2) by (simp add: read_bytes_nth add.assoc)
qed (use assms(2) in simp)

section \<open>All arguments\<close>

type_synonym arg = "kind \<times> u64"

text \<open>An integer argument: a basic type that is no float and no larger than a register, not nil.\<close>

definition int_arg :: "regconf \<Rightarrow> arg \<Rightarrow> bool" where
  "int_arg C a \<longleftrightarrow> kind_size (fst a) \<le> POINTER_SIZE C \<and> fst a \<noteq> Float32 \<and> fst a \<noteq> Float64 \<and>
     4096 \<le> unat (snd a)"

definition to_val :: "arg \<Rightarrow> goany" where
  "to_val a = \<lparr>AnyType = Basic (fst a), AnyPtr = snd a\<rparr>"

definition to_var :: "arg \<Rightarrow> goany" where
  "to_var a = \<lparr>AnyType = Pointer (Basic (fst a)), AnyPtr = snd a\<rparr>"

definition arg_bytes :: "host \<Rightarrow> arg \<Rightarrow> byte list" where
  "arg_bytes h a = read_bytes (snd a) (kind_size (fst a)) (hbytes h)"

lemma length_arg_bytes [simp]: "length (arg_bytes h a) = kind_size (fst a)"
  by (simp add: arg_bytes_def)

lemma kind_size_pos: "0 < kind_size k"
  by (cases k) simp_all

text \<open>The state of the stream once the arguments \<open>ds\<close> are through it.\<close>

definition passed :: "regconf \<Rightarrow> byte list list \<Rightarrow> rstream \<Rightarrow> bool" where
  "passed C ds rs \<longleftrightarrow> groff rs = int (POINTER_SIZE C * min (length ds) (ARG_REG_COUNT C)) \<and>
     stoff rs = int (length (stk (drop (ARG_REG_COUNT C) ds)))"

definition in_regs :: "regconf \<Rightarrow> byte list list \<Rightarrow> (nat \<Rightarrow> byte list) \<Rightarrow> bool" where
  "in_regs C ds r \<longleftrightarrow>
     (\<forall>j < length ds. j < ARG_REG_COUNT C \<longrightarrow> take (length (ds ! j)) (r j) = ds ! j)"

lemma passed_reg: "passed C ds rs \<Longrightarrow> length ds < ARG_REG_COUNT C \<Longrightarrow>
    groff rs = int (POINTER_SIZE C * length ds) \<and> stoff rs = 0"
  by (simp add: passed_def)

lemma passed_stack: "passed C ds rs \<Longrightarrow> \<not> length ds < ARG_REG_COUNT C \<Longrightarrow>
    groff rs = rs_limit C \<and> stoff rs = int (length (stk (drop (ARG_REG_COUNT C) ds)))"
  by (simp add: passed_def rs_limit_def min_absorb2 mult.commute)

text \<open>Aligning after an argument of \<open>n\<close> bytes brings the stream to the next one.\<close>

lemma passed_align_reg:
  assumes "conf_ok C" and "passed C ds rs" and "length ds < ARG_REG_COUNT C"
    and "0 < length b" and "length b \<le> POINTER_SIZE C"
  shows "passed C (ds @ [b]) (rs_Align C (rs\<lparr>rvalue := x, groff := groff rs + int (length b)\<rparr>))"
proof -
  have "Align (int (POINTER_SIZE C * length ds + length b)) (int (POINTER_SIZE C)) =
      int (POINTER_SIZE C * Suc (length ds))"
    using Align_ptr [OF assms(1,5), of "length ds"] assms(4) by (simp add: distrib_left)
  moreover have "Align (0 :: int) 4 = 0" using Align_up4 [of 0] by (simp add: up4_def)
  ultimately show ?thesis
    using passed_reg [OF assms(2,3)] assms(3) by (simp add: passed_def rs_Align_def distrib_left)
qed

lemma passed_align_stack:
  assumes "conf_ok C" and "passed C ds rs" and "\<not> length ds < ARG_REG_COUNT C"
  shows "passed C (ds @ [b]) (rs_Align C (rs\<lparr>stack := d, stoff := stoff rs + int (length b)\<rparr>))"
proof -
  let ?k = "length (stk (drop (ARG_REG_COUNT C) ds))"
  note p = passed_stack [OF assms(2,3)]
  have "Align (int ?k + int (length b)) 4 = int (?k + up4 (length b))"
    using Align_up4 [of "?k + length b"] up4_add [OF stk_dvd, of "drop (ARG_REG_COUNT C) ds" "length b"] by simp
  moreover have "Align (rs_limit C) (int (POINTER_SIZE C)) = rs_limit C"
    using Align_ptr [OF assms(1), of 0 "ARG_REG_COUNT C"] by (simp add: rs_limit_def mult.commute)
  ultimately show ?thesis
    using p assms(3) by (simp add: passed_def rs_Align_def length_pad4 min_absorb2 rs_limit_def mult.commute)
qed

lemma in_regs_snoc:
  assumes "in_regs C ds r" and "length ds < ARG_REG_COUNT C" and "take (length b) x = b"
  shows "in_regs C (ds @ [b]) (r(length ds := x))"
  using assms by (auto simp: in_regs_def nth_append less_Suc_eq)

lemma in_regs_stack: "in_regs C ds r \<Longrightarrow> \<not> length ds < ARG_REG_COUNT C \<Longrightarrow> in_regs C (ds @ [b]) r"
  by (auto simp: in_regs_def nth_append)

end
