(* ===== verification/CallProps.thy ===== *)
theory CallProps
  imports ArgRegs
begin

text \<open>
  The properties of the calling conventions: integer arguments written by \<^verbatim>\<open>ArgWrite\<close> are the ones
  \<^verbatim>\<open>Args\<close> and \<^verbatim>\<open>Extract\<close> read, in registers and on the stack; and where the register streams fail.
\<close>

section \<open>One argument\<close>

definition rstate :: "rstream \<Rightarrow> 'v \<Rightarrow> host \<Rightarrow> (stream \<times> 'v) \<times> host" where
  "rstate rs v h = ((RegS rs, v), h)"

lemma host_reg_read: "4096 \<le> unat p \<Longrightarrow> hread p n (rstate rs v h) = Ret (Inr (read_bytes p n (hbytes h))) (rstate rs v h)"
  by (simp add: rstate_def run_hread not_nil_def)

lemma Encode_basic:
  assumes "encode (streams C X) (POINTER_SIZE C) (Basic k) = Inr (m, n)" and "p \<noteq> 0"
  shows "Encode (streams C X) (to_val (k, p)) (rstate rs v h) = m p (rstate rs v h)"
  using assms by (auto simp: Encode_def to_val_def seq_def get_def rstate_def streams_def is_pointer_def
      one_pointer_def simp del: encode.simps)

lemma Decode_basic:
  assumes "decode (streams C X) False (POINTER_SIZE C) (Basic k) = Inr (m, n)" and "p \<noteq> 0"
  shows "Decode (streams C X) (to_var (k, p)) (rstate rs v h) = m p (rstate rs v h)"
  using assms by (auto simp: Decode_def to_var_def seq_def get_def rstate_def streams_def simp del: decode.simps)

lemma Encode_int:
  assumes "int_arg C a" and "conf_ok C"
  shows "Encode (streams C X) (to_val a) (rstate rs v h) =
    on_fst (SWrite (streams C X) (arg_bytes h a)) (rstate rs v h)"
proof -
  obtain k p where a: "a = (k, p)" by (cases a)
  have k: "kind_size k \<le> POINTER_SIZE C" "k \<noteq> Float32" "k \<noteq> Float64" and p: "4096 \<le> unat p"
    using assms(1) by (simp_all add: a int_arg_def)
  then have p0: "p \<noteq> 0" by auto
  have "enc_word (streams C X) (kind_size k) (POINTER_SIZE C) = enc_raw (streams C X) (kind_size k)"
    if "word_kind k"
    using k(1) assms(2) word_kind_size [OF that] by (auto simp: enc_word_def fun_eq_iff conf_ok_def)
  then have "\<exists>n. encode (streams C X) (POINTER_SIZE C) (Basic k) = Inr (enc_raw (streams C X) (kind_size k), n)"
    using k by simp
  then have "Encode (streams C X) (to_val a) (rstate rs v h) = enc_raw (streams C X) (kind_size k) p (rstate rs v h)"
    using Encode_basic [of C X k] p0 a by metis
  also have "\<dots> = on_fst (SWrite (streams C X) (arg_bytes h a)) (rstate rs v h)"
    unfolding enc_raw_def by (subst attempt_run, rule host_reg_read [OF p]) (simp add: arg_bytes_def a)
  finally show ?thesis .
qed

lemma Decode_int:
  assumes "int_arg C a" and "conf_ok C"
  shows "Decode (streams C X) (to_var a) (rstate rs v h) =
    seq (on_fst (SRead (streams C X) (kind_size (fst a)))) (\<lambda>(bs, err).
      attempt (hwrite (snd a) bs) (\<lambda>_. ret (result err))) (rstate rs v h)"
proof -
  obtain k p where a: "a = (k, p)" by (cases a)
  have k: "kind_size k \<le> POINTER_SIZE C" "k \<noteq> Float32" "k \<noteq> Float64" and p: "4096 \<le> unat p"
    using assms(1) by (simp_all add: a int_arg_def)
  then have p0: "p \<noteq> 0" by auto
  have "dec_word (streams C X) (kind_size k) (POINTER_SIZE C) = dec_raw (streams C X) (kind_size k)"
    if "word_kind k"
    using k(1) assms(2) word_kind_size [OF that] by (auto simp: dec_word_def fun_eq_iff conf_ok_def)
  then have "\<exists>n. decode (streams C X) False (POINTER_SIZE C) (Basic k) = Inr (dec_raw (streams C X) (kind_size k), n)"
    using k by simp
  then have "Decode (streams C X) (to_var a) (rstate rs v h) = dec_raw (streams C X) (kind_size k) p (rstate rs v h)"
    using Decode_basic [of C X k] p0 a by metis
  also have "\<dots> = seq (on_fst (SRead (streams C X) (kind_size (fst a)))) (\<lambda>(bs, err).
      attempt (hwrite (snd a) bs) (\<lambda>_. ret (result err))) (rstate rs v h)"
    using p by (simp add: dec_raw_def hguard_def a)
  finally show ?thesis .
qed

lemma on_fst_reg:
  "on_fst (SWrite (streams C X) b) (rstate rs v h) =
     (case rs_Write C X b (rs, v) of
        Ret r (rs', v') \<Rightarrow> Ret r (rstate rs' v' h) | Panic c (rs', v') \<Rightarrow> Panic c (rstate rs' v' h))"
  "on_fst (SRead (streams C X) n) (rstate rs v h) =
     (case rs_Read C X n (rs, v) of
        Ret r (rs', v') \<Rightarrow> Ret r (rstate rs' v' h) | Panic c (rs', v') \<Rightarrow> Panic c (rstate rs' v' h))"
  by (auto simp: on_fst_def rstate_def streams_def by_kind_def wrap_def split: outcome.splits)

lemma align_run: "align_args C (rstate rs v h) = Ret (Inr ()) (rstate (rs_Align C rs) v h)"
  by (simp add: align_args_def update_def rstate_def)

section \<open>Writing\<close>

text \<open>The stream while arguments are written: where it stands, and what it has put where.\<close>

definition writing :: "regconf \<Rightarrow> byte list list \<Rightarrow> (nat \<Rightarrow> byte list) \<Rightarrow> rstream \<Rightarrow> bool" where
  "writing C ds r rs \<longleftrightarrow> passed C ds rs \<and> in_regs C ds r \<and>
     stack rs = BufStack (buf_of (drop (ARG_REG_COUNT C) ds))"

lemma drop_snoc: "drop k (ds @ [b]) = (if length ds < k then [] else drop k ds @ [b])"
  by simp

lemma write_one:
  assumes "reg_file C SP X rg sp" and "conf_ok C" and "int_arg C a" and "writing C ds (rg v) rs"
  shows "\<exists>rs' v'. attempt (Encode (streams C X) (to_val a)) (\<lambda>_. align_args C) (rstate rs v h) =
      Ret (Inr ()) (rstate rs' v' h) \<and> writing C (ds @ [arg_bytes h a]) (rg v') rs' \<and> sp v' = sp v"
proof -
  let ?b = "arg_bytes h a"
  let ?A = "ARG_REG_COUNT C"
  from assms(3) have b: "0 < length ?b" "length ?b \<le> POINTER_SIZE C"
    by (simp_all add: int_arg_def kind_size_pos)
  have P8: "POINTER_SIZE C \<le> 8" using assms(2) by (auto simp: conf_ok_def)
  from assms(4) have w: "passed C ds rs" "in_regs C ds (rg v)" "stack rs = BufStack (buf_of (drop ?A ds))"
    by (simp_all add: writing_def)
  have "\<exists>rs1 v'. rs_Write C X ?b (rs, v) = Ret (Inr ()) (rs1, v') \<and>
      writing C (ds @ [?b]) (rg v') (rs_Align C rs1) \<and> sp v' = sp v"
  proof (cases "length ds < ?A")
    case True
    let ?x = "put_bytes 0 ?b (rvalue rs)"
    obtain v' where v': "CRegWrite X (GpReg C + int (length ds)) ?x v = (None, v')"
        "rg v' = (rg v)(length ds := le_bytes (POINTER_SIZE C) ?x)" "sp v' = sp v"
      using reg_fileD(1) [OF assms(1) True] by blast
    have "in_regs C (ds @ [?b]) (rg v')"
      unfolding v'(2) using b P8 by (intro in_regs_snoc w True put_bytes_take)
    with write_reg [OF assms(2) True _ b(1) _ v'(1)] passed_align_reg [OF assms(2) w(1) True b]
      passed_reg [OF w(1) True] b(2) P8 v'(3) w(3) True
    show ?thesis by (simp add: writing_def rs_Align_def)
  next
    case False
    note p = passed_stack [OF w(1) False]
    have "rs_Write C X ?b (rs, v) = Ret (Inr ())
        (rs\<lparr>stack := BufStack (buf_of (drop ?A (ds @ [?b]))), stoff := stoff rs + int (length ?b)\<rparr>, v)"
      using p w(3) False
      by (simp add: rs_Write_def rs_write_tail_def rs_stack_write_def buf_write drop_snoc go_defs result_def)
    with passed_align_stack [OF assms(2) w(1) False, of ?b "BufStack (buf_of (drop ?A (ds @ [?b])))"]
      in_regs_stack [OF w(2) False, of ?b]
    show ?thesis by (simp add: writing_def rs_Align_def)
  qed
  then obtain rs1 v' where r: "rs_Write C X ?b (rs, v) = Ret (Inr ()) (rs1, v')"
      "writing C (ds @ [?b]) (rg v') (rs_Align C rs1)" "sp v' = sp v" by blast
  have "Encode (streams C X) (to_val a) (rstate rs v h) = Ret (Inr ()) (rstate rs1 v' h)"
    using r(1) by (simp add: Encode_int [OF assms(3,2)] on_fst_reg)
  with r(2,3) show ?thesis by (auto simp: attempt_run align_run)
qed

lemma write_all:
  assumes "reg_file C SP X rg sp" and "conf_ok C" and "list_all (int_arg C) args" and "writing C ds (rg v) rs"
  shows "\<exists>rs' v'. write_args C X (map to_val args) (rstate rs v h) = Ret (Inr ()) (rstate rs' v' h) \<and>
      writing C (ds @ map (arg_bytes h) args) (rg v') rs' \<and> sp v' = sp v"
  using assms(3,4)
proof (induction args arbitrary: ds rs v)
  case Nil then show ?case by (auto simp: write_args_def ret_def)
next
  case (Cons a args)
  then have a: "int_arg C a" "list_all (int_arg C) args" by simp_all
  obtain rs1 v1 where one: "attempt (Encode (streams C X) (to_val a)) (\<lambda>_. align_args C) (rstate rs v h) =
        Ret (Inr ()) (rstate rs1 v1 h)" "writing C (ds @ [arg_bytes h a]) (rg v1) rs1" "sp v1 = sp v"
    using write_one [OF assms(1,2) a(1) Cons.prems(2)] by blast
  obtain rs' v' where "write_args C X (map to_val args) (rstate rs1 v1 h) = Ret (Inr ()) (rstate rs' v' h)"
      "writing C ((ds @ [arg_bytes h a]) @ map (arg_bytes h) args) (rg v') rs'" "sp v' = sp v1"
    using Cons.IH [OF a(2) one(2)] by blast
  with one show ?case by (auto simp: write_args_def attempt_run)
qed

section \<open>Reading\<close>

text \<open>
  The stream while they are read back: the registers hold the arguments, and the memory at the stack
  pointer holds those that did not fit.
\<close>

definition reading_from :: "regconf \<Rightarrow> 'v ctx \<Rightarrow> byte list list \<Rightarrow> byte list list \<Rightarrow> u64 \<Rightarrow> 'v \<Rightarrow> (nat \<Rightarrow> byte list) \<Rightarrow> rstream \<Rightarrow> bool" where
  "reading_from C X all ds a v r rs \<longleftrightarrow> passed C ds rs \<and> in_regs C all r \<and> stack rs = MemStack a \<and>
     (\<forall>xs b ys. drop (ARG_REG_COUNT C) all = xs @ b # ys \<longrightarrow>
        CMemRead X (a + of_nat (length (stk xs))) (of_nat (length b)) v = Inr b)"

lemma read_one:
  assumes "reg_file C SP X rg sp" and "conf_ok C" and "int_arg C q" and "all = ds @ b # rest"
    and "kind_size (fst q) = length b" and "reading_from C X all ds a v (rg v) rs"
  shows "\<exists>rs'. attempt (Decode (streams C X) (to_var q)) (\<lambda>_. align_args C) (rstate rs v h) =
      Ret (Inr ()) (rstate rs' v (h\<lparr>hbytes := write_bytes (snd q) b (hbytes h)\<rparr>)) \<and>
      reading_from C X all (ds @ [b]) a v (rg v) rs'"
proof -
  let ?A = "ARG_REG_COUNT C"
  from assms(3,5) have b: "0 < length b" "length b \<le> POINTER_SIZE C" and q: "4096 \<le> unat (snd q)"
    using kind_size_pos [of "fst q"] by (simp_all add: int_arg_def)
  have P8: "POINTER_SIZE C \<le> 8" using assms(2) by (auto simp: conf_ok_def)
  from assms(6) have w: "passed C ds rs" "in_regs C all (rg v)" "stack rs = MemStack a"
    and m: "\<And>xs b ys. drop ?A all = xs @ b # ys \<Longrightarrow>
      CMemRead X (a + of_nat (length (stk xs))) (of_nat (length b)) v = Inr b"
    by (simp_all add: reading_from_def)
  have "\<exists>rs1. rs_Read C X (length b) (rs, v) = Ret (b, None) (rs1, v) \<and> stack rs1 = MemStack a \<and>
      passed C (ds @ [b]) (rs_Align C rs1)"
  proof (cases "length ds < ?A")
    case True
    obtain x where x: "CRegRead X (GpReg C + int (length ds)) v = Inr x"
        "le_bytes (POINTER_SIZE C) x = rg v (length ds)"
      using reg_fileD(2) [OF assms(1) True] by blast
    have "take (length b) (rg v (length ds)) = b"
      using w(2) True by (auto simp: in_regs_def assms(4) dest: spec [of _ "length ds"])
    then have "le_bytes (length b) x = b"
      using le_bytes_take [OF b(2), of x] x(2) by simp
    with read_reg [OF assms(2) True _ b(1) _ x(1)] passed_align_reg [OF assms(2) w(1) True b]
      passed_reg [OF w(1) True] b(2) P8 w(3)
    show ?thesis by simp
  next
    case False
    note p = passed_stack [OF w(1) False]
    have "drop ?A all = drop ?A ds @ b # rest" using False by (simp add: assms(4))
    from m [OF this] p w(3)
    have "rs_Read C X (length b) (rs, v) = Ret (b, None) (rs\<lparr>stack := MemStack a, stoff := stoff rs + int (length b)\<rparr>, v)"
      by (simp add: rs_Read_def rs_read_tail_def rs_stack_read_def ptr_ReadAt_def go_defs)
    with passed_align_stack [OF assms(2) w(1) False, of b "MemStack a"] show ?thesis by simp
  qed
  then obtain rs1 where r: "rs_Read C X (length b) (rs, v) = Ret (b, None) (rs1, v)"
      "stack rs1 = MemStack a" "passed C (ds @ [b]) (rs_Align C rs1)" by blast
  have "hwrite (snd q) b (rstate rs1 v h) =
      Ret (Inr ()) (rstate rs1 v (h\<lparr>hbytes := write_bytes (snd q) b (hbytes h)\<rparr>))"
    using q by (simp add: rstate_def run_hwrite not_nil_def)
  then have "Decode (streams C X) (to_var q) (rstate rs v h) =
      Ret (Inr ()) (rstate rs1 v (h\<lparr>hbytes := write_bytes (snd q) b (hbytes h)\<rparr>))"
    using r(1) by (simp add: Decode_int [OF assms(3,2)] assms(5) seq_def on_fst_reg attempt_def ret_def result_def)
  with r(2,3) w(2) m show ?thesis
    by (auto simp: attempt_run align_run reading_from_def rs_Align_def)
qed

definition store_all :: "arg list \<Rightarrow> byte list list \<Rightarrow> host \<Rightarrow> host" where
  "store_all qs bs h = h\<lparr>hbytes := fold (\<lambda>(q, b). write_bytes (snd q) b) (zip qs bs) (hbytes h)\<rparr>"

lemma read_all:
  assumes "reg_file C SP X rg sp" and "conf_ok C" and "list_all (int_arg C) qs"
    and "map (\<lambda>q. kind_size (fst q)) qs = map length bs" and "all = ds @ bs"
    and "reading_from C X all ds a v (rg v) rs"
  shows "\<exists>rs'. Extract C X (map to_var qs) (rstate rs v h) = Ret (Inr ()) (rstate rs' v (store_all qs bs h))"
  using assms(3-6)
proof (induction qs arbitrary: bs ds rs h)
  case Nil then show ?case by (auto simp: Extract_def ret_def store_all_def)
next
  case (Cons q qs)
  then obtain b cs where bs: "bs = b # cs" "kind_size (fst q) = length b"
      "map (\<lambda>q. kind_size (fst q)) qs = map length cs" by auto
  from Cons.prems have q: "int_arg C q" "list_all (int_arg C) qs" by simp_all
  have all: "all = ds @ b # cs" "all = (ds @ [b]) @ cs" using Cons.prems(3) bs by simp_all
  let ?h = "h\<lparr>hbytes := write_bytes (snd q) b (hbytes h)\<rparr>"
  obtain rs1 where one: "attempt (Decode (streams C X) (to_var q)) (\<lambda>_. align_args C) (rstate rs v h) =
        Ret (Inr ()) (rstate rs1 v ?h)" "reading_from C X all (ds @ [b]) a v (rg v) rs1"
    using read_one [OF assms(1,2) q(1) all(1) bs(2) Cons.prems(4)] by blast
  obtain rs' where "Extract C X (map to_var qs) (rstate rs1 v ?h) =
      Ret (Inr ()) (rstate rs' v (store_all qs cs ?h))"
    using Cons.IH [OF q(2) bs(3) all(2) one(2)] by blast
  with one(1) show ?case by (auto simp: Extract_def attempt_run store_all_def bs)
qed

section \<open>The round trip\<close>

text \<open>There is room for \<open>n\<close> bytes below the stack pointer.\<close>

definition stack_room :: "dbg_arch \<Rightarrow> regconf \<Rightarrow> u64 \<Rightarrow> nat set \<Rightarrow> nat \<Rightarrow> bool" where
  "stack_room D C t R n \<longleftrightarrow> (let N = Align (of_nat n) (DStackAlign D) in
     n \<le> unat N \<and> unat N \<le> unat t \<and> unat t < 256 ^ POINTER_SIZE C \<and> area (t - N) n \<subseteq> R)"

definition stack_bytes :: "regconf \<Rightarrow> host \<Rightarrow> arg list \<Rightarrow> nat" where
  "stack_bytes C h args = length (stk (drop (ARG_REG_COUNT C) (map (arg_bytes h) args)))"

lemma stk_Nil: "length (stk ds) = 0 \<Longrightarrow> list_all (\<lambda>b. b \<noteq> []) ds \<Longrightarrow> ds = []"
  by (cases ds) (auto simp: pad4_def)

lemma start_reading:
  assumes "guest_mem X mem R" and "in_regs C bs r" and "unat a + length (stk (drop (ARG_REG_COUNT C) bs)) < 2 ^ 64"
    and "area a (length (stk (drop (ARG_REG_COUNT C) bs))) \<subseteq> R"
    and "mem v = write_bytes a (buf_of (drop (ARG_REG_COUNT C) bs)) m"
  shows "reading_from C X bs [] a v r (new_rstream (MemStack a))"
proof -
  let ?ds = "drop (ARG_REG_COUNT C) bs"
  have "CMemRead X (a + of_nat (length (stk xs))) (of_nat (length b)) v = Inr b"
    if e: "?ds = xs @ b # ys" for xs b ys
  proof -
    let ?k = "length (stk xs)"
    have buf: "?k + length b \<le> length (buf_of ?ds)" "length (buf_of ?ds) \<le> length (stk ?ds)"
      using buf_at_length [of xs b ys] length_buf [of ?ds] by (simp_all add: e)
    have u: "unat (a + of_nat ?k) = unat a + ?k" "unat (of_nat (length b) :: u64) = length b"
      using unat_le_add [of a ?k] unat_le_add [of 0 "length b"] buf assms(3) by auto
    have "area (a + of_nat ?k) (unat (of_nat (length b) :: u64)) \<subseteq> R"
      using assms(4) buf u by (auto simp: area_def)
    from guest_read [OF assms(1) this, of v]
    have "CMemRead X (a + of_nat ?k) (of_nat (length b)) v = Inr (read_bytes (a + of_nat ?k) (length b) (mem v))"
      by (simp only: u)
    also have "read_bytes (a + of_nat ?k) (length b) (mem v) = b"
      unfolding assms(5) using read_written [of a "buf_of ?ds" ?k "length b" m] buf assms(3) buf_at [of b xs ys]
      by (simp add: e)
    finally show ?thesis .
  qed
  then show ?thesis
    using assms(2) by (simp add: reading_from_def passed_def new_rstream_def)
qed

text \<open>Everything \<^verbatim>\<open>ArgWrite\<close> leaves behind.\<close>

lemma ArgWrite_ok:
  assumes "reg_file C (DSP D) X rg sp" and "conf_ok C" and "guest_mem X mem R"
    and "CAlloc X = StackAlloc D (CRegRead X) (CRegWrite X)" and "supported c"
    and "list_all (int_arg C) args" and "stack_room D C (sp v) R (stack_bytes C h args)"
  shows "\<exists>v'. ArgWrite C X c (map to_val args) (v, h) = Ret (Inr ()) (v', h) \<and>
    reading_from C X (map (arg_bytes h) args) [] (sp v') v' (rg v') (new_rstream (MemStack (sp v')))"
proof -
  let ?bs = "map (arg_bytes h) args"
  let ?ds = "drop (ARG_REG_COUNT C) ?bs"
  let ?n = "length (stk ?ds)"
  let ?N = "Align (of_nat ?n) (DStackAlign D)"
  from assms(7) have room: "?n \<le> unat ?N" "unat ?N \<le> unat (sp v)" "unat (sp v) < 256 ^ POINTER_SIZE C"
      "area (sp v - ?N) ?n \<subseteq> R"
    unfolding stack_room_def stack_bytes_def Let_def by blast+
  have "writing C [] (rg v) (new_rstream (BufStack []))"
    by (simp add: writing_def passed_def in_regs_def new_rstream_def buf_of_def)
  from write_all [OF assms(1,2,6) this, of h]
  obtain rs v1 where w: "write_args C X (map to_val args) (rstate (new_rstream (BufStack [])) v h) =
        Ret (Inr ()) (rstate rs v1 h)" "writing C ?bs (rg v1) rs" "sp v1 = sp v"
    by auto
  from w(2) have rs: "stack rs = BufStack (buf_of ?ds)" "stoff rs = int ?n" and regs: "in_regs C ?bs (rg v1)"
    by (simp_all add: writing_def passed_def)
  have run: "with_stream (RegS (new_rstream (BufStack []))) (write_args C X (map to_val args)) (v, h) =
      Ret (Inr (), RegS rs) (v1, h)"
    using w(1) by (simp add: with_stream_def rstate_def)
  show ?thesis
  proof (cases "?n = 0")
    case True
    have "list_all (\<lambda>b. b \<noteq> []) ?ds"
      unfolding list_all_iff
    proof
      fix b assume "b \<in> set ?ds"
      then have "b \<in> set ?bs" by (rule in_set_dropD)
      then obtain x where "b = arg_bytes h x" by auto
      then have "0 < length b" using kind_size_pos by simp
      then show "b \<noteq> []" by auto
    qed
    with True have d: "?ds = []" by (rule stk_Nil)
    have "ArgWrite C X c (map to_val args) (v, h) = Ret (Inr ()) (v1, h)"
      using assms(5) rs d by (simp add: ArgWrite_def seq_def run stream_buf_def ret_def buf_of_def)
    moreover have "reading_from C X ?bs [] (sp v1) v1 (rg v1) (new_rstream (MemStack (sp v1)))"
      using regs d by (simp add: reading_from_def passed_def new_rstream_def)
    ultimately show ?thesis by blast
  next
    case False
    let ?a = "sp v - ?N"
    have a: "unat ?a = unat (sp v) - unat ?N" using room(2) by (rule unat_sub_nowrap)
    with room(3) obtain v2 where v2: "CRegWrite X (DSP D) ?a v1 = (None, v2)" "rg v2 = rg v1" "sp v2 = ?a"
      using reg_fileD(4) [OF assms(1), of ?a v1] by auto
    have "unat (sp v) < 2 ^ 64" using unsigned_less [of "sp v"] by simp
    with a room(1,2) have fit: "unat ?a + ?n < 2 ^ 64 \<or> unat ?a + ?n \<le> unat (sp v)" by linarith
    with \<open>unat (sp v) < 2 ^ 64\<close> have fit: "unat ?a + ?n < 2 ^ 64" by linarith
    have "area ?a (length (buf_of ?ds)) \<subseteq> R"
      using room(4) length_buf [of ?ds] by (auto simp: area_def)
    from guest_write [OF assms(3) this] obtain v3 where v3: "CMemWrite X ?a (buf_of ?ds) v2 = (None, v3)"
        "mem v3 = write_bytes ?a (buf_of ?ds) (mem v2)" by blast
    from reg_fileD(5) [OF assms(1) v3(1)] v2 have r3: "rg v3 = rg v1" "sp v3 = ?a" by simp_all
    have "CAlloc X (word_of_int (int ?n)) v1 = Ret (Inr ?a) v2"
      using reg_fileD(3) [OF assms(1), of v1] v2(1) w(3)
      by (simp add: assms(4) StackAlloc_def Let_def go_defs)
    then have "ArgWrite C X c (map to_val args) (v, h) = Ret (Inr ()) (v3, h)"
      using assms(5) rs False v3(1)
      by (simp add: ArgWrite_def seq_def run stream_buf_def ret_def attempt_def on_fst_def errable_def)
    moreover have "reading_from C X ?bs [] ?a v3 (rg v3) (new_rstream (MemStack ?a))"
      using start_reading [OF assms(3) _ fit room(4) v3(2)] regs r3 by simp
    ultimately show ?thesis using r3 by auto
  qed
qed

text \<open>C8: Arguments arrive. For any list of integer arguments, on ARM and on ARM64, whatever the number
  that goes into registers: \<^verbatim>\<open>ArgWrite\<close> succeeds when there is room below the stack pointer, and a
  callee that calls \<^verbatim>\<open>ArgExtract\<close> with variables of the same types gets in each exactly
  the bytes of the corresponding argument, and nothing else of the host's memory changes.\<close>

theorem args_roundtrip:
  assumes "reg_file C (DSP D) X rg sp" and "conf_ok C" and "guest_mem X mem R"
    and "CAlloc X = StackAlloc D (CRegRead X) (CRegWrite X)" and "supported c"
    and "list_all (int_arg C) args" and "list_all (int_arg C) vars" and "map fst vars = map fst args"
    and "stack_room D C (sp v) R (stack_bytes C h args)"
  shows "\<exists>v'. base_ArgWrite C X c (map to_val args) (v, h) = Ret (Inr ()) (v', h) \<and>
    base_ArgExtract D C X c (map to_var vars) (v', h1) =
      Ret (Inr ()) (v', store_all vars (map (arg_bytes h) args) h1)"
proof -
  obtain v' where v': "ArgWrite C X c (map to_val args) (v, h) = Ret (Inr ()) (v', h)"
      "reading_from C X (map (arg_bytes h) args) [] (sp v') v' (rg v') (new_rstream (MemStack (sp v')))"
    using ArgWrite_ok [OF assms(1-6,9)] by blast
  have "map kind_size (map fst vars) = map kind_size (map fst args)" using assms(8) by simp
  then have sizes: "map (\<lambda>q. kind_size (fst q)) vars = map length (map (arg_bytes h) args)"
    by (simp add: comp_def)
  obtain rs' where "Extract C X (map to_var vars) (rstate (new_rstream (MemStack (sp v'))) v' h1) =
      Ret (Inr ()) (rstate rs' v' (store_all vars (map (arg_bytes h) args) h1))"
    using read_all [OF assms(1,2,7) sizes _ v'(2)] by auto
  moreover have "Args D X c v' = Ret (Inr (RegS (new_rstream (MemStack (sp v'))))) v'"
    using assms(5) reg_fileD(3) [OF assms(1), of v'] by (simp add: Args_def go_defs)
  ultimately show ?thesis
    using v'(1) by (auto simp: rstate_def base_ArgWrite_def base_ArgExtract_def base_GetArgs_def with_stream_def
        attempt_def seq_def on_fst_def ret_def)
qed

text \<open>Ten arguments on the sample emulator: eight in registers, two on the stack.\<close>

definition ten_args :: "u64 \<Rightarrow> arg list" where
  "ten_args p = map (\<lambda>k. (Uint32, p + of_nat k * 8)) [0, 1, 2, 3, 4, 5, 6, 7, 8, 9]"

definition sp0 :: semu where
  "sp0 = semu0\<lparr>s_regs := [(ARM64_REG_SP, 0x800000)]\<rparr>"

lemma gm_get0_set: "gm_get0 (gm_set k x m) j = (if j = k then x else gm_get0 m j)"
  by (simp add: gm_get0_def gm.get_put)

lemma X0_regs: "reg_file arm64_conf (DSP Arm64Dbg) X0
    (\<lambda>e i. le_bytes 8 (gm_get0 (s_regs e) (ARM64_REG_X0 + int i))) (\<lambda>e. gm_get0 (s_regs e) ARM64_REG_SP)"
  unfolding reg_file_def
  by (auto simp: arm64_conf_def Arm64Dbg_def X0_def global_ctx_def sample_emu_def gm_get0_set
      ARM64_REG_X0 ARM64_REG_SP fun_eq_iff simp del: le_bytes.simps)

lemma args_roundtrip_witness:
  "\<exists>v'. base_ArgWrite arm64_conf X0 Calling_Default (map to_val (ten_args 0x10000)) (sp0, h0) = Ret (Inr ()) (v', h0) \<and>
    base_ArgExtract Arm64Dbg arm64_conf X0 Calling_Default (map to_var (ten_args 0x20000)) (v', h0) =
      Ret (Inr ()) (v', store_all (ten_args 0x20000) (map (arg_bytes h0) (ten_args 0x10000)) h0)"
proof -
  have "conf_ok arm64_conf" by (simp add: conf_ok_def arm64_conf_def)
  moreover have "CAlloc X0 = StackAlloc Arm64Dbg (CRegRead X0) (CRegWrite X0)"
    by (simp add: X0_def global_ctx_def)
  moreover have "supported Calling_Default" by (simp add: supported_def)
  moreover have "list_all (int_arg arm64_conf) (ten_args 0x10000)" "list_all (int_arg arm64_conf) (ten_args 0x20000)"
      "map fst (ten_args 0x20000) = map fst (ten_args 0x10000)"
    by (simp_all add: ten_args_def int_arg_def arm64_conf_def)
  moreover have "stack_bytes arm64_conf h0 (ten_args 0x10000) = 8"
    by (simp add: stack_bytes_def ten_args_def arm64_conf_def length_pad4 up4_def)
  then have "stack_room Arm64Dbg arm64_conf (gm_get0 (s_regs sp0) ARM64_REG_SP) UNIV
      (stack_bytes arm64_conf h0 (ten_args 0x10000))"
    by (simp add: stack_room_def sp0_def semu0_def arm64_conf_def Arm64Dbg_def Align_def Let_def gm_get0_def)
  ultimately show ?thesis
    using args_roundtrip [OF X0_regs _ X0_mem, of Calling_Default "ten_args 0x10000" "ten_args 0x20000" sp0 h0 h0]
    by blast
qed

section \<open>Where the register streams go wrong\<close>

text \<open>
  \<^verbatim>\<open>WriteDouble\<close> starts from the single-precision registers of ARM64, in both copies, and
  \<^verbatim>\<open>ReadDouble\<close> from the double-precision ones of its own architecture.
\<close>

lemma double_registers:
  "WdReg arm64_conf = ARM64_REG_S0" "DReg arm64_conf = ARM64_REG_D0" "ARM64_REG_S0 \<noteq> ARM64_REG_D0"
  "WdReg arm_conf = ARM64_REG_S0" "DReg arm_conf = ARM_REG_D0" "ARM64_REG_S0 \<noteq> ARM_REG_D0"
  by (simp_all add: arm64_conf_def arm_conf_def reg_values)

text \<open>Eight bytes of a number below \<open>2 ^ 32\<close>\<close>

lemma le_bytes_narrow: "unat w < 2 ^ 32 \<Longrightarrow> le_bytes 8 w = le_bytes 4 w @ [0, 0, 0, 0]"
proof -
  assume "unat w < 2 ^ 32"
  then have "drop_bit 32 (unat w) = 0" by (simp add: drop_bit_eq_div)
  then have "unat (drop_bit 32 w) = 0" by (simp only: unat_drop_bit_eq)
  then have "drop_bit 32 w = 0" by (simp only: unat_eq_0)
  moreover have "le_bytes 8 w = le_bytes 4 w @ le_bytes 4 (drop_bit 32 w)" by (simp add: eval_nat_numeral)
  moreover have "le_bytes 4 0 = [0, 0, 0, 0]" by (simp add: eval_nat_numeral)
  ultimately show ?thesis by simp
qed

text \<open>C34: On ARM, where a register keeps four bytes and reads as them, a 64-bit integer argument is
  written whole into one register: its low half arrives there, the position moves on by two
  registers, and the second one and the stack stay as they were, so that the upper half is nowhere.
  Decoding an argument at the same position gives the low half with zeros above it.\<close>

theorem arm_wide_argument:
  fixes h :: host
  assumes "reg_file arm_conf SP X rg sp"
    and "\<forall>v w. CRegRead X (ARM_REG_R0 + int i) v = Inr w \<longrightarrow> unat w < 2 ^ 32"
    and "k = Int64 \<or> k = Uint64" and "4096 \<le> unat p" and "4096 \<le> unat q"
    and "i < 4" and "groff rs = 4 * int i"
  defines "low \<equiv> take 4 (arg_bytes h (k, p))"
  shows "\<exists>rs1 v1 rs2.
    Encode (arm_streams X) (to_val (k, p)) (rstate rs v h) = Ret (Inr ()) (rstate rs1 v1 h) \<and>
    rg v1 = (rg v)(i := low) \<and> groff rs1 = 4 * int (i + 2) \<and> stack rs1 = stack rs \<and>
    Decode (arm_streams X) (to_var (k, q)) (rstate rs v1 h) =
      Ret (Inr ()) (rstate rs2 v1 (h\<lparr>hbytes := write_bytes q (low @ [0, 0, 0, 0]) (hbytes h)\<rparr>))"
proof -
  let ?S = "streams arm_conf X" and ?b = "arg_bytes h (k, p)"
  have c: "conf_ok arm_conf" "i < ARG_REG_COUNT arm_conf" "groff rs = int (POINTER_SIZE arm_conf * i)"
    and g: "GpReg arm_conf = ARM_REG_R0" and P: "POINTER_SIZE arm_conf = 4"
    using assms(6,7) by (simp_all add: conf_ok_def arm_conf_def)
  have k: "kind_size k = 8" "\<not> word_kind k" using assms(3) by (auto simp: word_kind_def)
  have nz: "p \<noteq> 0" "q \<noteq> 0" using assms(4,5) by auto
  let ?x = "put_bytes 0 ?b (rvalue rs)"
  obtain v1 where v1: "CRegWrite X (GpReg arm_conf + int i) ?x v = (None, v1)"
      "rg v1 = (rg v)(i := le_bytes 4 ?x)"
    using reg_fileD(1) [OF assms(1) c(2)] P by metis
  have lb: "length ?b = 8" using k by simp
  have low: "le_bytes 4 ?x = low"
  proof -
    have "le_bytes 4 ?x = take 4 (le_bytes 8 ?x)" by (simp add: le_bytes_take)
    with put_bytes_take [of ?b 8 "rvalue rs"] lb show ?thesis by (simp add: low_def)
  qed
  obtain w where w: "CRegRead X (GpReg arm_conf + int i) v1 = Inr w" "le_bytes 4 w = low"
    using reg_fileD(2) [OF assms(1) c(2), of v1] v1(2) low P by auto
  have w8: "le_bytes 8 w = low @ [0, 0, 0, 0]"
    using le_bytes_narrow assms(2) w g by metis
  let ?rs1 = "rs\<lparr>rvalue := ?x, groff := groff rs + 8\<rparr>"
  have "\<exists>n. encode ?S 4 (Basic k) = Inr (enc_raw ?S 8, n)"
    using assms(3) k by auto
  then have "Encode ?S (to_val (k, p)) (rstate rs v h) = enc_raw ?S 8 p (rstate rs v h)"
    using Encode_basic [of arm_conf X k] nz P by metis
  also have "\<dots> = on_fst (SWrite ?S ?b) (rstate rs v h)"
    unfolding enc_raw_def by (subst attempt_run, rule host_reg_read [OF assms(4)]) (simp add: arg_bytes_def k)
  also have "\<dots> = Ret (Inr ()) (rstate ?rs1 v1 h)"
    using write_reg [OF c _ _ v1(1)] lb by (simp add: on_fst_reg)
  finally have e: "Encode ?S (to_val (k, p)) (rstate rs v h) = Ret (Inr ()) (rstate ?rs1 v1 h)" .
  let ?rs2 = "rs\<lparr>rvalue := w, groff := groff rs + 8\<rparr>"
  have "\<exists>n. decode ?S False 4 (Basic k) = Inr (dec_raw ?S 8, n)"
    using assms(3) k by auto
  then have "Decode ?S (to_var (k, q)) (rstate rs v1 h) = dec_raw ?S 8 q (rstate rs v1 h)"
    using Decode_basic [of arm_conf X k] nz P by metis
  also have "\<dots> = seq (on_fst (SRead ?S 8)) (\<lambda>(bs, err). attempt (hwrite q bs) (\<lambda>_. ret (result err))) (rstate rs v1 h)"
    using assms(5) by (simp add: dec_raw_def hguard_def)
  also have "\<dots> = attempt (hwrite q (low @ [0, 0, 0, 0])) (\<lambda>_. ret (Inr ())) (rstate ?rs2 v1 h)"
    using read_reg [OF c _ _ w(1), of 8] by (simp add: seq_def on_fst_reg w8 result_def)
  also have "\<dots> = Ret (Inr ()) (rstate ?rs2 v1 (h\<lparr>hbytes := write_bytes q (low @ [0, 0, 0, 0]) (hbytes h)\<rparr>))"
    using run_hwrite [of q "low @ [0, 0, 0, 0]"] assms(5) by (simp add: rstate_def not_nil_def)
  finally show ?thesis
    using e v1(2) low assms(7) by (auto simp: arm_streams_def intro!: exI [of _ v1])
qed

text \<open>An emulator with 32-bit registers\<close>

definition narrow_emu :: "semu emulator" where
  "narrow_emu = (sample_emu ARCH_ARM)
     \<lparr>EmuRegRead := (\<lambda>r e. Inr (take_bit 32 (gm_get0 (s_regs e) r)))\<rparr>"

definition X32 :: "semu ctx" where
  "X32 = global_ctx ArmDbg narrow_emu"

lemma X32_regs: "reg_file arm_conf (DSP ArmDbg) X32
    (\<lambda>e i. le_bytes 4 (gm_get0 (s_regs e) (ARM_REG_R0 + int i)))
    (\<lambda>e. take_bit 32 (gm_get0 (s_regs e) (DSP ArmDbg)))"
proof -
  have t: "take_bit 32 x = x" if "unat x < 2 ^ 32" for x :: u64
    using that by (simp add: word_unat_eq_iff unsigned_take_bit_eq take_bit_nat_eq_self)
  have l: "le_bytes 4 (take_bit 32 x) = le_bytes 4 x" for x :: u64
    by (simp add: eval_nat_numeral) (auto intro!: bit_eqI simp: bit_simps)
  show ?thesis
    unfolding reg_file_def
    by (auto simp: arm_conf_def ArmDbg_def X32_def narrow_emu_def global_ctx_def sample_emu_def gm_get0_set
        ARM_REG_R0 ARM_REG_SP fun_eq_iff l t simp del: le_bytes.simps)
qed

lemma arm_wide_argument_witness:
  "\<exists>rs1 v1 rs2. Encode (arm_streams X32) (to_val (Uint64, 0x10000)) (rstate (new_rstream NoStack) semu0 (h0\<lparr>hbytes := \<lambda>_. 7\<rparr>)) =
     Ret (Inr ()) (rstate rs1 v1 (h0\<lparr>hbytes := \<lambda>_. 7\<rparr>)) \<and>
   Decode (arm_streams X32) (to_var (Uint64, 0x20000)) (rstate (new_rstream NoStack) v1 (h0\<lparr>hbytes := \<lambda>_. 7\<rparr>)) =
     Ret (Inr ()) (rstate rs2 v1 (h0\<lparr>hbytes := write_bytes 0x20000 [7, 7, 7, 7, 0, 0, 0, 0] (\<lambda>_. 7)\<rparr>))"
proof -
  have "\<forall>v w. CRegRead X32 (ARM_REG_R0 + int 0) v = Inr w \<longrightarrow> unat w < 2 ^ 32"
    using take_bit_nat_less_exp [of 32] by (auto simp: X32_def narrow_emu_def global_ctx_def unsigned_take_bit_eq)
  note wide = arm_wide_argument [where i = 0, OF X32_regs this, where k = Uint64 and p = "0x10000" and q = "0x20000" and
      rs = "new_rstream NoStack" and h = "h0\<lparr>hbytes := \<lambda>_. 7\<rparr>" and v = semu0]
  have "read_bytes p n (\<lambda>_. 7) = replicate n 7" for p n by (induction n arbitrary: p) simp_all
  then have low: "take 4 (arg_bytes (h0\<lparr>hbytes := \<lambda>_. 7\<rparr>) (Uint64, 0x10000)) = [7, 7, 7, 7]"
    by (simp add: arg_bytes_def) (simp add: eval_nat_numeral)
  have "(4096 :: nat) \<le> unat (0x10000 :: u64)" "(4096 :: nat) \<le> unat (0x20000 :: u64)"
    "groff (new_rstream NoStack) = 4 * int 0" by (simp_all add: new_rstream_def)
  from wide [OF _ this(1,2) _ this(3), unfolded low] show ?thesis by auto
qed

end
