(* ===== verification/Task.thy ===== *)
theory Task
  imports Context Hooks
begin

text \<open>
  Tasks: the runner of \<^verbatim>\<open>internal/debugger/runner.go\<close>, the main task of \<^verbatim>\<open>internal/debugger/main.go\<close> and
  the pool of task contexts of \<^verbatim>\<open>internal/debugger/task.go\<close>, as functions on their states. The saved
  registers of a task are an emulator context, an object of the emulator: a parameter. How the
  goroutines around them interact is in the theory \<open>TaskSteps\<close>.
\<close>

section \<open>Emulator contexts\<close>

record ('c, 'e) ctx_ops =
  XAlloc :: "'e \<Rightarrow> 'c res"
  XSave :: "'c \<Rightarrow> 'e \<Rightarrow> goerr option \<times> 'c"
  XRestore :: "'c \<Rightarrow> 'e \<Rightarrow> goerr option \<times> 'e"
  XRegRead :: "reg \<Rightarrow> 'c \<Rightarrow> u64 res"
  XRegWrite :: "reg \<Rightarrow> u64 \<Rightarrow> 'c \<Rightarrow> goerr option \<times> 'c"
  XClone :: "'c \<Rightarrow> 'c res"

text \<open>
  A task context has an identity, the saved registers and a stack; \<open>TcReleases\<close> is the number of
  functions in its \<^verbatim>\<open>releases\<close>: two for one that owns its stack, one for a clone.
\<close>

record 'c tctx =
  TcId :: nat
  TcRegs :: 'c
  TcStack :: u64
  TcReleases :: nat

section \<open>Status and cause\<close>

definition TaskStatus_Pending :: nat where "TaskStatus_Pending = 0"
definition TaskStatus_Running :: nat where "TaskStatus_Running = 1"
definition TaskStatus_Done :: nat where "TaskStatus_Done = 2"
definition TaskStatus_Close :: nat where "TaskStatus_Close = 3"

lemmas status_defs = TaskStatus_Pending_def TaskStatus_Running_def TaskStatus_Done_def TaskStatus_Close_def

text \<open>Why a task's Go context was cancelled: without a cause, as done, or for an error.\<close>

datatype task_cause = Canceled | StatusDone | Because cause

text \<open>The release functions of a task: closing a control, or one of the user's.\<close>

datatype task_release = CloseCtrl nat | UserRelease nat

record 'c runner =
  rn_id :: nat
  rn_pid :: nat
  rn_tc :: "'c tctx"
  rn_change :: bool
  rn_status :: nat
  rn_cause :: "task_cause option"
  rn_releases :: "task_release list"
  rn_storage :: storage

section \<open>Operations of a runner\<close>

definition updateStatus :: "nat \<Rightarrow> 'c runner \<Rightarrow> 'c runner" where
  "updateStatus st r = (if rn_status r < st then r\<lparr>rn_status := st\<rparr> else r)"

text \<open>\<^verbatim>\<open>context.WithCancelCause\<close>: the first cancellation gives the cause.\<close>

definition cancel_ctx :: "task_cause \<Rightarrow> 'c runner \<Rightarrow> 'c runner" where
  "cancel_ctx c r = (if rn_cause r = None then r\<lparr>rn_cause := Some c\<rparr> else r)"

definition CancelCause :: "task_cause \<Rightarrow> 'c runner \<Rightarrow> 'c runner" where
  "CancelCause c r = cancel_ctx c (updateStatus TaskStatus_Done r)"

text \<open>\<^verbatim>\<open>Run\<close> refuses with the status; otherwise it starts a goroutine that calls \<^verbatim>\<open>runTask\<close>.\<close>

definition runner_Run :: "'c runner \<Rightarrow> unit res" where
  "runner_Run r = (if rn_status r \<noteq> TaskStatus_Pending then Inl (ErrStatus (rn_status r)) else Inr ())"

definition runner_Err :: "'c runner \<Rightarrow> task_cause option" where
  "runner_Err r = (if rn_cause r = Some StatusDone then None else rn_cause r)"

text \<open>
  \<^verbatim>\<open>SyncRun\<close>: \<^verbatim>\<open>Run\<close>, then wait for the end. \<open>until\<close> is what happens to the runner until it is done.
\<close>

definition runner_SyncRun :: "('c runner \<Rightarrow> 'c runner) \<Rightarrow> 'c runner \<Rightarrow> (goerr + task_cause option) \<times> 'c runner" where
  "runner_SyncRun until r =
     (case runner_Run r of
        Inl err \<Rightarrow> (Inl err, r)
      | Inr _ \<Rightarrow> (let r' = until r in (Inr (runner_Err r'), r')))"

definition appendRelease :: "task_release \<Rightarrow> 'c runner \<Rightarrow> 'c runner" where
  "appendRelease f r = r\<lparr>rn_releases := rn_releases r @ [f]\<rparr>"

definition contextSave :: "('c, 'e) ctx_ops \<Rightarrow> 'e \<Rightarrow> 'c runner \<Rightarrow> goerr option \<times> 'c runner" where
  "contextSave X e r =
     (let r = updateStatus TaskStatus_Running r;
          (err, c) = XSave X (TcRegs (rn_tc r)) e
      in (err, r\<lparr>rn_tc := (rn_tc r)\<lparr>TcRegs := c\<rparr>\<rparr>))"

definition contextRestore :: "('c, 'e) ctx_ops \<Rightarrow> 'c runner \<Rightarrow> 'e \<Rightarrow> goerr option \<times> 'c runner \<times> 'e" where
  "contextRestore X r e =
     (let (err, e') = XRestore X (TcRegs (rn_tc r)) e in (err, r\<lparr>rn_change := False\<rparr>, e'))"

definition runner_RegRead :: "('c, 'e) ctx_ops \<Rightarrow> reg \<Rightarrow> 'c runner \<Rightarrow> u64 res" where
  "runner_RegRead X g r = XRegRead X g (TcRegs (rn_tc r))"

definition runner_RegWrite :: "('c, 'e) ctx_ops \<Rightarrow> reg \<Rightarrow> u64 \<Rightarrow> 'c runner \<Rightarrow> goerr option \<times> 'c runner" where
  "runner_RegWrite X g x r =
     (let (err, c) = XRegWrite X g x (TcRegs (rn_tc r))
      in (err, r\<lparr>rn_change := True, rn_tc := (rn_tc r)\<lparr>TcRegs := c\<rparr>\<rparr>))"

text \<open>The same on the task context alone, as \<^verbatim>\<open>newTask\<close> and \<^verbatim>\<open>reset\<close> do; the error is dropped.\<close>

definition tc_RegWrite :: "('c, 'e) ctx_ops \<Rightarrow> reg \<Rightarrow> u64 \<Rightarrow> 'c tctx \<Rightarrow> 'c tctx" where
  "tc_RegWrite X g x tc = tc\<lparr>TcRegs := snd (XRegWrite X g x (TcRegs tc))\<rparr>"

definition newRunner :: "nat \<Rightarrow> 'c tctx \<Rightarrow> 'c runner" where
  "newRunner i tc = \<lparr>rn_id = i, rn_pid = 0, rn_tc = tc, rn_change = True, rn_status = TaskStatus_Pending,
     rn_cause = None, rn_releases = [], rn_storage = []\<rparr>"

definition tc_clone :: "('c, 'e) ctx_ops \<Rightarrow> nat \<Rightarrow> 'c tctx \<Rightarrow> 'c tctx res" where
  "tc_clone X i tc = (case XClone X (TcRegs tc) of
     Inl err \<Rightarrow> Inl err
   | Inr c \<Rightarrow> Inr \<lparr>TcId = i, TcRegs = c, TcStack = TcStack tc, TcReleases = 1\<rparr>)"

section \<open>The pool of contexts\<close>

text \<open>
  \<^verbatim>\<open>collection\<close>: the goroutine that keeps the free contexts offers one (or nil) on the channel, and
  takes what is sent on it.
\<close>

type_synonym 'c ctx_pool = "'c tctx option \<times> 'c tctx list"

definition coll_take :: "'c ctx_pool \<Rightarrow> 'c tctx option \<times> 'c ctx_pool" where
  "coll_take p = (case p of (cur, cs) \<Rightarrow>
     (cur, if cs = [] then (None, []) else (Some (last cs), butlast cs)))"

definition coll_put :: "'c tctx \<Rightarrow> 'c ctx_pool \<Rightarrow> 'c ctx_pool" where
  "coll_put c p = (case p of (None, cs) \<Rightarrow> (Some c, cs) | (Some d, cs) \<Rightarrow> (Some d, cs @ [c]))"

text \<open>
  The task manager as far as tasks come and go: the pool, the counters of tasks and of contexts, the
  identities of the contexts whose destructor has run, the runners, and whether it is closed.
\<close>

record ('c, 'e) task_mgr =
  tk_emu :: 'e
  tk_closed :: bool
  tk_pool :: "'c ctx_pool"
  tk_id :: nat
  tk_next :: nat
  tk_freed :: "nat list"
  tk_runners :: "'c runner list"
  tk_released :: "task_release list"

definition tk_empty :: "'e \<Rightarrow> ('c, 'e) task_mgr" where
  "tk_empty e = \<lparr>tk_emu = e, tk_closed = False, tk_pool = (None, []), tk_id = 0, tk_next = 0, tk_freed = [],
     tk_runners = [], tk_released = []\<rparr>"

definition taskID :: "('c, 'e) task_mgr \<Rightarrow> nat \<times> ('c, 'e) task_mgr" where
  "taskID m = (let i = tk_id m + 1 in (i, m\<lparr>tk_id := i\<rparr>))"

definition tc_dtor :: "'c tctx \<Rightarrow> ('c, 'e) task_mgr \<Rightarrow> ('c, 'e) task_mgr" where
  "tc_dtor tc m = m\<lparr>tk_freed := tk_freed m @ [TcId tc]\<rparr>"

definition newTaskContext ::
  "('c, 'e) ctx_ops \<Rightarrow> ('e \<Rightarrow> u64 res \<times> 'e) \<Rightarrow> ('c, 'e) task_mgr \<Rightarrow> 'c tctx res \<times> ('c, 'e) task_mgr" where
  "newTaskContext X init_stack m =
     (case XAlloc X (tk_emu m) of
        Inl err \<Rightarrow> (Inl err, m)
      | Inr c \<Rightarrow>
          (case init_stack (tk_emu m) of
             (Inl err, e') \<Rightarrow> (Inl err, m\<lparr>tk_emu := e'\<rparr>)
           | (Inr a, e') \<Rightarrow>
               (Inr \<lparr>TcId = tk_next m, TcRegs = c, TcStack = a, TcReleases = 2\<rparr>,
                m\<lparr>tk_emu := e', tk_next := tk_next m + 1\<rparr>)))"

text \<open>A closed manager gives no context; the select may also find the collector still there.\<close>

definition allocTaskContext :: "('c, 'e) task_mgr \<Rightarrow> 'c tctx option res \<times> ('c, 'e) task_mgr" where
  "allocTaskContext m =
     (if tk_closed m then (Inl ErrEmulatorStop, m)
      else case coll_take (tk_pool m) of (tc, p) \<Rightarrow> (Inr tc, m\<lparr>tk_pool := p\<rparr>))"

definition freeTaskContext :: "'c tctx \<Rightarrow> ('c, 'e) task_mgr \<Rightarrow> ('c, 'e) task_mgr" where
  "freeTaskContext tc m =
     (if TcReleases tc = 1 then tc_dtor tc m
      else if tk_closed m then tc_dtor tc m
      else m\<lparr>tk_pool := coll_put tc (tk_pool m)\<rparr>)"

section \<open>Making tasks\<close>

definition add_runner :: "'c runner \<Rightarrow> ('c, 'e) task_mgr \<Rightarrow> nat \<times> ('c, 'e) task_mgr" where
  "add_runner r m = (length (tk_runners m), m\<lparr>tk_runners := tk_runners m @ [r]\<rparr>)"

definition start_task ::
  "('c, 'e) ctx_ops \<Rightarrow> reg \<Rightarrow> 'c tctx \<Rightarrow> ('c, 'e) task_mgr \<Rightarrow> nat \<times> ('c, 'e) task_mgr" where
  "start_task X sp tc m =
     (let (i, m) = taskID m in add_runner (newRunner i (tc_RegWrite X sp (TcStack tc) tc)) m)"

definition newTask ::
  "('c, 'e) ctx_ops \<Rightarrow> reg \<Rightarrow> ('e \<Rightarrow> u64 res \<times> 'e) \<Rightarrow> 'c tctx option \<Rightarrow> ('c, 'e) task_mgr \<Rightarrow>
     nat res \<times> ('c, 'e) task_mgr" where
  "newTask X sp init_stack tc m =
     (case tc of
        Some tc \<Rightarrow> apfst Inr (start_task X sp tc m)
      | None \<Rightarrow>
          (case newTaskContext X init_stack m of
             (Inl err, m) \<Rightarrow> (Inl err, m)
           | (Inr tc, m) \<Rightarrow>
               (case XSave X (TcRegs tc) (tk_emu m) of
                  (Some err, c) \<Rightarrow> (Inl err, freeTaskContext (tc\<lparr>TcRegs := c\<rparr>) m)
                | (None, c) \<Rightarrow> apfst Inr (start_task X sp (tc\<lparr>TcRegs := c\<rparr>) m))))"

definition createTask ::
  "('c, 'e) ctx_ops \<Rightarrow> reg \<Rightarrow> ('e \<Rightarrow> u64 res \<times> 'e) \<Rightarrow> ('c, 'e) task_mgr \<Rightarrow> nat res \<times> ('c, 'e) task_mgr" where
  "createTask X sp init_stack m =
     (case allocTaskContext m of
        (Inl err, m) \<Rightarrow> (Inl err, m)
      | (Inr tc, m) \<Rightarrow> newTask X sp init_stack tc m)"

definition put_runner :: "nat \<Rightarrow> 'c runner \<Rightarrow> ('c, 'e) task_mgr \<Rightarrow> ('c, 'e) task_mgr" where
  "put_runner i r m = m\<lparr>tk_runners := (tk_runners m)[i := r]\<rparr>"

text \<open>\<^verbatim>\<open>Fork\<close>: a task on a clone of the registers and on the same stack.\<close>

definition runner_Fork :: "('c, 'e) ctx_ops \<Rightarrow> nat \<Rightarrow> ('c, 'e) task_mgr \<Rightarrow> nat res \<times> ('c, 'e) task_mgr" where
  "runner_Fork X i m =
     (let r = tk_runners m ! i in
      case tc_clone X (tk_next m) (rn_tc r) of
        Inl err \<Rightarrow> (Inl err, m)
      | Inr tc \<Rightarrow>
          (let (k, m) = taskID (m\<lparr>tk_next := tk_next m + 1\<rparr>)
           in apfst Inr (add_runner ((newRunner k tc)\<lparr>rn_pid := rn_id r\<rparr>) m)))"

text \<open>
  \<^verbatim>\<open>Close\<close>: the storage is emptied, the releases run, last first; the task is cancelled and its
  context freed. Closing again frees the context again.
\<close>

definition runner_Close :: "nat \<Rightarrow> ('c, 'e) task_mgr \<Rightarrow> ('c, 'e) task_mgr" where
  "runner_Close i m =
     (let r = tk_runners m ! i;
          m = m\<lparr>tk_released := tk_released m @ rev (rn_releases r)\<rparr>;
          r = CancelCause Canceled (r\<lparr>rn_storage := [], rn_releases := []\<rparr>);
          m = freeTaskContext (rn_tc r) m
      in put_runner i (updateStatus TaskStatus_Close r) m)"

section \<open>The main task\<close>

definition newMain ::
  "('c, 'e) ctx_ops \<Rightarrow> ('e \<Rightarrow> u64 res \<times> 'e) \<Rightarrow> ('c, 'e) task_mgr \<Rightarrow> nat res \<times> ('c, 'e) task_mgr" where
  "newMain X init_stack m =
     (case newTaskContext X init_stack m of
        (Inl err, m) \<Rightarrow> (Inl err, m)
      | (Inr tc, m) \<Rightarrow>
          (case XSave X (TcRegs tc) (tk_emu m) of
             (Some err, c) \<Rightarrow> (Inl err, freeTaskContext (tc\<lparr>TcRegs := c\<rparr>) m)
           | (None, c) \<Rightarrow>
               (let (i, m) = taskID m
                in apfst Inr (add_runner ((newRunner i (tc\<lparr>TcRegs := c\<rparr>))\<lparr>rn_change := False\<rparr>) m))))"

text \<open>\<^verbatim>\<open>reset\<close>: the stack pointer, a fresh Go context, and the registers marked as changed.\<close>

definition main_reset :: "('c, 'e) ctx_ops \<Rightarrow> reg \<Rightarrow> 'c runner \<Rightarrow> 'c runner" where
  "main_reset X sp r =
     r\<lparr>rn_tc := tc_RegWrite X sp (TcStack (rn_tc r)) (rn_tc r), rn_cause := None, rn_change := True\<rparr>"

definition main_Close :: "nat \<Rightarrow> ('c, 'e) task_mgr \<Rightarrow> ('c, 'e) task_mgr" where
  "main_Close i m =
     (let r = tk_runners m ! i;
          m = m\<lparr>tk_released := tk_released m @ rev (rn_releases r)\<rparr>;
          r = CancelCause Canceled (r\<lparr>rn_storage := [], rn_releases := []\<rparr>)
      in put_runner i (updateStatus TaskStatus_Close r) m)"

definition main_release :: "nat \<Rightarrow> ('c, 'e) task_mgr \<Rightarrow> ('c, 'e) task_mgr" where
  "main_release i m = (let m = main_Close i m in freeTaskContext (rn_tc (tk_runners m ! i)) m)"

text \<open>The parent of a fork of the main task is a number of its own, not the main task's.\<close>

definition main_Fork :: "('c, 'e) ctx_ops \<Rightarrow> nat \<Rightarrow> ('c, 'e) task_mgr \<Rightarrow> nat res \<times> ('c, 'e) task_mgr" where
  "main_Fork X i m =
     (case tc_clone X (tk_next m) (rn_tc (tk_runners m ! i)) of
        Inl err \<Rightarrow> (Inl err, m)
      | Inr tc \<Rightarrow>
          (let (k, m) = taskID (m\<lparr>tk_next := tk_next m + 1\<rparr>);
               (j, m) = add_runner (newRunner k tc) m;
               (p, m) = taskID m
           in (Inr j, put_runner j ((tk_runners m ! j)\<lparr>rn_pid := p\<rparr>) m)))"

text \<open>\<^verbatim>\<open>getMainTask\<close>: the main task can be used again once it is closed.\<close>

definition getMainTask :: "('c, 'e) ctx_ops \<Rightarrow> reg \<Rightarrow> nat \<Rightarrow> ('c, 'e) task_mgr \<Rightarrow> nat res \<times> ('c, 'e) task_mgr" where
  "getMainTask X sp i m =
     (let r = tk_runners m ! i
      in if rn_status r \<noteq> TaskStatus_Close then (Inl (ErrStatus TaskStatus_Running), m)
         else (Inr i, put_runner i (main_reset X sp (r\<lparr>rn_status := TaskStatus_Pending\<rparr>)) m))"

section \<open>Calls\<close>

text \<open>
  \<^verbatim>\<open>TaskControl\<close> points a task at a function: it returns to a control whose callback ends the task.
  \<open>ctrl\<close> is the control and its address, as \<^verbatim>\<open>AddControl\<close> returned them.
\<close>

definition TaskControl ::
  "('c, 'e) ctx_ops \<Rightarrow> dbg_arch \<Rightarrow> nat \<times> u64 \<Rightarrow> u64 \<Rightarrow> 'c runner \<Rightarrow> 'c runner" where
  "TaskControl X D ctrl addr r =
     snd (runner_RegWrite X (DLR D) (snd ctrl) (snd (runner_RegWrite X (DPC D) addr r)))"

definition control_returned :: "bool \<Rightarrow> 'c runner \<Rightarrow> (unit, 'c runner) outcome" where
  "control_returned same_ctx r =
     (if same_ctx then Ret () (CancelCause StatusDone r) else Panic (PanicMsg ''call exception return'') r)"

section \<open>An instance\<close>

text \<open>A CPU of one register; a context is its value.\<close>

definition reg_ctx :: "(u64, u64) ctx_ops" where
  "reg_ctx = \<lparr>XAlloc = (\<lambda>e. Inr 0), XSave = (\<lambda>c e. (None, e)), XRestore = (\<lambda>c e. (None, c)),
     XRegRead = (\<lambda>g c. Inr c), XRegWrite = (\<lambda>g x c. (None, x)), XClone = Inr\<rparr>"

lemma reg_ctx_ops [simp]: "XSave reg_ctx c e = (None, e)" "XRestore reg_ctx c e = (None, c)"
  by (simp_all add: reg_ctx_def)

end
