(* ===== verification/TaskSteps.thy ===== *)
theory TaskSteps
  imports Task
begin

text \<open>
  The goroutines of the task manager (\<^verbatim>\<open>internal/debugger/task.go\<close>) as a step relation: the thread of
  the emulator, which runs guest code and the hooks it triggers; the goroutine of \<^verbatim>\<open>loop\<close>; one
  goroutine per task, which runs callbacks (\<^verbatim>\<open>runner.loop\<close>); and the goroutines \<^verbatim>\<open>Run\<close> starts. The
  channels are unbuffered, so that a send and its receive are one step of two goroutines. A callback
  is the user's code: while one runs, any operation of a runner may happen. The closed main task may be
  taken up again (\<^verbatim>\<open>getMainTask\<close>), which starts a second goroutine for it beside the old one.
\<close>

section \<open>States\<close>

text \<open>
  Where the goroutines are. \<open>ESuspend call t\<close>: about to send on \<^verbatim>\<open>suspend\<close>, for a stop of task \<open>t\<close> whose
  callback is to be called or not. \<open>ESend t\<close>: sending the callback to \<open>t\<close>. \<open>EPark\<close>: in \<^verbatim>\<open>resumeTask\<close>.
  \<open>ESync t\<close>: running a callback of \<open>t\<close> in \<^verbatim>\<open>syncTask\<close>. \<open>LWait\<close> is the second \<^verbatim>\<open>select\<close> of \<^verbatim>\<open>loop\<close>.
\<close>

datatype loop_pc = LIdle | LWait | LResume | LExit
datatype emu_pc = ERun | ESuspend bool nat | is_ESend: ESend nat | EPark | ESync nat | EStopped
datatype run_pc = RIdle | RHandle | RRun | RExit

text \<open>
  \<open>tm_pend t\<close> counts the goroutines started by \<^verbatim>\<open>Run\<close> that have not ended, \<open>tm_runs t\<close> the successful
  calls of \<^verbatim>\<open>Run\<close> so far; the start of the debugger counts as the run of the main task, task 0. \<open>tm_oldh\<close>
  counts the goroutines an earlier life of the main task has left in a callback, \<open>tm_oldr\<close> those it has
  left in \<^verbatim>\<open>runTask\<close>, which wait on the cancelled Go context of that life.
\<close>

record ('c, 'e) tm =
  tm_closed :: bool
  tm_current :: "nat option"
  tm_emuerr :: bool
  tm_hasSync :: bool
  tm_emu :: 'e
  tm_loop :: loop_pc
  tm_thread :: emu_pc
  tm_rs :: "nat \<Rightarrow> 'c runner"
  tm_pc :: "nat \<Rightarrow> run_pc"
  tm_pend :: "nat \<Rightarrow> nat"
  tm_runs :: "nat \<Rightarrow> nat"
  tm_oldh :: nat
  tm_oldr :: nat

definition on_task :: "nat \<Rightarrow> ('c runner \<Rightarrow> 'c runner) \<Rightarrow> ('c, 'e) tm \<Rightarrow> ('c, 'e) tm" where
  "on_task t f st = st\<lparr>tm_rs := (tm_rs st)(t := f (tm_rs st t))\<rparr>"

definition tm_init :: "('c, 'e) tm \<Rightarrow> bool" where
  "tm_init st \<longleftrightarrow> \<not> tm_closed st \<and> tm_current st = Some 0 \<and> \<not> tm_emuerr st \<and> \<not> tm_hasSync st \<and>
     tm_loop st = LIdle \<and> tm_thread st = ERun \<and> tm_pend st = (\<lambda>_. 0) \<and> tm_pc st = (\<lambda>_. RIdle) \<and>
     tm_runs st = (\<lambda>t. if t = 0 then 1 else 0) \<and> tm_oldh st = 0 \<and> tm_oldr st = 0 \<and>
     (\<forall>t. rn_status (tm_rs st t) = TaskStatus_Pending \<and> rn_change (tm_rs st t) \<and> rn_cause (tm_rs st t) = None)"

section \<open>The pieces of the code between two channel operations\<close>

text \<open>\<^verbatim>\<open>loop\<close> has received a task: it becomes the current one, and its registers are restored if needed.\<close>

definition deliver :: "('c, 'e) ctx_ops \<Rightarrow> nat \<Rightarrow> ('c, 'e) tm \<Rightarrow> ('c, 'e) tm" where
  "deliver X t st =
     (if tm_current st \<noteq> Some t \<or> rn_change (tm_rs st t) then
        (case contextRestore X (tm_rs st t) (tm_emu st) of
           (None, r, e) \<Rightarrow>
             st\<lparr>tm_current := Some t, tm_rs := (tm_rs st)(t := r), tm_emu := e, tm_loop := LResume\<rparr>
         | (Some err, r, e) \<Rightarrow>
             st\<lparr>tm_current := Some t, tm_rs := (tm_rs st)(t := CancelCause (Because (CauseErr err)) r), tm_emu := e\<rparr>)
      else st\<lparr>tm_loop := LResume\<rparr>)"

text \<open>The start of \<^verbatim>\<open>asyncTask\<close> and of \<^verbatim>\<open>syncTask\<close>: the registers are saved; \<open>ok\<close> is where it goes then.\<close>

definition stop_begin :: "('c, 'e) ctx_ops \<Rightarrow> nat \<Rightarrow> emu_pc \<Rightarrow> ('c, 'e) tm \<Rightarrow> ('c, 'e) tm" where
  "stop_begin X t ok st =
     (if rn_status (tm_rs st t) < TaskStatus_Done then
        (case contextSave X (tm_emu st) (tm_rs st t) of
           (None, r) \<Rightarrow> st\<lparr>tm_rs := (tm_rs st)(t := r), tm_thread := ok\<rparr>
         | (Some err, r) \<Rightarrow>
             st\<lparr>tm_rs := (tm_rs st)(t := CancelCause (Because (CauseErr err)) r), tm_thread := ESuspend False t\<rparr>)
      else st\<lparr>tm_thread := ESuspend False t\<rparr>)"

definition async_begin :: "('c, 'e) ctx_ops \<Rightarrow> nat \<Rightarrow> ('c, 'e) tm \<Rightarrow> ('c, 'e) tm" where
  "async_begin X t st = stop_begin X t (ESuspend True t) st"

definition sync_begin :: "('c, 'e) ctx_ops \<Rightarrow> nat \<Rightarrow> ('c, 'e) tm \<Rightarrow> ('c, 'e) tm" where
  "sync_begin X t st =
     (let st' = stop_begin X t (ESync t) st
      in if tm_thread st' = ESync t then st'\<lparr>tm_hasSync := True\<rparr> else st')"

definition sync_end :: "('c, 'e) ctx_ops \<Rightarrow> nat \<Rightarrow> ('c, 'e) tm \<Rightarrow> ('c, 'e) tm" where
  "sync_end X t st =
     (let st = st\<lparr>tm_hasSync := False\<rparr> in
      if rn_status (tm_rs st t) \<ge> TaskStatus_Done then st\<lparr>tm_thread := ESuspend False t\<rparr>
      else if \<not> rn_change (tm_rs st t) then st\<lparr>tm_thread := ERun\<rparr>
      else case contextRestore X (tm_rs st t) (tm_emu st) of
        (None, r, e) \<Rightarrow> st\<lparr>tm_rs := (tm_rs st)(t := r), tm_emu := e, tm_thread := ERun\<rparr>
      | (Some err, r, e) \<Rightarrow>
          st\<lparr>tm_rs := (tm_rs st)(t := CancelCause (Because (CauseErr err)) r), tm_emu := e,
             tm_thread := ESuspend False t\<rparr>)"

text \<open>A panic in the callback of \<^verbatim>\<open>syncTask\<close> leaves the function: \<^verbatim>\<open>hasSync\<close> keeps its value.\<close>

definition sync_panic :: "nat \<Rightarrow> task_cause \<Rightarrow> ('c, 'e) tm \<Rightarrow> ('c, 'e) tm" where
  "sync_panic t c st = (on_task t (CancelCause c) st)\<lparr>tm_thread := ERun\<rparr>"

text \<open>\<^verbatim>\<open>emu.Start\<close> has returned.\<close>

definition emu_stopped :: "task_cause \<Rightarrow> ('c, 'e) tm \<Rightarrow> ('c, 'e) tm" where
  "emu_stopped c st =
     (let st' = (case tm_current st of None \<Rightarrow> st | Some t \<Rightarrow> on_task t (CancelCause c) st)
      in st'\<lparr>tm_emuerr := True, tm_current := None, tm_thread := EStopped\<rparr>)"

text \<open>
  Where \<^verbatim>\<open>mainThreadRun\<close> runs its function: at once, or on the parked thread of the emulator. The
  functions it is called with map and unmap memory (\<^verbatim>\<open>mem.go\<close>), they leave the registers alone.
\<close>

definition runs_directly :: "('c, 'e) tm \<Rightarrow> bool" where
  "runs_directly st = (tm_current st = None \<or> tm_hasSync st)"

definition mainThreadRun_open :: "('c, 'e) tm \<Rightarrow> bool" where
  "mainThreadRun_open st = (runs_directly st \<or> tm_closed st \<or> tm_thread st = EPark)"

text \<open>\<^verbatim>\<open>suspendTask\<close> has sent to \<^verbatim>\<open>loop\<close>; \<^verbatim>\<open>resumeTask\<close> has heard from it.\<close>

definition suspended :: "bool \<Rightarrow> nat \<Rightarrow> ('c, 'e) tm \<Rightarrow> ('c, 'e) tm" where
  "suspended call t st = st\<lparr>tm_loop := LWait, tm_thread := (if call then ESend t else EPark)\<rparr>"

definition resumed :: "('c, 'e) tm \<Rightarrow> ('c, 'e) tm" where
  "resumed st = st\<lparr>tm_thread := ERun, tm_loop := LIdle\<rparr>"

text \<open>The goroutine of a task receives a callback; \<^verbatim>\<open>handle\<close> has run it.\<close>

definition received :: "nat \<Rightarrow> ('c, 'e) tm \<Rightarrow> ('c, 'e) tm" where
  "received t st = st\<lparr>tm_thread := EPark, tm_pc := (tm_pc st)(t := RHandle)\<rparr>"

definition handled :: "nat \<Rightarrow> ('c, 'e) tm \<Rightarrow> ('c, 'e) tm" where
  "handled t st = st\<lparr>tm_pc := (tm_pc st)(t :=
     (if rn_status (tm_rs st t) < TaskStatus_Done then RRun else RIdle))\<rparr>"

text \<open>\<^verbatim>\<open>runTask\<close>, in a goroutine of its own or in that of the task, is over.\<close>

definition run_pended :: "nat \<Rightarrow> ('c, 'e) tm \<Rightarrow> ('c, 'e) tm" where
  "run_pended t st = st\<lparr>tm_pend := (tm_pend st)(t := tm_pend st t - 1)\<rparr>"

definition reran :: "nat \<Rightarrow> ('c, 'e) tm \<Rightarrow> ('c, 'e) tm" where
  "reran t st = st\<lparr>tm_pc := (tm_pc st)(t := RIdle)\<rparr>"

definition run_started :: "nat \<Rightarrow> ('c, 'e) tm \<Rightarrow> ('c, 'e) tm" where
  "run_started t st = st\<lparr>tm_pend := (tm_pend st)(t := Suc (tm_pend st t)),
     tm_runs := (tm_runs st)(t := Suc (tm_runs st t))\<rparr>"

text \<open>
  \<^verbatim>\<open>getMainTask\<close> on the closed main task: \<^verbatim>\<open>reset\<close> gives it a new Go context, channel and goroutine. A callback
  that was being sent to the old goroutine is dropped, for the old context is cancelled.
\<close>

definition main_gotten :: "('c, 'e) ctx_ops \<Rightarrow> reg \<Rightarrow> ('c, 'e) tm \<Rightarrow> ('c, 'e) tm" where
  "main_gotten X sp st =
     st\<lparr>tm_rs := (tm_rs st)(0 := main_reset X sp ((tm_rs st 0)\<lparr>rn_status := TaskStatus_Pending\<rparr>)),
        tm_pc := (tm_pc st)(0 := RIdle), tm_pend := (tm_pend st)(0 := 0),
        tm_oldh := tm_oldh st + (if tm_pc st 0 = RHandle then 1 else 0),
        tm_oldr := tm_oldr st + (if tm_pc st 0 = RRun then 1 else 0) + tm_pend st 0,
        tm_thread := (if tm_thread st = ESend 0 then EPark else tm_thread st)\<rparr>"

text \<open>An old callback is over; the status \<^verbatim>\<open>handle\<close> looks at, and the context \<^verbatim>\<open>runTask\<close> waits on, are the new ones.\<close>

definition old_handled :: "('c, 'e) tm \<Rightarrow> ('c, 'e) tm" where
  "old_handled st =
     st\<lparr>tm_oldh := tm_oldh st - 1,
        tm_pend := (if rn_status (tm_rs st 0) < TaskStatus_Done then (tm_pend st)(0 := Suc (tm_pend st 0)) else tm_pend st)\<rparr>"

definition old_run_ended :: "('c, 'e) tm \<Rightarrow> ('c, 'e) tm" where
  "old_run_ended st = st\<lparr>tm_oldr := tm_oldr st - 1\<rparr>"

lemmas moves = suspended_def resumed_def received_def handled_def run_pended_def reran_def run_started_def
  main_gotten_def old_handled_def old_run_ended_def

section \<open>Steps\<close>

text \<open>\<open>holds c e\<close>: the emulator \<open>e\<close> holds the registers saved in the context \<open>c\<close>.\<close>

inductive tm_step :: "('c, 'e) ctx_ops \<Rightarrow> ('c \<Rightarrow> 'e \<Rightarrow> bool) \<Rightarrow> ('c, 'e) tm \<Rightarrow> ('c, 'e) tm \<Rightarrow> bool"
  for X holds where
  s_guest: "tm_thread st = ERun \<Longrightarrow> tm_step X holds st (st\<lparr>tm_emu := e\<rparr>)"
| s_async: "tm_thread st = ERun \<Longrightarrow> tm_current st = Some t \<Longrightarrow> tm_step X holds st (async_begin X t st)"
| s_sync: "tm_thread st = ERun \<Longrightarrow> tm_current st = Some t \<Longrightarrow> tm_step X holds st (sync_begin X t st)"
| s_sync_end: "tm_thread st = ESync t \<Longrightarrow> tm_step X holds st (sync_end X t st)"
| s_sync_panic: "tm_thread st = ESync t \<Longrightarrow> tm_step X holds st (sync_panic t c st)"
| s_suspend: "tm_thread st = ESuspend call t \<Longrightarrow> tm_loop st = LIdle \<Longrightarrow>
    tm_step X holds st (suspended call t st)"
| s_suspend_closed: "tm_thread st = ESuspend call t \<Longrightarrow> tm_closed st \<Longrightarrow>
    tm_step X holds st (st\<lparr>tm_thread := ERun\<rparr>)"
| s_send: "tm_thread st = ESend t \<Longrightarrow> tm_pc st t = RIdle \<Longrightarrow> tm_step X holds st (received t st)"
| s_send_done: "tm_thread st = ESend t \<Longrightarrow> rn_cause (tm_rs st t) \<noteq> None \<Longrightarrow>
    tm_step X holds st (st\<lparr>tm_thread := EPark\<rparr>)"
| s_resume: "tm_thread st = EPark \<Longrightarrow> tm_loop st = LResume \<Longrightarrow> tm_step X holds st (resumed st)"
| s_exec: "mainThreadRun_open st \<Longrightarrow> \<forall>c. holds c e = holds c (tm_emu st) \<Longrightarrow>
    tm_step X holds st (st\<lparr>tm_emu := e\<rparr>)"
| s_stop: "tm_thread st = ERun \<Longrightarrow> tm_step X holds st (emu_stopped c st)"
| s_dispatch_pend: "tm_loop st = LWait \<Longrightarrow> tm_pend st t > 0 \<Longrightarrow> \<not> tm_emuerr st \<Longrightarrow>
    tm_step X holds st (deliver X t (run_pended t st))"
| s_dispatch_run: "tm_loop st = LWait \<Longrightarrow> tm_pc st t = RRun \<Longrightarrow>
    tm_step X holds st (deliver X t (reran t st))"
| s_loop_exit: "tm_loop st = LIdle \<Longrightarrow> tm_closed st \<Longrightarrow> tm_step X holds st (st\<lparr>tm_loop := LExit\<rparr>)"
| s_loop_closed: "tm_loop st = LWait \<Longrightarrow> tm_closed st \<Longrightarrow> tm_step X holds st (st\<lparr>tm_loop := LResume\<rparr>)"
| s_run: "runner_Run (tm_rs st t) = Inr () \<Longrightarrow> tm_step X holds st (run_started t st)"
| s_pend_err: "tm_pend st t > 0 \<Longrightarrow> tm_emuerr st \<Longrightarrow>
    tm_step X holds st (on_task t (CancelCause c) (run_pended t st))"
| s_pend_end: "tm_pend st t > 0 \<Longrightarrow> tm_closed st \<or> rn_cause (tm_rs st t) \<noteq> None \<Longrightarrow>
    tm_step X holds st (run_pended t st)"
| s_handled: "tm_pc st t = RHandle \<Longrightarrow> tm_step X holds st (handled t st)"
| s_rerun_err: "tm_pc st t = RRun \<Longrightarrow> tm_emuerr st \<Longrightarrow>
    tm_step X holds st (on_task t (CancelCause c) (reran t st))"
| s_rerun_end: "tm_pc st t = RRun \<Longrightarrow> tm_closed st \<or> rn_cause (tm_rs st t) \<noteq> None \<Longrightarrow>
    tm_step X holds st (reran t st)"
| s_runner_exit: "tm_pc st t = RIdle \<Longrightarrow> rn_cause (tm_rs st t) \<noteq> None \<Longrightarrow>
    tm_step X holds st (st\<lparr>tm_pc := (tm_pc st)(t := RExit)\<rparr>)"
| s_regwrite: "tm_step X holds st (on_task t (\<lambda>r. snd (runner_RegWrite X g x r)) st)"
| s_cancel: "tm_step X holds st (on_task t (CancelCause c) st)"
| s_parent_cancel: "tm_step X holds st (on_task t (cancel_ctx c) st)"
| s_task_close: "tm_step X holds st (on_task t (\<lambda>r. updateStatus TaskStatus_Close (CancelCause Canceled r)) st)"
| s_close: "tm_step X holds st (st\<lparr>tm_closed := True\<rparr>)"
| s_get_main: "rn_status (tm_rs st 0) = TaskStatus_Close \<Longrightarrow> tm_step X holds st (main_gotten X sp st)"
| s_old_handled: "tm_oldh st > 0 \<Longrightarrow> tm_step X holds st (old_handled st)"
| s_old_dispatch: "tm_loop st = LWait \<Longrightarrow> tm_oldr st > 0 \<Longrightarrow>
    tm_step X holds st (deliver X 0 (old_run_ended st))"
| s_old_err: "tm_oldr st > 0 \<Longrightarrow> tm_emuerr st \<Longrightarrow>
    tm_step X holds st (on_task 0 (CancelCause c) (old_run_ended st))"
| s_old_end: "tm_oldr st > 0 \<Longrightarrow> tm_step X holds st (old_run_ended st)"

inductive tm_reach :: "('c, 'e) ctx_ops \<Rightarrow> ('c \<Rightarrow> 'e \<Rightarrow> bool) \<Rightarrow> ('c, 'e) tm \<Rightarrow> bool" for X holds where
  r_init: "tm_init st \<Longrightarrow> tm_reach X holds st"
| r_step: "tm_reach X holds st \<Longrightarrow> tm_step X holds st st' \<Longrightarrow> tm_reach X holds st'"

section \<open>Effects on a runner\<close>

named_theorems task_simps \<open>what the operations of a runner do to its fields\<close>

lemma updateStatus_simps [task_simps]:
  "rn_status (updateStatus k r) = max (rn_status r) k" "rn_change (updateStatus k r) = rn_change r"
  "rn_tc (updateStatus k r) = rn_tc r" "rn_cause (updateStatus k r) = rn_cause r"
  by (auto simp: updateStatus_def)

lemma cancel_simps [task_simps]:
  "rn_status (cancel_ctx c r) = rn_status r" "rn_change (cancel_ctx c r) = rn_change r"
  "rn_tc (cancel_ctx c r) = rn_tc r"
  "rn_status (CancelCause c r) = max (rn_status r) TaskStatus_Done"
  "rn_change (CancelCause c r) = rn_change r" "rn_tc (CancelCause c r) = rn_tc r"
  by (auto simp: cancel_ctx_def CancelCause_def updateStatus_simps)

lemma regwrite_simps [task_simps]:
  "rn_status (snd (runner_RegWrite X g x r)) = rn_status r" "rn_change (snd (runner_RegWrite X g x r))"
  by (auto simp: runner_RegWrite_def split: prod.splits)

lemma save_simps [task_simps]:
  "rn_status (snd (contextSave X e r)) = max (rn_status r) TaskStatus_Running"
  "rn_change (snd (contextSave X e r)) = rn_change r"
  by (auto simp: contextSave_def updateStatus_simps split: prod.splits)

lemma restore_simps [task_simps]:
  "rn_status (fst (snd (contextRestore X r e))) = rn_status r" "\<not> rn_change (fst (snd (contextRestore X r e)))"
  "rn_tc (fst (snd (contextRestore X r e))) = rn_tc r"
  by (auto simp: contextRestore_def split: prod.splits)

lemma stop_begin_simps [task_simps]:
  "tm_current (stop_begin X t k st) = tm_current st" "tm_loop (stop_begin X t k st) = tm_loop st"
  "tm_closed (stop_begin X t k st) = tm_closed st" "tm_pend (stop_begin X t k st) = tm_pend st"
  "tm_pc (stop_begin X t k st) = tm_pc st" "tm_runs (stop_begin X t k st) = tm_runs st"
  "tm_emu (stop_begin X t k st) = tm_emu st"
  "tm_thread (stop_begin X t k st) = k \<or> tm_thread (stop_begin X t k st) = ESuspend False t"
  by (auto simp: stop_begin_def split: prod.splits option.splits)

lemma async_begin_simps [task_simps]:
  "tm_current (async_begin X t st) = tm_current st" "tm_loop (async_begin X t st) = tm_loop st"
  "tm_closed (async_begin X t st) = tm_closed st" "tm_pend (async_begin X t st) = tm_pend st"
  "tm_pc (async_begin X t st) = tm_pc st" "tm_runs (async_begin X t st) = tm_runs st"
  "tm_emu (async_begin X t st) = tm_emu st" "\<exists>b. tm_thread (async_begin X t st) = ESuspend b t"
  using stop_begin_simps [of X t "ESuspend True t" st] by (auto simp: async_begin_def)

lemma sync_begin_simps [task_simps]:
  "tm_current (sync_begin X t st) = tm_current st" "tm_loop (sync_begin X t st) = tm_loop st"
  "tm_closed (sync_begin X t st) = tm_closed st" "tm_pend (sync_begin X t st) = tm_pend st"
  "tm_pc (sync_begin X t st) = tm_pc st" "tm_runs (sync_begin X t st) = tm_runs st"
  "tm_emu (sync_begin X t st) = tm_emu st"
  "tm_thread (sync_begin X t st) = ESync t \<or> tm_thread (sync_begin X t st) = ESuspend False t"
  using stop_begin_simps [of X t "ESync t" st] by (auto simp: sync_begin_def Let_def)

lemma sync_end_simps [task_simps]:
  "tm_current (sync_end X t st) = tm_current st" "tm_loop (sync_end X t st) = tm_loop st"
  "tm_closed (sync_end X t st) = tm_closed st" "tm_pend (sync_end X t st) = tm_pend st"
  "tm_pc (sync_end X t st) = tm_pc st" "tm_runs (sync_end X t st) = tm_runs st"
  "tm_thread (sync_end X t st) = ERun \<or> tm_thread (sync_end X t st) = ESuspend False t"
  by (auto simp: sync_end_def Let_def split: prod.splits option.splits)

lemma on_task_simps [task_simps]:
  "tm_current (on_task t f st) = tm_current st" "tm_loop (on_task t f st) = tm_loop st"
  "tm_closed (on_task t f st) = tm_closed st" "tm_pend (on_task t f st) = tm_pend st"
  "tm_pc (on_task t f st) = tm_pc st" "tm_runs (on_task t f st) = tm_runs st"
  "tm_emu (on_task t f st) = tm_emu st" "tm_thread (on_task t f st) = tm_thread st"
  "tm_rs (on_task t f st) u = (if u = t then f (tm_rs st t) else tm_rs st u)"
  by (auto simp: on_task_def)

lemma emu_stopped_simps [task_simps]:
  "tm_current (emu_stopped c st) = None" "tm_loop (emu_stopped c st) = tm_loop st"
  "tm_closed (emu_stopped c st) = tm_closed st" "tm_pend (emu_stopped c st) = tm_pend st"
  "tm_pc (emu_stopped c st) = tm_pc st" "tm_runs (emu_stopped c st) = tm_runs st"
  "tm_thread (emu_stopped c st) = EStopped"
  by (auto simp: emu_stopped_def Let_def on_task_simps split: option.splits)

lemma sync_panic_simps [task_simps]:
  "tm_current (sync_panic t c st) = tm_current st" "tm_loop (sync_panic t c st) = tm_loop st"
  "tm_closed (sync_panic t c st) = tm_closed st" "tm_pend (sync_panic t c st) = tm_pend st"
  "tm_pc (sync_panic t c st) = tm_pc st" "tm_runs (sync_panic t c st) = tm_runs st"
  "tm_emu (sync_panic t c st) = tm_emu st" "tm_thread (sync_panic t c st) = ERun"
  by (auto simp: sync_panic_def on_task_simps)

lemma deliver_simps [task_simps]:
  "tm_thread (deliver X t st) = tm_thread st" "tm_closed (deliver X t st) = tm_closed st"
  "tm_pend (deliver X t st) = tm_pend st" "tm_pc (deliver X t st) = tm_pc st"
  "tm_runs (deliver X t st) = tm_runs st" "tm_current (deliver X t st) = Some t"
  "tm_loop (deliver X t st) = LResume \<or> tm_loop (deliver X t st) = tm_loop st"
  by (auto simp: deliver_def split: prod.splits option.splits)

lemma old_simps [task_simps]:
  "tm_oldh (stop_begin X t k st) = tm_oldh st" "tm_oldr (stop_begin X t k st) = tm_oldr st"
  "tm_oldh (async_begin X t st) = tm_oldh st" "tm_oldr (async_begin X t st) = tm_oldr st"
  "tm_oldh (sync_begin X t st) = tm_oldh st" "tm_oldr (sync_begin X t st) = tm_oldr st"
  "tm_oldh (sync_end X t st) = tm_oldh st" "tm_oldr (sync_end X t st) = tm_oldr st"
  "tm_oldh (on_task t f st) = tm_oldh st" "tm_oldr (on_task t f st) = tm_oldr st"
  "tm_oldh (emu_stopped c st) = tm_oldh st" "tm_oldr (emu_stopped c st) = tm_oldr st"
  "tm_oldh (sync_panic t c st) = tm_oldh st" "tm_oldr (sync_panic t c st) = tm_oldr st"
  "tm_oldh (deliver X t st) = tm_oldh st" "tm_oldr (deliver X t st) = tm_oldr st"
  by (auto simp: stop_begin_def async_begin_def sync_begin_def sync_end_def on_task_def emu_stopped_def
      sync_panic_def deliver_def Let_def split: prod.splits option.splits)

end
