(* ===== verification/TaskProps.thy ===== *)
theory TaskProps
  imports TaskSteps
begin

text \<open>
  What the channels of the task manager guarantee in every reachable state: the emulator's thread and
  \<^verbatim>\<open>loop\<close> hand over in step, a task has no more owners than it was given runs, the registers of the
  emulator are those of the task that is let run, and closing the manager never leaves the emulator's
  thread waiting. Then what two calls of \<^verbatim>\<open>Run\<close> and a panic in a synchronous callback do.
\<close>

section \<open>Handing over\<close>

definition handed_over :: "('c, 'e) tm \<Rightarrow> bool" where
  "handed_over st \<longleftrightarrow>
     ((tm_loop st = LWait \<or> tm_loop st = LResume) \<longleftrightarrow> (tm_thread st = EPark \<or> is_ESend (tm_thread st)))"

text \<open>The task whose stop the thread of the emulator is handling.\<close>

fun stop_of :: "emu_pc \<Rightarrow> nat option" where
  "stop_of (ESuspend call t) = Some t"
| "stop_of (ESync t) = Some t"
| "stop_of _ = None"

definition stops_current :: "('c, 'e) tm \<Rightarrow> bool" where
  "stops_current st \<longleftrightarrow>
     (stop_of (tm_thread st) \<noteq> None \<longrightarrow> stop_of (tm_thread st) = tm_current st) \<and>
     (tm_thread st \<noteq> EStopped \<longrightarrow> tm_current st \<noteq> None)"

lemma handed_over_step:
  assumes "tm_step X holds st st'" "handed_over st"
  shows "handed_over st'"
  using assms
proof (cases rule: tm_step.cases)
  case (s_async t)
  then show ?thesis using assms(2) async_begin_simps [of X t st] by (auto simp: moves handed_over_def)
next
  case (s_sync t)
  then show ?thesis using assms(2) sync_begin_simps [of X t st] by (auto simp: moves handed_over_def)
next
  case (s_sync_end t)
  then show ?thesis using assms(2) sync_end_simps [of X t st] by (auto simp: moves handed_over_def)
next
  case (s_dispatch_pend t)
  then show ?thesis
    using assms(2) deliver_simps(1,7) [of X t "run_pended t st"] by (auto simp: moves handed_over_def)
next
  case (s_dispatch_run t)
  then show ?thesis
    using assms(2) deliver_simps(1,7) [of X t "reran t st"] by (auto simp: moves handed_over_def)
next
  case s_old_dispatch
  then show ?thesis
    using assms(2) deliver_simps(1,7) [of X 0 "old_run_ended st"] by (auto simp: moves handed_over_def)
qed (auto simp: moves handed_over_def task_simps)

lemma stops_current_step:
  assumes "tm_step X holds st st'" "handed_over st" "stops_current st"
  shows "stops_current st'"
  using assms(1)
proof (cases rule: tm_step.cases)
  case (s_async t)
  then show ?thesis using assms(3) async_begin_simps [of X t st] by (auto simp: moves stops_current_def)
next
  case (s_sync t)
  then show ?thesis using assms(3) sync_begin_simps [of X t st] by (auto simp: moves stops_current_def)
next
  case (s_sync_end t)
  then show ?thesis using assms(3) sync_end_simps [of X t st] by (auto simp: moves stops_current_def)
next
  case (s_dispatch_pend t)
  then have "stop_of (tm_thread st) = None" using assms(2) by (cases "tm_thread st") (auto simp: moves handed_over_def)
  then show ?thesis using s_dispatch_pend assms(3) by (auto simp: moves stops_current_def task_simps)
next
  case (s_dispatch_run t)
  then have "stop_of (tm_thread st) = None" using assms(2) by (cases "tm_thread st") (auto simp: moves handed_over_def)
  then show ?thesis using s_dispatch_run assms(3) by (auto simp: moves stops_current_def task_simps)
next
  case s_old_dispatch
  then have "stop_of (tm_thread st) = None" using assms(2) by (cases "tm_thread st") (auto simp: moves handed_over_def)
  then show ?thesis using s_old_dispatch assms(3) by (auto simp: moves stops_current_def task_simps)
qed (use assms(3) in \<open>auto simp: moves stops_current_def task_simps split: if_splits\<close>)

lemma reach_handed_over:
  assumes "tm_reach X holds st"
  shows "handed_over st \<and> stops_current st"
  using assms
proof (induction rule: tm_reach.induct)
  case (r_init st)
  then show ?case by (auto simp: moves tm_init_def handed_over_def stops_current_def)
next
  case (r_step st st')
  then show ?case using handed_over_step stops_current_step by blast
qed

section \<open>Owners of a task\<close>

text \<open>
  \<open>emu_has st t\<close>: the emulator runs task \<open>t\<close>, or is about to, or has just stopped in it. \<open>owners\<close>
  counts the goroutines that hold the task: those \<^verbatim>\<open>Run\<close> started, the task's own, the emulator's, and
  for the main task those of its earlier lives.
\<close>

definition emu_has :: "('c, 'e) tm \<Rightarrow> nat \<Rightarrow> bool" where
  "emu_has st t \<longleftrightarrow> tm_current st = Some t \<and> tm_thread st \<noteq> EStopped \<and>
     (tm_thread st = EPark \<or> is_ESend (tm_thread st) \<longrightarrow> tm_loop st = LResume)"

definition owners :: "('c, 'e) tm \<Rightarrow> nat \<Rightarrow> nat" where
  "owners st t = tm_pend st t + (if tm_pc st t = RHandle \<or> tm_pc st t = RRun then 1 else 0)
     + (if tm_thread st = ESend t then 1 else 0) + (if emu_has st t then 1 else 0)
     + (if t = 0 then tm_oldh st + tm_oldr st else 0)"

lemma handed_over_LWait:
  "handed_over st \<Longrightarrow> tm_loop st = LWait \<Longrightarrow> tm_thread st = EPark \<or> is_ESend (tm_thread st)"
  by (simp add: handed_over_def)

lemma deliver_owners:
  assumes "handed_over st" "tm_loop st = LWait"
  shows "owners (deliver X t st) u \<le> owners st u + (if u = t then 1 else 0)"
  using handed_over_LWait [OF assms] deliver_simps [of X t st] assms(2)
  by (auto simp: moves old_simps owners_def emu_has_def)

text \<open>No step but a successful \<^verbatim>\<open>Run\<close> adds an owner.\<close>

lemma owners_step:
  assumes "tm_step X holds st st'" "handed_over st" "stops_current st" "\<not> tm_closed st"
  shows "owners st' u + tm_runs st u \<le> owners st u + tm_runs st' u"
  using assms(1)
proof (cases rule: tm_step.cases)
  case (s_async t)
  obtain b where "tm_thread (async_begin X t st) = ESuspend b t" using async_begin_simps(8) by blast
  with s_async show ?thesis by (simp add: owners_def emu_has_def async_begin_simps(1-7) old_simps)
next
  case (s_sync t)
  from sync_begin_simps(8) [of X t st]
  have "tm_thread (sync_begin X t st) \<noteq> EStopped" "tm_thread (sync_begin X t st) \<noteq> EPark"
    "\<not> is_ESend (tm_thread (sync_begin X t st))" "tm_thread (sync_begin X t st) \<noteq> ESend u" by auto
  with s_sync show ?thesis by (simp add: owners_def emu_has_def sync_begin_simps(1-7) old_simps)
next
  case (s_sync_end t)
  from sync_end_simps(7) [of X t st]
  have "tm_thread (sync_end X t st) \<noteq> EStopped" "tm_thread (sync_end X t st) \<noteq> EPark"
    "\<not> is_ESend (tm_thread (sync_end X t st))" "tm_thread (sync_end X t st) \<noteq> ESend u" by auto
  with s_sync_end show ?thesis by (simp add: owners_def emu_has_def sync_end_simps(1-6) old_simps)
next
  case (s_dispatch_pend t)
  then show ?thesis
    using deliver_owners [of "run_pended t st" X t u] assms(2)
    by (auto simp: moves owners_def emu_has_def handed_over_def task_simps split: if_splits)
next
  case (s_dispatch_run t)
  then show ?thesis
    using deliver_owners [of "reran t st" X t u] assms(2)
    by (auto simp: moves owners_def emu_has_def handed_over_def task_simps split: if_splits)
next
  case s_old_dispatch
  then show ?thesis
    using deliver_owners [of "old_run_ended st" X 0 u] assms(2)
    by (auto simp: moves owners_def emu_has_def handed_over_def task_simps split: if_splits)
next
  case (s_suspend call t)
  then show ?thesis using assms(3) by (auto simp: moves owners_def emu_has_def stops_current_def)
next
  case (s_get_main sp)
  then show ?thesis by (cases "tm_pc st 0") (auto simp: main_gotten_def owners_def emu_has_def)
next
  case (s_handled t)
  then show ?thesis by (cases "t = 0"; cases "u = t") (simp_all add: handled_def owners_def emu_has_def)
qed (use assms(4) in \<open>auto simp: moves owners_def emu_has_def task_simps split: if_splits\<close>)

lemma reach_owners:
  assumes "tm_reach X holds st"
  shows "\<not> tm_closed st \<longrightarrow> (\<forall>t. owners st t \<le> tm_runs st t)"
  using assms
proof (induction rule: tm_reach.induct)
  case (r_init st)
  then show ?case by (auto simp: moves tm_init_def owners_def emu_has_def)
next
  case (r_step st st')
  have "tm_closed st'" if "tm_closed st"
    using r_step(2) that by (cases rule: tm_step.cases) (auto simp: moves task_simps)
  moreover have "owners st' t \<le> tm_runs st' t" if "\<not> tm_closed st" "owners st t \<le> tm_runs st t" for t
    using owners_step [OF r_step(2) _ _ that(1), of t] reach_handed_over [OF r_step(1)] that(2) by simp
  ultimately show ?case using r_step(3) by blast
qed

section \<open>The registers of the emulator\<close>

text \<open>What a context of the emulator is relied on for: saved, it holds the emulator's registers; restored, the emulator holds its.\<close>

definition context_laws :: "('c, 'e) ctx_ops \<Rightarrow> ('c \<Rightarrow> 'e \<Rightarrow> bool) \<Rightarrow> bool" where
  "context_laws X holds \<longleftrightarrow>
     (\<forall>c e c'. XSave X c e = (None, c') \<longrightarrow> holds c' e) \<and>
     (\<forall>c e e'. XRestore X c e = (None, e') \<longrightarrow> holds c e')"

text \<open>The registers of the current task, while the emulator stands still.\<close>

definition regs_ok :: "('c \<Rightarrow> 'e \<Rightarrow> bool) \<Rightarrow> 'c runner \<Rightarrow> 'e \<Rightarrow> bool" where
  "regs_ok holds r e \<longleftrightarrow> holds (TcRegs (rn_tc r)) e \<or> rn_change r \<or> rn_status r \<ge> TaskStatus_Done"

definition at_rest :: "('c, 'e) tm \<Rightarrow> bool" where
  "at_rest st \<longleftrightarrow> tm_loop st = LWait \<or> tm_loop st = LResume \<or> (\<exists>call t. tm_thread st = ESuspend call t)"

definition regs_inv :: "('c \<Rightarrow> 'e \<Rightarrow> bool) \<Rightarrow> ('c, 'e) tm \<Rightarrow> bool" where
  "regs_inv holds st \<longleftrightarrow>
     (at_rest st \<longrightarrow> (\<forall>t. tm_current st = Some t \<longrightarrow> regs_ok holds (tm_rs st t) (tm_emu st)))"

lemma regs_ok_cancel [simp]: "regs_ok holds (CancelCause c r) e"
  by (simp add: regs_ok_def cancel_simps)

lemma regs_ok_regwrite [simp]: "regs_ok holds (snd (runner_RegWrite X g x r)) e"
  by (simp add: regs_ok_def regwrite_simps)

lemma regs_ok_cancel_ctx [simp]: "regs_ok holds (cancel_ctx c r) e = regs_ok holds r e"
  by (simp add: regs_ok_def cancel_simps)

lemma regs_ok_close [simp]: "regs_ok holds (updateStatus k (CancelCause c r)) e"
  by (simp add: regs_ok_def cancel_simps updateStatus_simps le_max_iff_disj)

lemma regs_ok_reset [simp]: "regs_ok holds (main_reset X sp r) e"
  by (simp add: regs_ok_def main_reset_def)

lemma regs_ok_restore:
  assumes "context_laws X holds" "contextRestore X r e = (None, r', e')"
  shows "regs_ok holds r' e'"
  using assms by (auto simp: moves regs_ok_def contextRestore_def context_laws_def split: prod.splits)

lemma regs_ok_save:
  assumes "context_laws X holds" "contextSave X e r = (None, r')"
  shows "regs_ok holds r' e"
  using assms by (auto simp: moves regs_ok_def contextSave_def context_laws_def Let_def split: prod.splits)

lemma deliver_regs:
  assumes "context_laws X holds" "tm_current st = Some t \<longrightarrow> regs_ok holds (tm_rs st t) (tm_emu st)"
  shows "regs_ok holds (tm_rs (deliver X t st) t) (tm_emu (deliver X t st))"
  using assms regs_ok_restore [OF assms(1)]
  by (auto simp: moves deliver_def split: prod.splits option.splits)

lemma stop_begin_regs:
  assumes "context_laws X holds" "tm_thread (stop_begin X t k st) = ESuspend b t"
  shows "regs_ok holds (tm_rs (stop_begin X t k st) t) (tm_emu st)"
  using assms regs_ok_save [OF assms(1)]
  by (auto simp: moves stop_begin_def regs_ok_def [of _ "tm_rs st t"] split: prod.splits option.splits if_splits)

lemma sync_end_regs:
  assumes "tm_thread (sync_end X t st) = ESuspend b t"
  shows "regs_ok holds (tm_rs (sync_end X t st) t) (tm_emu (sync_end X t st))"
  using assms by (auto simp: moves sync_end_def Let_def regs_ok_def [of _ "tm_rs st t"] split: prod.splits option.splits if_splits)

text \<open>
  Only the thread of the emulator changes its registers, and while it stands still only \<^verbatim>\<open>loop\<close> does,
  for the task it makes the current one.
\<close>

lemma regs_inv_step:
  assumes "tm_step X holds st st'" "context_laws X holds" "handed_over st" "stops_current st" "regs_inv holds st"
  shows "regs_inv holds st'"
  using assms(1)
proof (cases rule: tm_step.cases)
  case (s_async t)
  then have "at_rest st' \<longrightarrow> (\<exists>b. tm_thread st' = ESuspend b t)" 
    using async_begin_simps [of X t st] by (auto simp: moves at_rest_def)
  then show ?thesis
    using s_async stop_begin_regs [OF assms(2), where t = t and k = "ESuspend True t" and st = st]
    by (auto simp: moves regs_inv_def async_begin_def stop_begin_simps)
next
  case (s_sync t)
  then have "at_rest st' \<Longrightarrow> sync_begin X t st = stop_begin X t (ESync t) st \<and> tm_thread st' = ESuspend False t"
    using sync_begin_simps [of X t st] assms(3)
    by (auto simp: moves at_rest_def handed_over_def sync_begin_def Let_def)
  then show ?thesis
    using s_sync stop_begin_regs [OF assms(2), where t = t and k = "ESync t" and st = st and b = False]
    by (auto simp: moves regs_inv_def stop_begin_simps)
next
  case (s_sync_end t)
  then have "at_rest st' \<Longrightarrow> tm_thread st' = ESuspend False t" "tm_current st = Some t"
    using sync_end_simps [of X t st] assms(3,4) by (auto simp: moves at_rest_def handed_over_def stops_current_def)
  then show ?thesis
    using s_sync_end sync_end_regs [where X = X and t = t and st = st and b = False and holds = holds] by (auto simp: moves regs_inv_def sync_end_simps)
next
  case (s_dispatch_pend t)
  then show ?thesis
    using deliver_regs [OF assms(2), where t = t and st = "run_pended t st"] assms(5)
    by (auto simp: moves regs_inv_def task_simps at_rest_def)
next
  case (s_dispatch_run t)
  then show ?thesis
    using deliver_regs [OF assms(2), where t = t and st = "reran t st"] assms(5)
    by (auto simp: moves regs_inv_def task_simps at_rest_def)
next
  case s_old_dispatch
  then show ?thesis
    using deliver_regs [OF assms(2), where t = 0 and st = "old_run_ended st"] assms(5)
    by (auto simp: moves regs_inv_def task_simps at_rest_def)
next
  case (s_guest e)
  then show ?thesis using assms(3) by (auto simp: moves regs_inv_def at_rest_def handed_over_def)
next
  case (s_sync_panic t c)
  then show ?thesis using assms(3) by (auto simp: moves regs_inv_def at_rest_def handed_over_def task_simps)
next
  case (s_exec e)
  then show ?thesis using assms(5) by (simp add: moves regs_inv_def at_rest_def regs_ok_def)
next
  case (s_suspend call t)
  then show ?thesis using assms(4,5) by (auto simp: moves regs_inv_def at_rest_def)
qed (use assms(3,5) in \<open>auto simp: moves regs_inv_def at_rest_def handed_over_def task_simps split: if_splits\<close>)

lemma reach_regs:
  assumes "tm_reach X holds st" "context_laws X holds"
  shows "regs_inv holds st"
  using assms(1)
proof (induction rule: tm_reach.induct)
  case (r_init st)
  then show ?case by (auto simp: moves tm_init_def regs_inv_def at_rest_def)
next
  case (r_step st st')
  then show ?case using regs_inv_step [OF r_step(2) assms(2)] reach_handed_over [OF r_step(1)] by blast
qed

section \<open>Ends of tasks\<close>

definition task_le :: "'c runner \<Rightarrow> 'c runner \<Rightarrow> bool" where
  "task_le r r' \<longleftrightarrow> rn_status r \<le> rn_status r' \<and> (rn_cause r \<noteq> None \<longrightarrow> rn_cause r' = rn_cause r)"

lemma task_le_refl [simp]: "task_le r r"
  by (simp add: task_le_def)

lemma task_le_trans: "task_le r s \<Longrightarrow> task_le s t \<Longrightarrow> task_le r t"
  by (auto simp: moves task_le_def)

lemma task_le_ops [simp]:
  "task_le r (CancelCause c r)" "task_le r (cancel_ctx c r)"
  "task_le r (updateStatus k (CancelCause c r))" "task_le r (snd (runner_RegWrite X g x r))"
  "task_le r (snd (contextSave X e r))" "task_le r (fst (snd (contextRestore X r e)))"
  by (auto simp: moves task_le_def CancelCause_def cancel_ctx_def updateStatus_def runner_RegWrite_def
      contextSave_def contextRestore_def Let_def split: prod.splits)

lemma task_le_sequence:
  "contextRestore X r e = (err, r', e') \<Longrightarrow> task_le r r' \<and> task_le r (CancelCause c r')"
  "contextSave X e r = (err, r') \<Longrightarrow> task_le r r' \<and> task_le r (CancelCause c r')"
  using task_le_ops(5) [of r X e] task_le_ops(6) [of r X e] task_le_trans task_le_ops(1) [of r' c]
  by (metis fst_conv snd_conv)+

lemma deliver_le: "task_le (tm_rs st u) (tm_rs (deliver X t st) u)"
  by (auto simp: moves deliver_def task_le_sequence split: prod.splits option.splits)

lemma stop_begin_le: "task_le (tm_rs st u) (tm_rs (stop_begin X t k st) u)"
  by (auto simp: moves stop_begin_def task_le_sequence split: prod.splits option.splits)

lemma sync_end_le: "task_le (tm_rs st u) (tm_rs (sync_end X t st) u)"
  by (auto simp: moves sync_end_def Let_def task_le_sequence split: prod.splits option.splits)

text \<open>A goroutine of a task ends only once the task is over.\<close>

definition exits_done :: "('c, 'e) tm \<Rightarrow> bool" where
  "exits_done st \<longleftrightarrow> (\<forall>t. tm_pc st t = RExit \<longrightarrow> rn_cause (tm_rs st t) \<noteq> None)"

text \<open>The main task starts anew when it is closed and obtained again.\<close>

definition begins_anew :: "('c, 'e) ctx_ops \<Rightarrow> nat \<Rightarrow> ('c, 'e) tm \<Rightarrow> ('c, 'e) tm \<Rightarrow> bool" where
  "begins_anew X t st st' \<longleftrightarrow> t = 0 \<and> rn_status (tm_rs st t) = TaskStatus_Close \<and>
     (\<exists>sp. st' = main_gotten X sp st) \<and> rn_status (tm_rs st' t) = TaskStatus_Pending \<and>
     rn_cause (tm_rs st' t) = None \<and> tm_pc st' t = RIdle"

lemma step_le:
  assumes "tm_step X holds st st'"
  shows "task_le (tm_rs st t) (tm_rs st' t) \<or> begins_anew X t st st'"
  using assms
proof (cases rule: tm_step.cases)
  case (s_dispatch_pend u)
  then show ?thesis using deliver_le [of "run_pended u st" t X u] by (simp add: moves)
next
  case (s_dispatch_run u)
  then show ?thesis using deliver_le [of "reran u st" t X u] by (simp add: moves)
next
  case s_old_dispatch
  then show ?thesis using deliver_le [of "old_run_ended st" t X 0] by (simp add: moves)
next
  case (s_get_main sp)
  then show ?thesis by (cases "t = 0") (auto simp: begins_anew_def main_gotten_def main_reset_def)
next
  case (s_sync u)
  then show ?thesis using stop_begin_le [of st t X u "ESync u"] by (auto simp: moves sync_begin_def Let_def)
qed (auto simp: moves async_begin_def stop_begin_le sync_end_le emu_stopped_def sync_panic_def on_task_simps
    split: option.splits)

lemma reach_exits_done:
  assumes "tm_reach X holds st"
  shows "exits_done st"
  using assms
proof (induction rule: tm_reach.induct)
  case (r_init st)
  then show ?case by (auto simp: moves tm_init_def exits_done_def)
next
  case (r_step st st')
  have exit: "tm_pc st' t = RExit \<Longrightarrow> tm_pc st t = RExit \<or> rn_cause (tm_rs st t) \<noteq> None" for t
    using r_step(2) by (cases rule: tm_step.cases) (auto simp: moves task_simps split: if_splits)
  show ?case
    unfolding exits_done_def
  proof (intro allI impI)
    fix t
    assume e: "tm_pc st' t = RExit"
    then have "rn_cause (tm_rs st t) \<noteq> None" using exit [OF e] r_step(3) by (auto simp: exits_done_def)
    with step_le [OF r_step(2), of t] e show "rn_cause (tm_rs st' t) \<noteq> None"
      by (auto simp: task_le_def begins_anew_def)
  qed
qed

section \<open>Shutting down\<close>

text \<open>What happens after the manager is closed, as far as the manager itself brings it about.\<close>

abbreviation tm_steps :: "('c, 'e) ctx_ops \<Rightarrow> ('c \<Rightarrow> 'e \<Rightarrow> bool) \<Rightarrow> ('c, 'e) tm \<Rightarrow> ('c, 'e) tm \<Rightarrow> bool" where
  "tm_steps X holds \<equiv> (tm_step X holds)\<^sup>*\<^sup>*"

definition shut :: "('c, 'e) tm \<Rightarrow> bool" where
  "shut st \<longleftrightarrow> tm_loop st = LExit \<and> (tm_thread st = ERun \<or> tm_thread st = EStopped)"

definition can_shut :: "('c, 'e) ctx_ops \<Rightarrow> ('c \<Rightarrow> 'e \<Rightarrow> bool) \<Rightarrow> ('c, 'e) tm \<Rightarrow> bool" where
  "can_shut X holds st \<longleftrightarrow> (\<exists>st'. tm_steps X holds st st' \<and> shut st')"

lemma can_shut_step: "tm_step X holds st st' \<Longrightarrow> can_shut X holds st' \<Longrightarrow> can_shut X holds st"
  unfolding can_shut_def by (meson converse_rtranclp_into_rtranclp)

lemma can_shut_run:
  assumes "tm_closed st" "handed_over st" "tm_thread st = ERun \<or> tm_thread st = EStopped"
  shows "can_shut X holds st"
proof (cases "tm_loop st = LExit")
  case True
  then show ?thesis using assms(3) by (auto simp: moves can_shut_def shut_def)
next
  case False
  then have "tm_loop st = LIdle" using assms by (cases "tm_loop st") (auto simp: moves handed_over_def)
  then have "tm_step X holds st (st\<lparr>tm_loop := LExit\<rparr>)" using assms(1) by (rule s_loop_exit)
  moreover have "shut (st\<lparr>tm_loop := LExit\<rparr>)" using assms(3) by (simp add: shut_def)
  ultimately show ?thesis by (auto simp: moves can_shut_def)
qed

lemma can_shut_resume:
  assumes "tm_closed st" "handed_over st" "tm_thread st = EPark" "tm_loop st = LResume"
  shows "can_shut X holds st"
proof (rule can_shut_step)
  show step: "tm_step X holds st (resumed st)" using assms(3,4) by (rule s_resume)
  show "can_shut X holds (resumed st)"
    using assms handed_over_step [OF step] by (intro can_shut_run) (auto simp: moves)
qed

lemma can_shut_park:
  assumes "tm_closed st" "handed_over st" "tm_thread st = EPark"
  shows "can_shut X holds st"
proof (cases "tm_loop st = LResume")
  case True
  then show ?thesis using assms can_shut_resume by blast
next
  case False
  then have "tm_loop st = LWait" using assms by (auto simp: moves handed_over_def)
  then have step: "tm_step X holds st (st\<lparr>tm_loop := LResume\<rparr>)" using assms(1) by (rule s_loop_closed)
  show ?thesis
    by (rule can_shut_step [OF step], rule can_shut_resume) (use assms handed_over_step [OF step] in auto)
qed

text \<open>A callback being sent is taken once the task's goroutine is ready, or dropped if the task is over.\<close>

lemma can_shut_send:
  assumes "tm_closed st" "handed_over st" "exits_done st" "tm_thread st = ESend t" "tm_pc st t \<noteq> RHandle"
  shows "can_shut X holds st"
proof -
  have idle: "can_shut X holds st"
    if "tm_closed st" "handed_over st" "tm_thread st = ESend t" "tm_pc st t = RIdle" for st
  proof -
    have step: "tm_step X holds st (received t st)"
      using that(3,4) by (rule s_send)
    show ?thesis
      by (rule can_shut_step [OF step], rule can_shut_park) (use that handed_over_step [OF step] in \<open>auto simp: moves\<close>)
  qed
  show ?thesis
  proof (cases "tm_pc st t")
    case RIdle
    then show ?thesis using idle assms by blast
  next
    case RRun
    then have step: "tm_step X holds st (reran t st)"
      using assms(1) by (intro s_rerun_end) auto
    show ?thesis
      by (rule can_shut_step [OF step], rule idle) (use assms handed_over_step [OF step] in \<open>auto simp: moves\<close>)
  next
    case RExit
    then have "rn_cause (tm_rs st t) \<noteq> None" using assms(3) by (auto simp: moves exits_done_def)
    with assms(4) have step: "tm_step X holds st (st\<lparr>tm_thread := EPark\<rparr>)" by (rule s_send_done)
    show ?thesis
      by (rule can_shut_step [OF step], rule can_shut_park) (use assms handed_over_step [OF step] in auto)
  qed (use assms(5) in simp)
qed

lemma can_shut_suspend:
  assumes "tm_closed st" "handed_over st" "tm_thread st = ESuspend call t"
  shows "can_shut X holds st"
proof -
  have step: "tm_step X holds st (st\<lparr>tm_thread := ERun\<rparr>)" using assms(3,1) by (rule s_suspend_closed)
  show ?thesis
    by (rule can_shut_step [OF step], rule can_shut_run) (use assms handed_over_step [OF step] in auto)
qed

lemma can_shut_sync:
  assumes "tm_closed st" "handed_over st" "tm_thread st = ESync t"
  shows "can_shut X holds st"
proof -
  have step: "tm_step X holds st (sync_end X t st)" using assms(3) by (rule s_sync_end)
  have "tm_closed (sync_end X t st)" "handed_over (sync_end X t st)"
    using assms(1) handed_over_step [OF step assms(2)] by (simp_all add: sync_end_simps)
  then have "can_shut X holds (sync_end X t st)"
    using sync_end_simps(7) [of X t st] can_shut_run can_shut_suspend by metis
  with step show ?thesis by (rule can_shut_step)
qed

lemma closed_can_shut:
  assumes "tm_closed st" "handed_over st" "exits_done st" "\<forall>t. tm_thread st = ESend t \<longrightarrow> tm_pc st t \<noteq> RHandle"
  shows "can_shut X holds st"
proof (cases "tm_thread st")
  case (ESuspend call t)
  with assms(1,2) show ?thesis by (rule can_shut_suspend)
next
  case (ESend t)
  then show ?thesis using assms by (intro can_shut_send) auto
next
  case (ESync t)
  with assms(1,2) show ?thesis by (rule can_shut_sync)
next
  case EPark
  with assms(1,2) show ?thesis by (rule can_shut_park)
qed (rule can_shut_run [OF assms(1,2)], simp)+

section \<open>Two calls of Run\<close>

lemma reg_ctx_laws: "context_laws reg_ctx (=)"
  by (simp add: context_laws_def)

definition tm_start :: "(u64, u64) tm" where
  "tm_start = \<lparr>tm_closed = False, tm_current = Some 0, tm_emuerr = False, tm_hasSync = False, tm_emu = 0,
     tm_loop = LIdle, tm_thread = ERun,
     tm_rs = (\<lambda>t. newRunner t \<lparr>TcId = t, TcRegs = 0, TcStack = 0, TcReleases = 2\<rparr>),
     tm_pc = (\<lambda>_. RIdle), tm_pend = (\<lambda>_. 0), tm_runs = (\<lambda>t. if t = 0 then 1 else 0),
     tm_oldh = 0, tm_oldr = 0\<rparr>"

lemma tm_start_reach: "tm_reach reg_ctx (=) tm_start"
  by (rule r_init) (simp add: tm_init_def tm_start_def newRunner_def)

text \<open>
  The emulator stops in task \<open>u\<close> for a hook, whose callback is taken; the task waiting is
  dispatched, and goes on.
\<close>

lemma dispatched:
  assumes "tm_reach reg_ctx (=) st" "tm_thread st = ERun" "tm_loop st = LIdle" "tm_current st = Some u"
    "tm_pc st u = RIdle" "rn_status (tm_rs st u) < TaskStatus_Done" "\<not> tm_emuerr st" "tm_pend st t = Suc n"
  obtains st' where "tm_reach reg_ctx (=) st'" "tm_thread st' = EPark" "tm_loop st' = LResume"
    "tm_current st' = Some t" "tm_pc st' = (tm_pc st)(u := RHandle)" "tm_pend st' = (tm_pend st)(t := n)"
    "tm_runs st' = tm_runs st" "tm_closed st' = tm_closed st" "\<not> tm_emuerr st'"
    "\<forall>v. rn_status (tm_rs st' v) \<le> max (rn_status (tm_rs st v)) TaskStatus_Running"
    "\<not> rn_change (tm_rs st' t)"
proof -
  define a where "a = async_begin reg_ctx u st"
  have a: "tm_thread a = ESuspend True u" "tm_emuerr a = tm_emuerr st"
    "\<forall>v. rn_status (tm_rs a v) \<le> max (rn_status (tm_rs st v)) TaskStatus_Running"
    using assms(6) by (auto simp: moves a_def async_begin_def stop_begin_def contextSave_def updateStatus_def status_defs Let_def)
  note a' = async_begin_simps [of reg_ctx u st, folded a_def]
  have ra: "tm_reach reg_ctx (=) a" unfolding a_def by (rule r_step [OF assms(1) s_async]) (use assms in auto)
  define b where "b = suspended True u a"
  have rb: "tm_reach reg_ctx (=) b"
    using r_step [OF ra s_suspend [OF a(1)]] a' assms(3) by (simp add: b_def moves)
  define c where "c = received u b"
  have rc: "tm_reach reg_ctx (=) c"
    using r_step [OF rb s_send [of b u]] a' assms(5) by (simp add: b_def c_def moves)
  define d where "d = deliver reg_ctx t (run_pended t c)"
  have "tm_reach reg_ctx (=) d"
    using r_step [OF rc s_dispatch_pend [of c t]] a a' assms(7,8) by (simp add: b_def c_def d_def moves)
  moreover have "tm_loop d = LResume" "tm_emuerr d = tm_emuerr st" "\<not> rn_change (tm_rs d t)"
    "\<forall>v. rn_status (tm_rs d v) = rn_status (tm_rs a v)"
    using a(2) by (auto simp: moves moves d_def c_def b_def deliver_def contextRestore_def)
  moreover note deliver_simps [of reg_ctx t "run_pended t c", folded d_def]
  ultimately show thesis
    by (intro that [of d]) (use a a' assms(7,8) in \<open>simp_all add: c_def b_def moves\<close>)
qed

lemma switch:
  assumes "tm_reach reg_ctx (=) st" "tm_thread st = ERun" "tm_loop st = LIdle" "tm_current st = Some u"
    "tm_pc st u = RIdle" "rn_status (tm_rs st u) < TaskStatus_Done" "\<not> tm_emuerr st" "tm_pend st t = Suc n"
  obtains st' where "tm_reach reg_ctx (=) st'" "tm_thread st' = ERun" "tm_loop st' = LIdle"
    "tm_current st' = Some t" "tm_pc st' = (tm_pc st)(u := RHandle)" "tm_pend st' = (tm_pend st)(t := n)"
    "tm_runs st' = tm_runs st" "tm_closed st' = tm_closed st" "\<not> tm_emuerr st'"
    "\<forall>v. rn_status (tm_rs st' v) \<le> max (rn_status (tm_rs st v)) TaskStatus_Running"
proof -
  obtain d where d: "tm_reach reg_ctx (=) d" "tm_thread d = EPark" "tm_loop d = LResume"
    "tm_current d = Some t" "tm_pc d = (tm_pc st)(u := RHandle)" "tm_pend d = (tm_pend st)(t := n)"
    "tm_runs d = tm_runs st" "tm_closed d = tm_closed st" "\<not> tm_emuerr d"
    "\<forall>v. rn_status (tm_rs d v) \<le> max (rn_status (tm_rs st v)) TaskStatus_Running"
    using assms by (rule dispatched)
  show thesis
    by (rule that [of "resumed d"]) (use d r_step [OF d(1) s_resume [of d]] in \<open>simp_all add: moves\<close>)
qed

lemma start_run:
  "tm_reach reg_ctx (=) st \<Longrightarrow> rn_status (tm_rs st t) = TaskStatus_Pending \<Longrightarrow>
     tm_reach reg_ctx (=) (run_started t st)"
  by (rule r_step [OF _ s_run]) (simp_all add: runner_Run_def)

text \<open>
  Task 1 has been run once; it is dispatched, and then what the emulator runs, while the main task
  handles its hook.
\<close>

definition tm_ran :: "(u64, u64) tm" where
  "tm_ran = run_started 1 tm_start"

lemma tm_ran_reach: "tm_reach reg_ctx (=) tm_ran"
  using start_run [OF tm_start_reach, of 1] by (simp add: tm_start_def newRunner_def tm_ran_def)

lemmas tm_ran_defs = moves tm_ran_def tm_start_def newRunner_def status_defs

lemma one_dispatched:
  obtains st where "tm_reach reg_ctx (=) st" "\<not> tm_closed st" "tm_thread st = EPark" "tm_loop st = LResume"
    "tm_current st = Some 1" "\<not> rn_change (tm_rs st 1)" "rn_status (tm_rs st 1) < TaskStatus_Done"
proof -
  obtain st where "tm_reach reg_ctx (=) st" "tm_thread st = EPark" "tm_loop st = LResume" "tm_current st = Some 1"
    "tm_closed st = tm_closed tm_ran" "\<not> rn_change (tm_rs st 1)"
    "\<forall>v. rn_status (tm_rs st v) \<le> max (rn_status (tm_rs tm_ran v)) TaskStatus_Running"
    using tm_ran_reach by (rule dispatched [of tm_ran 0 1 0]) (simp_all add: tm_ran_defs)
  moreover from spec [OF this(7), of 1] have "rn_status (tm_rs st 1) < TaskStatus_Done" by (simp add: tm_ran_defs)
  ultimately show thesis by (intro that [of st]) (simp_all add: tm_ran_defs)
qed

lemma one_run:
  obtains st where "tm_reach reg_ctx (=) st" "\<not> tm_closed st" "tm_thread st = ERun" "tm_loop st = LIdle"
    "tm_current st = Some 1" "tm_runs st 1 = 1" "tm_pc st 0 = RHandle"
proof -
  obtain st where "tm_reach reg_ctx (=) st" "tm_thread st = ERun" "tm_loop st = LIdle" "tm_current st = Some 1"
    "tm_pc st = (tm_pc tm_ran)(0 := RHandle)" "tm_runs st = tm_runs tm_ran" "tm_closed st = tm_closed tm_ran"
    using tm_ran_reach by (rule switch [of tm_ran 0 1 0]) (simp_all add: tm_ran_defs)
  then show thesis by (intro that [of st]) (simp_all add: tm_ran_defs)
qed

text \<open>Run twice before it starts, it is run by the emulator while it handles a hook itself.\<close>

lemma two_runs:
  obtains st where "tm_reach reg_ctx (=) st" "\<not> tm_closed st" "tm_thread st = ERun"
    "tm_current st = Some 1" "tm_runs st 1 = 2" "tm_pc st 1 = RHandle"
proof -
  define s where "s = run_started 1 tm_ran"
  have "tm_reach reg_ctx (=) s"
    using start_run [OF tm_ran_reach, of 1] by (simp add: tm_ran_defs s_def numeral_2_eq_2)
  then obtain st where st: "tm_reach reg_ctx (=) st" "tm_thread st = ERun" "tm_loop st = LIdle"
    "tm_current st = Some 1" "tm_pc st = (tm_pc s)(0 := RHandle)" "tm_pend st = (tm_pend s)(1 := 1)"
    "tm_runs st = tm_runs s" "tm_closed st = tm_closed s" "\<not> tm_emuerr st"
    "\<forall>v. rn_status (tm_rs st v) \<le> max (rn_status (tm_rs s v)) TaskStatus_Running"
    by (rule switch [of s 0 1 1]) (simp_all add: s_def tm_ran_defs)
  have "rn_status (tm_rs st 1) < TaskStatus_Done"
    using spec [OF st(10), of 1] by (simp add: s_def tm_ran_defs)
  with st obtain st' where "tm_reach reg_ctx (=) st'" "tm_thread st' = ERun" "tm_current st' = Some 1"
    "tm_pc st' = (tm_pc st)(1 := RHandle)" "tm_runs st' = tm_runs st" "tm_closed st' = tm_closed st"
    by (rule_tac switch [of st 1 1 0]) (simp_all add: s_def tm_ran_defs)
  with st show thesis by (intro that [of st']) (simp_all add: s_def tm_ran_defs)
qed

section \<open>Properties\<close>

text \<open>C6: The thread of the emulator and the goroutine of \<^verbatim>\<open>loop\<close> hand over to each other in step: in every reachable state \<^verbatim>\<open>loop\<close> waits for a task to dispatch, or waits to let the emulator go on, exactly when the emulator's thread is parked in \<^verbatim>\<open>resumeTask\<close> or handing a callback to its task; and the stop being handled is always one of the current task.\<close>

theorem suspend_resume_in_step:
  assumes "tm_reach X holds st"
  shows "(tm_loop st = LWait \<or> tm_loop st = LResume) =
           (tm_thread st = EPark \<or> (\<exists>t. tm_thread st = ESend t)) \<and>
         (tm_thread st = ESuspend call t \<or> tm_thread st = ESync t \<longrightarrow> tm_current st = Some t)"
  using reach_handed_over [OF assms] by (auto simp: moves handed_over_def stops_current_def is_ESend_def)

theorem suspend_resume_in_step_witness:
  "\<exists>st. tm_reach reg_ctx (=) st \<and> tm_thread st = EPark \<and> (tm_loop st = LWait \<or> tm_loop st = LResume)"
proof -
  obtain st where st: "tm_reach reg_ctx (=) st" "\<not> tm_closed st" "tm_thread st = EPark" "tm_loop st = LResume"
    "tm_current st = Some 1" "\<not> rn_change (tm_rs st 1)" "rn_status (tm_rs st 1) < TaskStatus_Done"
    by (rule one_dispatched)
  then show ?thesis using suspend_resume_in_step [OF st(1)] by blast
qed

text \<open>C7: While the manager is open, a task has no more owners than \<^verbatim>\<open>Run\<close> has been called successfully for it; so a task that was run once is never run by the emulator while its callback runs, is being sent to it, or waits to be dispatched.\<close>

theorem one_owner_per_run:
  assumes "tm_reach X holds st" "\<not> tm_closed st"
  shows "owners st t \<le> tm_runs st t \<and>
    (tm_runs st t = 1 \<longrightarrow> tm_current st = Some t \<longrightarrow> tm_thread st = ERun \<longrightarrow>
       tm_pend st t = 0 \<and> tm_pc st t \<noteq> RHandle \<and> tm_pc st t \<noteq> RRun \<and>
       (t = 0 \<longrightarrow> tm_oldh st = 0 \<and> tm_oldr st = 0))"
proof -
  have "owners st t \<le> tm_runs st t" using reach_owners [OF assms(1)] assms(2) by blast
  moreover from this have "tm_pend st t = 0 \<and> tm_pc st t \<noteq> RHandle \<and> tm_pc st t \<noteq> RRun \<and>
      (t = 0 \<longrightarrow> tm_oldh st = 0 \<and> tm_oldr st = 0)"
    if "tm_runs st t = 1" "tm_current st = Some t" "tm_thread st = ERun"
    using that by (auto simp: moves owners_def emu_has_def split: if_splits)
  ultimately show ?thesis by blast
qed

theorem one_owner_per_run_witness:
  "\<exists>st. tm_reach reg_ctx (=) st \<and> tm_pc st 0 = RHandle \<and> tm_current st = Some 1 \<and> tm_pc st 1 \<noteq> RHandle"
proof -
  obtain st where st: "tm_reach reg_ctx (=) st" "\<not> tm_closed st" "tm_thread st = ERun" "tm_loop st = LIdle"
    "tm_current st = Some 1" "tm_runs st 1 = 1" "tm_pc st 0 = RHandle" by (rule one_run)
  then show ?thesis using one_owner_per_run [OF st(1,2), of 1] by auto
qed

text \<open>C5: When \<^verbatim>\<open>loop\<close> lets the emulator go on, the emulator holds the saved registers of the current task, although \<^verbatim>\<open>loop\<close> restores them only for another task or after a write: otherwise the task's registers have been written since, or the task is over. It rests on a saved context holding the emulator's registers, and on a restored one being held by it.\<close>

theorem dispatch_keeps_registers:
  assumes "context_laws X holds" "tm_reach X holds st" "tm_loop st = LResume" "tm_current st = Some t"
    "\<not> rn_change (tm_rs st t)" "rn_status (tm_rs st t) < TaskStatus_Done"
  shows "holds (TcRegs (rn_tc (tm_rs st t))) (tm_emu st)"
  using reach_regs [OF assms(2,1)] assms(3-6) by (auto simp: moves regs_inv_def at_rest_def regs_ok_def)

theorem dispatch_keeps_registers_witness:
  "\<exists>st. tm_reach reg_ctx (=) st \<and> tm_current st = Some 1 \<and> TcRegs (rn_tc (tm_rs st 1)) = tm_emu st"
proof -
  obtain st where st: "tm_reach reg_ctx (=) st" "\<not> tm_closed st" "tm_thread st = EPark" "tm_loop st = LResume"
    "tm_current st = Some 1" "\<not> rn_change (tm_rs st 1)" "rn_status (tm_rs st 1) < TaskStatus_Done"
    by (rule one_dispatched)
  then show ?thesis using dispatch_keeps_registers [OF reg_ctx_laws st(1,4-7)] by blast
qed

text \<open>C35: A closed manager can always be left: from every reachable closed state in which no callback that is still running keeps the emulator's thread waiting, the goroutines get to a state where \<^verbatim>\<open>loop\<close> has ended and the emulator's thread is not parked.\<close>

theorem closed_manager_ends:
  assumes "tm_reach X holds st" "tm_closed st" "\<forall>t. tm_thread st = ESend t \<longrightarrow> tm_pc st t \<noteq> RHandle"
  shows "\<exists>st'. (tm_step X holds)\<^sup>*\<^sup>* st st' \<and> tm_loop st' = LExit \<and> (tm_thread st' = ERun \<or> tm_thread st' = EStopped)"
  using closed_can_shut [OF assms(2)] reach_handed_over [OF assms(1)] reach_exits_done [OF assms(1)] assms(3)
  by (auto simp: moves can_shut_def shut_def)

theorem closed_manager_ends_witness:
  "\<exists>st st'. tm_thread st = EPark \<and> (tm_step reg_ctx (=))\<^sup>*\<^sup>* st st' \<and> tm_loop st' = LExit"
proof -
  obtain st where st: "tm_reach reg_ctx (=) st" "\<not> tm_closed st" "tm_thread st = EPark" "tm_loop st = LResume"
    "tm_current st = Some 1" "\<not> rn_change (tm_rs st 1)" "rn_status (tm_rs st 1) < TaskStatus_Done"
    by (rule one_dispatched)
  let ?s = "st\<lparr>tm_closed := True\<rparr>"
  from st(3) have park: "tm_thread ?s = EPark" by simp
  with closed_manager_ends [OF r_step [OF st(1) s_close]] show ?thesis by fastforce
qed

text \<open>C36: Whatever step the goroutines and the user make, the status of a task does not go down and the first cause of its end stays, with one exception: the main task, once closed, begins anew when \<^verbatim>\<open>getMainTask\<close> hands it out again. A task's goroutine ends only once the task has ended.\<close>

theorem task_ends_once:
  assumes "tm_reach X holds st" "tm_step X holds st st'"
  shows "(rn_status (tm_rs st t) \<le> rn_status (tm_rs st' t) \<and>
      (rn_cause (tm_rs st t) \<noteq> None \<longrightarrow> rn_cause (tm_rs st' t) = rn_cause (tm_rs st t)) \<or>
      begins_anew X t st st') \<and>
    (tm_pc st t = RExit \<longrightarrow> rn_cause (tm_rs st t) \<noteq> None)"
  using step_le [OF assms(2), of t] reach_exits_done [OF assms(1)] by (auto simp: task_le_def exits_done_def)

theorem task_ends_once_witness:
  "rn_status (tm_rs tm_ran 1) \<le> rn_status (tm_rs (on_task 1 (CancelCause StatusDone) tm_ran) 1)"
  using task_ends_once [OF tm_ran_reach s_cancel, of 1 1 StatusDone] by (simp add: begins_anew_def)

text \<open>C37: \<^verbatim>\<open>Run\<close> refuses a task only once it has been stopped for the first time: called twice before, both calls succeed, and the task is then run by the emulator while the task's own goroutine runs one of its callbacks.\<close>

theorem run_twice_overlaps:
  "\<exists>st. tm_reach reg_ctx (=) st \<and> \<not> tm_closed st \<and> tm_runs st 1 = 2 \<and>
     tm_thread st = ERun \<and> tm_current st = Some 1 \<and> tm_pc st 1 = RHandle"
  using two_runs by blast

end
