(* ===== verification/TaskContexts.thy ===== *)
theory TaskContexts
  imports Task "HOL-Library.Multiset"
begin

text \<open>
  The contexts of the task manager (\<^verbatim>\<open>internal/debugger/task.go\<close>, \<^verbatim>\<open>runner.go\<close>, \<^verbatim>\<open>main.go\<close>) over any
  sequence of operations: which are held by a task, which wait in the pool, which have been freed.
  As long as no task is closed twice, no two tasks ever hold the same context; closing one twice
  gives its context to two tasks.
\<close>

section \<open>Operations\<close>

text \<open>Task 0 is the main task; it keeps its context when it is closed.\<close>

datatype tk_op = TCreate | TFork nat | TClose nat | TMain

definition apply_op ::
  "('c, 'e) ctx_ops \<Rightarrow> reg \<Rightarrow> ('e \<Rightarrow> u64 res \<times> 'e) \<Rightarrow> tk_op \<Rightarrow> ('c, 'e) task_mgr \<Rightarrow> ('c, 'e) task_mgr" where
  "apply_op X sp init_stack op m =
     (case op of
        TCreate \<Rightarrow> snd (createTask X sp init_stack m)
      | TFork i \<Rightarrow> snd (if i = 0 then main_Fork X i m else runner_Fork X i m)
      | TClose i \<Rightarrow> (if i = 0 then main_Close i m else runner_Close i m)
      | TMain \<Rightarrow> snd (getMainTask X sp 0 m))"

text \<open>The operation is on a task that exists, and closes one only if it is not closed yet.\<close>

definition op_ok :: "tk_op \<Rightarrow> ('c, 'e) task_mgr \<Rightarrow> bool" where
  "op_ok op m \<longleftrightarrow>
     (case op of
        TFork i \<Rightarrow> i < length (tk_runners m)
      | TClose i \<Rightarrow> i < length (tk_runners m) \<and> (i = 0 \<or> rn_status (tk_runners m ! i) < TaskStatus_Close)
      | _ \<Rightarrow> True)"

fun apply_ops ::
  "('c, 'e) ctx_ops \<Rightarrow> reg \<Rightarrow> ('e \<Rightarrow> u64 res \<times> 'e) \<Rightarrow> tk_op list \<Rightarrow> ('c, 'e) task_mgr \<Rightarrow> ('c, 'e) task_mgr option" where
  "apply_ops X sp ini [] m = Some m"
| "apply_ops X sp ini (op # ops) m =
     (if op_ok op m then apply_ops X sp ini ops (apply_op X sp ini op m) else None)"

section \<open>Where the contexts are\<close>

fun pool_ids :: "'c ctx_pool \<Rightarrow> nat multiset" where
  "pool_ids (None, cs) = mset (map TcId cs)"
| "pool_ids (Some c, cs) = add_mset (TcId c) (mset (map TcId cs))"

text \<open>A task holds its context from its creation until it is closed; the main task, always.\<close>

definition holding :: "'c runner list \<Rightarrow> nat multiset" where
  "holding rs = mset (map (\<lambda>r. TcId (rn_tc r))
     (take 1 rs @ filter (\<lambda>r. rn_status r < TaskStatus_Close) (drop 1 rs)))"

definition all_ids :: "('c, 'e) task_mgr \<Rightarrow> nat multiset" where
  "all_ids m = holding (tk_runners m) + pool_ids (tk_pool m) + mset (tk_freed m)"

definition tk_inv :: "('c, 'e) task_mgr \<Rightarrow> bool" where
  "tk_inv m \<longleftrightarrow> (\<forall>i. count (all_ids m) i \<le> 1) \<and> (\<forall>i \<in># all_ids m. i < tk_next m) \<and>
     tk_runners m \<noteq> [] \<and> (fst (tk_pool m) = None \<longrightarrow> snd (tk_pool m) = [])"

text \<open>What the pool does is to keep what it is given.\<close>

lemma coll_take_ids:
  "pool_ids p = pool_ids (snd (coll_take p)) + (case fst (coll_take p) of None \<Rightarrow> {#} | Some c \<Rightarrow> {#TcId c#})"
  if "fst p = None \<longrightarrow> snd p = []"
proof (cases p)
  case (Pair cur cs)
  show ?thesis
  proof (cases "cs = []")
    case True
    then show ?thesis using Pair by (auto simp: coll_take_def split: option.splits)
  next
    case False
    then obtain c ds where "cs = ds @ [c]" by (metis append_butlast_last_id)
    then show ?thesis using Pair that by (auto simp: coll_take_def)
  qed
qed

lemma coll_take_ok: "fst p = None \<longrightarrow> snd p = [] \<Longrightarrow>
    fst (snd (coll_take p)) = None \<longrightarrow> snd (snd (coll_take p)) = []"
  by (cases p) (simp add: coll_take_def)

lemma coll_put_ids: "pool_ids (coll_put c p) = add_mset (TcId c) (pool_ids p)"
  by (cases p) (auto simp: coll_put_def split: option.splits)

lemma coll_put_ok: "fst (coll_put c p) \<noteq> None"
  by (cases p) (auto simp: coll_put_def split: option.splits)

lemma tc_RegWrite_id [simp]: "TcId (tc_RegWrite X g x tc) = TcId tc"
  by (simp add: tc_RegWrite_def)

lemma newRunner_simps [simp]:
  "rn_tc (newRunner i tc) = tc" "rn_status (newRunner i tc) = TaskStatus_Pending"
  by (simp_all add: newRunner_def)

text \<open>What an operation does to the contexts that tasks hold.\<close>

lemma holding_append:
  "rs \<noteq> [] \<Longrightarrow> rn_status r < TaskStatus_Close \<Longrightarrow> holding (rs @ [r]) = add_mset (TcId (rn_tc r)) (holding rs)"
  by (cases rs) (simp_all add: holding_def)

lemma holding_same:
  assumes "TcId (rn_tc r) = TcId (rn_tc (rs ! i))"
    "i = 0 \<or> (rn_status r < TaskStatus_Close) = (rn_status (rs ! i) < TaskStatus_Close)"
  shows "holding (rs[i := r]) = holding rs"
proof (cases rs)
  case (Cons x xs)
  have "mset (map (\<lambda>r. TcId (rn_tc r)) (filter (\<lambda>r. rn_status r < TaskStatus_Close) (xs[j := r]))) =
        mset (map (\<lambda>r. TcId (rn_tc r)) (filter (\<lambda>r. rn_status r < TaskStatus_Close) xs))"
    if "TcId (rn_tc r) = TcId (rn_tc (xs ! j))"
      "(rn_status r < TaskStatus_Close) = (rn_status (xs ! j) < TaskStatus_Close)" for j
    using that by (induction xs arbitrary: j) (auto split: nat.splits)
  then show ?thesis using assms Cons by (cases i) (auto simp: holding_def)
qed (simp add: holding_def)

lemma holding_close:
  assumes "0 < i" "i < length rs" "rn_status (rs ! i) < TaskStatus_Close"
    "TcId (rn_tc r) = TcId (rn_tc (rs ! i))" "\<not> rn_status r < TaskStatus_Close"
  shows "holding rs = add_mset (TcId (rn_tc r)) (holding (rs[i := r]))"
proof -
  obtain x xs j where rs: "rs = x # xs" "i = Suc j" using assms(1,2) by (cases rs; cases i) auto
  have "mset (map (\<lambda>r. TcId (rn_tc r)) (filter (\<lambda>r. rn_status r < TaskStatus_Close) xs)) =
        add_mset (TcId (rn_tc r))
          (mset (map (\<lambda>r. TcId (rn_tc r)) (filter (\<lambda>r. rn_status r < TaskStatus_Close) (xs[j := r]))))"
    if "j < length xs" "rn_status (xs ! j) < TaskStatus_Close" "TcId (rn_tc r) = TcId (rn_tc (xs ! j))"
    using that assms(5) by (induction xs arbitrary: j) (auto simp: less_Suc_eq_0_disj)
  then show ?thesis using assms rs by (simp add: holding_def)
qed

text \<open>What an operation does to all contexts.\<close>

lemma freeTaskContext_ids:
  "all_ids (freeTaskContext tc m) = add_mset (TcId tc) (all_ids m)"
  "tk_runners (freeTaskContext tc m) = tk_runners m" "tk_next (freeTaskContext tc m) = tk_next m"
  "fst (tk_pool m) = None \<longrightarrow> snd (tk_pool m) = [] \<Longrightarrow>
     fst (tk_pool (freeTaskContext tc m)) = None \<longrightarrow> snd (tk_pool (freeTaskContext tc m)) = []"
  by (auto simp: freeTaskContext_def tc_dtor_def all_ids_def coll_put_ids coll_put_ok)

text \<open>An operation keeps all the contexts, or makes one more.\<close>

definition pool_ok :: "('c, 'e) task_mgr \<Rightarrow> bool" where
  "pool_ok m \<longleftrightarrow> (fst (tk_pool m) = None \<longrightarrow> snd (tk_pool m) = [])"

definition grows :: "('c, 'e) task_mgr \<Rightarrow> ('c, 'e) task_mgr \<Rightarrow> bool" where
  "grows m m' \<longleftrightarrow> pool_ok m' \<and> tk_runners m' \<noteq> [] \<and>
     (all_ids m' = all_ids m \<and> tk_next m' = tk_next m \<or>
      all_ids m' = add_mset (tk_next m) (all_ids m) \<and> tk_next m' = Suc (tk_next m))"

lemma tk_inv_grows:
  assumes "tk_inv m" "grows m m'"
  shows "tk_inv m'"
proof -
  have "count (all_ids m) (tk_next m) = 0" using assms(1) by (auto simp: tk_inv_def not_in_iff [symmetric])
  then show ?thesis using assms by (auto simp: tk_inv_def grows_def pool_ok_def less_Suc_eq)
qed

lemma start_task_grows:
  assumes "tk_runners m \<noteq> []"
  shows "all_ids (snd (start_task X sp tc m)) = add_mset (TcId tc) (all_ids m) \<and>
    tk_next (snd (start_task X sp tc m)) = tk_next m \<and> tk_pool (snd (start_task X sp tc m)) = tk_pool m \<and>
    tk_runners (snd (start_task X sp tc m)) \<noteq> []"
  using assms
  by (simp add: start_task_def taskID_def add_runner_def all_ids_def holding_append status_defs)

lemma newTaskContext_ids:
  assumes "newTaskContext X ini m = (r, m')"
  shows "all_ids m' = all_ids m" "tk_pool m' = tk_pool m" "tk_runners m' = tk_runners m"
    "tk_next m' = tk_next m + (case r of Inl err \<Rightarrow> 0 | Inr tc \<Rightarrow> 1)" "\<forall>tc. r = Inr tc \<longrightarrow> TcId tc = tk_next m"
  using assms by (auto simp: newTaskContext_def all_ids_def split: sum.splits prod.splits)

lemma newTask_None_grows:
  assumes "tk_runners m \<noteq> []" "pool_ok m"
  shows "grows m (snd (newTask X sp ini None m))"
proof (cases "newTaskContext X ini m")
  case (Pair r m')
  note n = newTaskContext_ids [OF Pair]
  show ?thesis
  proof (cases r)
    case (Inl err)
    then show ?thesis using Pair n assms by (simp add: newTask_def grows_def pool_ok_def)
  next
    case (Inr tc)
    obtain err c where s: "XSave X (TcRegs tc) (tk_emu m') = (err, c)" by fastforce
    note st = start_task_grows [of m' X sp "tc\<lparr>TcRegs := c\<rparr>"]
    note fr = freeTaskContext_ids [where tc = "tc\<lparr>TcRegs := c\<rparr>" and m = m']
    show ?thesis
      using Pair Inr n s st fr assms
      by (cases err) (auto simp: newTask_def grows_def pool_ok_def)
  qed
qed

lemma createTask_grows:
  assumes "tk_runners m \<noteq> []" "pool_ok m"
  shows "grows m (snd (createTask X sp ini m))"
proof (cases "tk_closed m")
  case True
  then show ?thesis using assms by (simp add: createTask_def allocTaskContext_def grows_def)
next
  case False
  define m' where "m' = m\<lparr>tk_pool := snd (coll_take (tk_pool m))\<rparr>"
  have m': "tk_runners m' \<noteq> []" "pool_ok m'" "tk_next m' = tk_next m"
    using assms coll_take_ok [of "tk_pool m"] by (auto simp: m'_def pool_ok_def)
  have ids: "all_ids m = all_ids m' + (case fst (coll_take (tk_pool m)) of None \<Rightarrow> {#} | Some c \<Rightarrow> {#TcId c#})"
    using coll_take_ids [of "tk_pool m"] assms(2) by (simp add: all_ids_def m'_def pool_ok_def)
  have create: "createTask X sp ini m = newTask X sp ini (fst (coll_take (tk_pool m))) m'"
    using False by (simp add: createTask_def allocTaskContext_def m'_def split: prod.splits)
  show ?thesis
  proof (cases "fst (coll_take (tk_pool m))")
    case None
    then show ?thesis using newTask_None_grows [OF m'(1,2), of X sp ini] create ids m'(3) by (simp add: grows_def)
  next
    case (Some c)
    then show ?thesis using start_task_grows [OF m'(1), of X sp c] create ids m' by (simp add: newTask_def grows_def pool_ok_def)
  qed
qed

text \<open>A fork has a context of its own; closing a task gives its context back.\<close>

lemma fork_ids:
  assumes "i < length (tk_runners m)" "pool_ok m"
  shows "grows m (snd (runner_Fork X i m))" "grows m (snd (main_Fork X i m))"
proof -
  have n: "tk_runners m \<noteq> []" using assms(1) by auto
  then show "grows m (snd (runner_Fork X i m))"
    using assms by (auto simp: runner_Fork_def tc_clone_def taskID_def add_runner_def grows_def pool_ok_def
        all_ids_def holding_append status_defs Let_def split: sum.splits)
  have "holding ((tk_runners m @ [r])[length (tk_runners m) := r\<lparr>rn_pid := p\<rparr>]) = holding (tk_runners m @ [r])" for r p
    by (rule holding_same) (simp_all add: nth_append)
  then show "grows m (snd (main_Fork X i m))"
    using n assms by (auto simp: main_Fork_def tc_clone_def taskID_def add_runner_def grows_def pool_ok_def
        put_runner_def all_ids_def holding_append status_defs Let_def nth_append split: sum.splits)
qed

lemma closed_status [simp]:
  "\<not> rn_status (updateStatus TaskStatus_Close (CancelCause c r)) < TaskStatus_Close"
  "rn_tc (updateStatus k (CancelCause c r)) = rn_tc r"
  by (simp_all add: updateStatus_def CancelCause_def cancel_ctx_def)

lemma Close_grows:
  assumes "0 < i" "i < length (tk_runners m)" "rn_status (tk_runners m ! i) < TaskStatus_Close" "pool_ok m"
  shows "grows m (runner_Close i m)"
proof -
  define r where "r = updateStatus TaskStatus_Close (CancelCause Canceled
     ((tk_runners m ! i)\<lparr>rn_storage := [], rn_releases := []\<rparr>))"
  define m' where "m' = m\<lparr>tk_released := tk_released m @ rev (rn_releases (tk_runners m ! i))\<rparr>"
  have tc: "rn_tc r = rn_tc (tk_runners m ! i)" by (simp add: r_def)
  have "runner_Close i m = put_runner i r (freeTaskContext (rn_tc r) m')"
    by (simp add: runner_Close_def r_def m'_def Let_def CancelCause_def cancel_ctx_def updateStatus_def)
  moreover have "holding (tk_runners m) = add_mset (TcId (rn_tc r)) (holding ((tk_runners m)[i := r]))"
    using assms(1-3) by (rule holding_close) (simp_all add: tc, simp add: r_def)
  moreover have "pool_ok (freeTaskContext (rn_tc r) m')"
    using assms(4) freeTaskContext_ids(4) [of m' "rn_tc r"] by (simp add: pool_ok_def m'_def)
  moreover have "all_ids (freeTaskContext (rn_tc r) m') = add_mset (TcId (rn_tc r)) (all_ids m)"
    "tk_runners (freeTaskContext (rn_tc r) m') = tk_runners m" "tk_next (freeTaskContext (rn_tc r) m') = tk_next m"
    using freeTaskContext_ids(1-3) [of "rn_tc r" m'] by (simp_all add: m'_def all_ids_def)
  ultimately show ?thesis
    using assms(2) by (auto simp: grows_def put_runner_def pool_ok_def all_ids_def)
qed

lemma main_Close_grows:
  assumes "tk_runners m \<noteq> []" "pool_ok m"
  shows "grows m (main_Close 0 m)"
  using assms holding_same [of "updateStatus TaskStatus_Close (CancelCause Canceled
      ((tk_runners m ! 0)\<lparr>rn_storage := [], rn_releases := []\<rparr>))" "tk_runners m" 0]
  by (simp add: main_Close_def Let_def put_runner_def grows_def pool_ok_def all_ids_def)

lemma getMainTask_grows:
  assumes "tk_runners m \<noteq> []" "pool_ok m"
  shows "grows m (snd (getMainTask X sp 0 m))"
  using assms holding_same [of "main_reset X sp ((tk_runners m ! 0)\<lparr>rn_status := TaskStatus_Pending\<rparr>)" "tk_runners m" 0]
  by (simp add: getMainTask_def Let_def put_runner_def grows_def pool_ok_def all_ids_def main_reset_def)

lemma apply_op_inv:
  assumes "tk_inv m" "op_ok op m"
  shows "tk_inv (apply_op X sp ini op m)"
proof (rule tk_inv_grows [OF assms(1)])
  have "tk_runners m \<noteq> []" "pool_ok m" using assms(1) by (auto simp: tk_inv_def pool_ok_def)
  then show "grows m (apply_op X sp ini op m)"
    using assms(2) createTask_grows fork_ids fork_ids(2) [of 0] Close_grows main_Close_grows getMainTask_grows
    by (auto simp: apply_op_def op_ok_def split: tk_op.splits)
qed

lemma apply_ops_inv: "tk_inv m \<Longrightarrow> apply_ops X sp ini ops m = Some m' \<Longrightarrow> tk_inv m'"
  by (induction ops arbitrary: m) (auto intro: apply_op_inv split: if_splits)

lemma newMain_inv:
  assumes "newMain X ini (tk_empty e) = (Inr i, m)"
  shows "tk_inv m"
proof -
  obtain r m1 where n: "newTaskContext X ini (tk_empty e) = (r, m1)" by fastforce
  note ids = newTaskContext_ids [OF n]
  with assms n show ?thesis
    by (auto simp: newMain_def tk_empty_def taskID_def add_runner_def tk_inv_def all_ids_def holding_def
        split: sum.splits prod.splits option.splits)
qed

section \<open>No context in two hands\<close>

lemma holding_nth:
  assumes "i < length rs" "i = 0 \<or> rn_status (rs ! i) < TaskStatus_Close"
  shows "TcId (rn_tc (rs ! i)) \<in># holding rs"
  using assms by (cases rs; cases i) (auto simp: holding_def)

lemma holding_two:
  assumes "i < j" "j < length rs" "i = 0 \<or> rn_status (rs ! i) < TaskStatus_Close"
    "rn_status (rs ! j) < TaskStatus_Close" "TcId (rn_tc (rs ! i)) = k" "TcId (rn_tc (rs ! j)) = k"
  shows "2 \<le> count (holding rs) k"
proof -
  let ?h = "\<lambda>rs. mset (map (\<lambda>r. TcId (rn_tc r)) (filter (\<lambda>r. rn_status r < TaskStatus_Close) rs))"
  have one: "0 < count (?h xs) k"
    if "j < length xs" "rn_status (xs ! j) < TaskStatus_Close" "TcId (rn_tc (xs ! j)) = k" for xs j
    using that nth_mem [of j xs] unfolding count_greater_zero_iff by force
  have two: "2 \<le> count (?h xs) k"
    if "i < j" "j < length xs" "rn_status (xs ! i) < TaskStatus_Close" "rn_status (xs ! j) < TaskStatus_Close"
      "TcId (rn_tc (xs ! i)) = k" "TcId (rn_tc (xs ! j)) = k" for xs i j
    using that
  proof (induction xs arbitrary: i j)
    case (Cons x xs)
    obtain j' where j: "j = Suc j'" using Cons.prems by (cases j) auto
    show ?case
    proof (cases i)
      case 0
      then show ?thesis using Cons.prems j one [of j' xs] by simp
    next
      case (Suc i')
      then show ?thesis using Cons.prems j Cons.IH [of i' j'] by (auto simp: le_SucI)
    qed
  qed simp
  obtain x xs j' where rs: "rs = x # xs" "j = Suc j'" using assms(1,2) by (cases rs; cases j) auto
  show ?thesis
  proof (cases i)
    case 0
    then show ?thesis using assms rs one [of j' xs] by (simp add: holding_def)
  next
    case (Suc i')
    then show ?thesis using assms rs two [of i' j' xs] one [of j' xs] by (simp add: holding_def le_SucI)
  qed
qed

lemma held_once:
  assumes "tk_inv m" "i < j" "j < length (tk_runners m)"
    "i = 0 \<or> rn_status (tk_runners m ! i) < TaskStatus_Close" "rn_status (tk_runners m ! j) < TaskStatus_Close"
  shows "TcId (rn_tc (tk_runners m ! i)) \<noteq> TcId (rn_tc (tk_runners m ! j))"
proof
  assume "TcId (rn_tc (tk_runners m ! i)) = TcId (rn_tc (tk_runners m ! j))"
  then have "2 \<le> count (all_ids m) (TcId (rn_tc (tk_runners m ! j)))"
    using holding_two [OF assms(2-5)] by (simp add: all_ids_def)
  moreover have "count (all_ids m) (TcId (rn_tc (tk_runners m ! j))) \<le> 1" using assms(1) by (simp add: tk_inv_def)
  ultimately show False by simp
qed

text \<open>C14: As long as no task is closed twice, whatever tasks are created, forked and closed after the debugger has started: two open tasks, or the main task and an open one, never have the same task context, and no context a task still has waits in the pool or has been released.\<close>

theorem one_context_per_task:
  assumes "newMain X ini (tk_empty e) = (Inr k, m)" "apply_ops X sp ini ops m = Some m'"
    "i < j" "j < length (tk_runners m')"
    "i = 0 \<or> rn_status (tk_runners m' ! i) < TaskStatus_Close" "rn_status (tk_runners m' ! j) < TaskStatus_Close"
  shows "TcId (rn_tc (tk_runners m' ! i)) \<noteq> TcId (rn_tc (tk_runners m' ! j)) \<and>
    TcId (rn_tc (tk_runners m' ! j)) \<notin># pool_ids (tk_pool m') \<and> TcId (rn_tc (tk_runners m' ! j)) \<notin> set (tk_freed m')"
proof -
  have inv: "tk_inv m'" using apply_ops_inv [OF newMain_inv [OF assms(1)] assms(2)] .
  let ?k = "TcId (rn_tc (tk_runners m' ! j))"
  have "1 \<le> count (holding (tk_runners m')) ?k"
    unfolding count_greater_eq_one_iff using holding_nth [OF assms(4)] assms(6) by blast
  moreover have "count (all_ids m') ?k \<le> 1" using inv by (simp add: tk_inv_def)
  ultimately have "count (pool_ids (tk_pool m')) ?k = 0 \<and> count (mset (tk_freed m')) ?k = 0"
    unfolding all_ids_def count_union by linarith
  then show ?thesis using held_once [OF inv assms(3-6)] by (simp add: count_eq_zero_iff)
qed

theorem one_context_per_task_witness:
  "\<exists>m m'. newMain reg_ctx (\<lambda>e. (Inr 16, e)) (tk_empty 0) = (Inr 0, m) \<and>
     apply_ops reg_ctx 0 (\<lambda>e. (Inr 16, e)) [TCreate, TClose 1, TFork 0, TCreate] m = Some m' \<and>
     length (tk_runners m') = 4 \<and> TcId (rn_tc (tk_runners m' ! 2)) \<noteq> TcId (rn_tc (tk_runners m' ! 3)) \<and>
     TcId (rn_tc (tk_runners m' ! 3)) = TcId (rn_tc (tk_runners m' ! 1))"
proof -
  let ?ini = "\<lambda>e::u64. (Inr 16 :: u64 res, e)"
  have "(case newMain reg_ctx ?ini (tk_empty 0) of
      (Inr 0, m) \<Rightarrow> (case apply_ops reg_ctx 0 ?ini [TCreate, TClose 1, TFork 0, TCreate] m of
         Some m' \<Rightarrow> length (tk_runners m') = 4 \<and> rn_status (tk_runners m' ! 2) < TaskStatus_Close \<and>
           rn_status (tk_runners m' ! 3) < TaskStatus_Close \<and>
           TcId (rn_tc (tk_runners m' ! 3)) = TcId (rn_tc (tk_runners m' ! 1))
       | None \<Rightarrow> False)
    | _ \<Rightarrow> False)"
    by (simp add: newMain_def newTaskContext_def tk_empty_def taskID_def add_runner_def apply_op_def op_ok_def
        createTask_def allocTaskContext_def coll_take_def coll_put_def newTask_def start_task_def runner_Close_def
        main_Fork_def tc_clone_def freeTaskContext_def put_runner_def reg_ctx_def newRunner_def tc_RegWrite_def
        CancelCause_def cancel_ctx_def updateStatus_def status_defs)
  then obtain m m' where m: "newMain reg_ctx ?ini (tk_empty 0) = (Inr 0, m)"
    and m': "apply_ops reg_ctx 0 ?ini [TCreate, TClose 1, TFork 0, TCreate] m = Some m'"
    and r: "length (tk_runners m') = 4" "rn_status (tk_runners m' ! 2) < TaskStatus_Close"
      "rn_status (tk_runners m' ! 3) < TaskStatus_Close"
      "TcId (rn_tc (tk_runners m' ! 3)) = TcId (rn_tc (tk_runners m' ! 1))"
    by (auto split: prod.splits sum.splits nat.splits option.splits)
  have "TcId (rn_tc (tk_runners m' ! 2)) \<noteq> TcId (rn_tc (tk_runners m' ! 3))"
    using one_context_per_task [OF m m', of 2 3] r by simp
  with m m' r show ?thesis by blast
qed

text \<open>Closing a task again puts its context into the pool again: the next two tasks both get it.\<close>

lemma runner_Close_pool:
  assumes "i < length (tk_runners m)" "\<not> tk_closed m" "TcReleases (rn_tc (tk_runners m ! i)) = 2"
  shows "tk_pool (runner_Close i m) = coll_put (rn_tc (tk_runners m ! i)) (tk_pool m)"
    "\<not> tk_closed (runner_Close i m)" "length (tk_runners (runner_Close i m)) = length (tk_runners m)"
    "rn_tc (tk_runners (runner_Close i m) ! i) = rn_tc (tk_runners m ! i)"
proof -
  define r where "r = (tk_runners m ! i)\<lparr>rn_storage := [], rn_releases := []\<rparr>"
  have "rn_tc (CancelCause Canceled r) = rn_tc (tk_runners m ! i)" "rn_tc r = rn_tc (tk_runners m ! i)"
    by (simp_all add: r_def CancelCause_def cancel_ctx_def updateStatus_def)
  then show "tk_pool (runner_Close i m) = coll_put (rn_tc (tk_runners m ! i)) (tk_pool m)"
    "\<not> tk_closed (runner_Close i m)" "length (tk_runners (runner_Close i m)) = length (tk_runners m)"
    "rn_tc (tk_runners (runner_Close i m) ! i) = rn_tc (tk_runners m ! i)"
    using assms by (simp_all add: runner_Close_def freeTaskContext_def put_runner_def Let_def flip: r_def)
qed

lemma double_close_shares:
  assumes "i < length (tk_runners m)" "tk_pool m = (None, [])" "\<not> tk_closed m"
    "TcReleases (rn_tc (tk_runners m ! i)) = 2"
  shows "\<exists>m1 m2. allocTaskContext (runner_Close i (runner_Close i m)) = (Inr (Some (rn_tc (tk_runners m ! i))), m1) \<and>
    allocTaskContext m1 = (Inr (Some (rn_tc (tk_runners m ! i))), m2)"
proof -
  note c = runner_Close_pool [OF assms(1,3,4)]
  have "i < length (tk_runners (runner_Close i m))" "TcReleases (rn_tc (tk_runners (runner_Close i m) ! i)) = 2"
    using c assms(1,4) by simp_all
  note d = runner_Close_pool [OF this(1) c(2) this(2)]
  show ?thesis using c d assms(2) by (simp add: allocTaskContext_def coll_take_def coll_put_def)
qed

end
