(* ===== verification/MemData.thy ===== *)
theory MemData
  imports Hooks Encoding Context
begin

text \<open>
  What the memory manager of \<^verbatim>\<open>internal/debugger/mem.go\<close> does with values: encoding them into guest
  memory (\<^verbatim>\<open>memImport\<close>, \<^verbatim>\<open>memWrite\<close>), decoding them from it (\<^verbatim>\<open>memExtract\<close>), and binding a piece of
  the debugger's own memory to an address of the guest by a hook (\<^verbatim>\<open>memBind\<close>, \<^verbatim>\<open>memUnbind\<close>). The
  destructor is here too, because it closes those hooks.
\<close>

section \<open>Streams over guest memory\<close>

text \<open>\<^verbatim>\<open>PointerStream\<close> as a stream of its own: the streams it hands out are pointer streams again.\<close>

definition ptr_streams :: "'v ctx \<Rightarrow> (pstream, 'v) stream_ops" where
  "ptr_streams X = \<lparr>
     BlockSize = PsSize,
     Offset = PsPtr,
     SSkip = ps_Skip,
     SRead = ps_Read X,
     ReadFloat = ps_ReadFloat X,
     ReadDouble = ps_ReadDouble X,
     ReadString = ps_ReadString X,
     ReadStream = ps_ReadStream X,
     SWrite = ps_Write X,
     WriteFloat = ps_WriteFloat X,
     WriteDouble = ps_WriteDouble X,
     WriteString = ps_WriteString X,
     WriteStream = ps_WriteStream X\<rparr>"

text \<open>
  The world of \<^verbatim>\<open>memWrite\<close>: the manager, the emulator, and the addresses allocated so far. A search of
  the free list that does not end is a call that does not return.
\<close>

type_synonym 'e mem_world = "(mem_state \<times> 'e) \<times> u64 list"

definition write_alloc :: "'e emulator \<Rightarrow> u64 \<Rightarrow> (u64 res, 'e mem_world) go" where
  "write_alloc E n = (\<lambda>((s, e), addrs).
     case memAlloc E n s e of
       None \<Rightarrow> Panic NoReturn ((s, e), addrs)
     | Some (Inl err, s', e') \<Rightarrow> Ret (Inl err) ((s', e'), addrs)
     | Some (Inr addr, s', e') \<Rightarrow> Ret (Inr addr) ((s', e'), addrs @ [addr]))"

definition mem_ctx :: "'e emulator \<Rightarrow> (u64 \<Rightarrow> (u64 res, 'e mem_world) go) \<Rightarrow> 'e mem_world ctx" where
  "mem_ctx E alloc = \<lparr>CArch = EmuArch E,
     CRegRead = (\<lambda>r ((s, e), as). EmuRegRead E r e),
     CRegWrite = (\<lambda>r x ((s, e), as). case EmuRegWrite E r x e of (err, e') \<Rightarrow> (err, ((s, e'), as))),
     CMemRead = (\<lambda>a n ((s, e), as). EmuMemRead E a n e),
     CMemWrite = (\<lambda>a b ((s, e), as). case EmuMemWrite E a b e of (err, e') \<Rightarrow> (err, ((s, e'), as))),
     CAlloc = alloc\<rparr>"

section \<open>Values\<close>

definition mem_free_go :: "u64 \<Rightarrow> (goerr option, mem_state) go" where
  "mem_free_go addr s = (case memFree addr s of None \<Rightarrow> Panic NoReturn s | Some r \<Rightarrow> r)"

text \<open>The loop that releases what was allocated; errors are dropped.\<close>

definition free_addrs :: "u64 list \<Rightarrow> (unit res, mem_state) go" where
  "free_addrs = each (\<lambda>addr. seq (mem_free_go addr) (\<lambda>_. ret (Inr ())))"

definition memWrite ::
  "dbg_arch \<Rightarrow> 'e emulator \<Rightarrow> u64 \<Rightarrow> goany \<Rightarrow> (u64 list res, (mem_state \<times> 'e) \<times> host) go" where
  "memWrite D E addr val = (\<lambda>(w, h).
     case Encode (ptr_streams (mem_ctx E (write_alloc E))) val
            ((PointerStream addr (unat (DPointerSize D)), (w, [])), h) of
       Panic p ((_, (w', _)), h') \<Rightarrow> Panic p (w', h')
     | Ret (Inr _) ((_, (w', addrs)), h') \<Rightarrow> Ret (Inr addrs) (w', h')
     | Ret (Inl err) ((_, ((s', e'), addrs)), h') \<Rightarrow>
         (case free_addrs addrs s' of
            Ret _ s'' \<Rightarrow> Ret (Inl err) ((s'', e'), h')
          | Panic p s'' \<Rightarrow> Panic p ((s'', e'), h')))"

definition memImport ::
  "dbg_arch \<Rightarrow> 'e emulator \<Rightarrow> goany \<Rightarrow> (u64 list res, (mem_state \<times> 'e) \<times> host) go" where
  "memImport D E val = (\<lambda>((s, e), h).
     case EncodeSize (ptr_streams (mem_ctx E (write_alloc E))) (unat (DPointerSize D)) val of
       Inl p \<Rightarrow> Panic p ((s, e), h)
     | Inr n \<Rightarrow>
         (case memAlloc E (word_of_int n) s e of
            None \<Rightarrow> Panic NoReturn ((s, e), h)
          | Some (Inl err, s', e') \<Rightarrow> Ret (Inl err) ((s', e'), h)
          | Some (Inr addr, s', e') \<Rightarrow>
              seq (memWrite D E addr val) (\<lambda>r.
                case r of
                  Inr addrs \<Rightarrow> ret (Inr (addr # addrs))
                | Inl err \<Rightarrow> seq (on_fst (on_fst (mem_free_go addr))) (\<lambda>_. ret (Inl err))) ((s', e'), h)))"

text \<open>The stream of \<^verbatim>\<open>memExtract\<close> has no allocator: asked for one, it calls a nil function.\<close>

definition memExtract ::
  "dbg_arch \<Rightarrow> 'e emulator \<Rightarrow> u64 \<Rightarrow> goany \<Rightarrow> (unit res, (mem_state \<times> 'e) \<times> host) go" where
  "memExtract D E addr val = (\<lambda>(w, h).
     case Decode (ptr_streams (mem_ctx E (\<lambda>_. crash NilDeref))) val
            ((PointerStream addr (unat (DPointerSize D)), (w, [])), h) of
       Panic p ((_, (w', _)), h') \<Rightarrow> Panic p (w', h')
     | Ret r ((_, (w', _)), h') \<Rightarrow> Ret r (w', h'))"

section \<open>Bound memory\<close>

text \<open>
  The callback of a binding of the \<open>size\<close> bytes at \<open>p\<close> to \<open>base\<close>; the parameter \<^verbatim>\<open>size\<close> of the callback,
  the size of the access, hides the size of the binding. \<open>bind_read\<close>: before the guest reads, the
  memory at the address is made what the debugger's is; the error is dropped. \<open>bind_write\<close>: what the
  guest writes is copied into a slice as long as the access, from the offset on.
\<close>

definition bind_read :: "'v ctx \<Rightarrow> u64 \<Rightarrow> u64 \<Rightarrow> u64 \<Rightarrow> u64 \<Rightarrow> (int, 'v \<times> host) go" where
  "bind_read X p base addr n = (\<lambda>(v, h).
     Ret HookResult_Next (snd (CMemWrite X addr (read_bytes (p + (addr - base)) (unat n) (hbytes h)) v), h))"

definition bind_write :: "u64 \<Rightarrow> u64 \<Rightarrow> u64 \<Rightarrow> u64 \<Rightarrow> u64 \<Rightarrow> (int, 'v \<times> host) go" where
  "bind_write p base addr n value =
     (let offset = addr - base
      in if n < offset \<or> 8 < n then crash SliceBounds
         else seq (hwrite (p + offset) (take (unat (n - offset)) (le_bytes (unat n) value)))
           (\<lambda>_. ret HookResult_Next))"

definition bind_callback :: "'v ctx \<Rightarrow> u64 \<Rightarrow> u64 \<Rightarrow> u64 \<Rightarrow> u64 \<Rightarrow> u64 \<Rightarrow> u64 \<Rightarrow> (int, 'v \<times> host) go" where
  "bind_callback X p base typ addr n value =
     (if typ = HOOK_TYPE_MEM_READ then bind_read X p base addr n
      else if typ = HOOK_TYPE_MEM_WRITE then bind_write p base addr n value
      else ret HookResult_Next)"

text \<open>\<open>cb\<close> is the number of that callback; the data of the hook is the address.\<close>

definition memBind ::
  "'e emulator \<Rightarrow> nat \<Rightarrow> u64 \<Rightarrow> hook_mgr \<Rightarrow> mem_state \<Rightarrow> 'e \<Rightarrow> (u64 res, hook_mgr \<times> mem_state \<times> 'e) outcome" where
  "memBind E cb n h s e =
     (case memAlloc E n s e of
        None \<Rightarrow> Panic NoReturn (h, s, e)
      | Some (Inl err, s1, e1) \<Rightarrow> Ret (Inl err) (h, s1, e1)
      | Some (Inr addr, s1, e1) \<Rightarrow>
          (case addHook E (HOOK_TYPE_MEM_READ OR HOOK_TYPE_MEM_WRITE) (MemCb cb) (unat addr) addr (addr + n) h e1 of
             (Inr i, h2, e2) \<Rightarrow> Ret (Inr addr) (h2, s1\<lparr>binds := gm_set addr i (binds s1)\<rparr>, e2)
           | (Inl err, h2, e2) \<Rightarrow>
               (case mem_free_go addr s1 of
                  Ret _ s2 \<Rightarrow> Ret (Inl err) (h2, s2, e2)
                | Panic p s2 \<Rightarrow> Panic p (h2, s2, e2))))"

definition memUnbind ::
  "'e emulator \<Rightarrow> u64 \<Rightarrow> hook_mgr \<Rightarrow> mem_state \<Rightarrow> 'e \<Rightarrow> (goerr option, hook_mgr \<times> mem_state \<times> 'e) outcome" where
  "memUnbind E addr h s e =
     (case gm_get (binds s) addr of
        None \<Rightarrow> Ret (Some ErrAddressInvalid) (h, s, e)
      | Some i \<Rightarrow>
          (case hook_Close E i (h, e) of (h1, e1) \<Rightarrow>
             (case mem_free_go addr (s\<lparr>binds := gm_del addr (binds s)\<rparr>) of
                Ret _ s1 \<Rightarrow> Ret None (h1, s1, e1)
              | Panic p s1 \<Rightarrow> Panic p (h1, s1, e1))))"

text \<open>
  \<^verbatim>\<open>dtor\<close>: close the hooks of the bound blocks, then unmap every region of the table. Go visits the
  entries of a map in no fixed order; the model takes the order of the association list.
\<close>

definition mem_dtor :: "'e emulator \<Rightarrow> hook_mgr \<Rightarrow> mem_state \<Rightarrow> 'e \<Rightarrow> hook_mgr \<times> mem_state \<times> 'e" where
  "mem_dtor E h s e =
     (let (h1, e1) = fold (\<lambda>(a, i). hook_Close E i) (binds s) (h, e);
          e2 = fold (\<lambda>(a, n) e. snd (EmuMemUnmap E a n e)) (maps s) e1
      in (h1, s\<lparr>binds := [], maps := []\<rparr>, e2))"

end
