(* ===== verification/MemDataProps.thy ===== *)
theory MemDataProps
  imports MemProps MemData EncMemory
begin

text \<open>
  The properties of the manager's operations on values: the destructor, what a failing \<^verbatim>\<open>memWrite\<close>
  leaves behind, and what a binding does to the debugger's memory and to the allocator.
\<close>

section \<open>The destructor\<close>

lemma release_keeps:
  assumes "emu_closes E M I" "I (snd st)"
  shows "I (snd (run_hook_release E r st)) \<and> M (snd (run_hook_release E r st)) = M (snd st)"
  using assms by (cases st; cases r) (auto simp: run_hook_release_def emu_closes_def)

lemma releases_keep:
  assumes "emu_closes E M I"
  shows "I (snd st) \<Longrightarrow> I (snd (fold (run_hook_release E) rs st)) \<and> M (snd (fold (run_hook_release E) rs st)) = M (snd st)"
  using release_keeps [OF assms] by (induction rs arbitrary: st) auto

lemma hook_Close_keeps:
  assumes "emu_closes E M I" "I (snd st)"
  shows "I (snd (hook_Close E i st)) \<and> M (snd (hook_Close E i st)) = M (snd st)"
proof -
  obtain h e where st: "st = (h, e)" by fastforce
  obtain h' e' where f: "fold (run_hook_release E) (rev (hk_releases (hooks h ! i))) (h, e) = (h', e')" by fastforce
  then have "snd (hook_Close E i st) = e'" by (simp add: hook_Close_def st)
  with releases_keep [OF assms, of "rev (hk_releases (hooks h ! i))"] f st show ?thesis by simp
qed

lemma close_binds:
  assumes "emu_closes E M I"
  shows "I (snd st) \<Longrightarrow> I (snd (fold (\<lambda>(a, i). hook_Close E i) bs st)) \<and>
    M (snd (fold (\<lambda>(a, i). hook_Close E i) bs st)) = M (snd st)"
proof (induction bs arbitrary: st)
  case (Cons b bs)
  then show ?case using hook_Close_keeps [OF assms Cons.prems, of "snd b"] by (simp add: split_def)
qed simp

text \<open>The destructor unmaps everything the manager has mapped, whatever is bound: when unmapping mapped ranges succeeds, nothing is left mapped in the emulator and the table and the bindings are empty.\<close>

lemma dtor_unmaps_everything:
  assumes "mem_reach_below E e0 (s, e)" and "emu_maps E M" and "M e0 = {}"
    and "emu_closes E M I" and "I e"
  shows "case mem_dtor E h (s\<lparr>binds := bs\<rparr>) e of (h', s', e') \<Rightarrow> M e' = {} \<and> maps s' = [] \<and> binds s' = []"
proof -
  have "agree M s e" using mem_reach_agree [OF assms(1-3)] by simp
  with close_binds [OF assms(4), of "(h, e)" bs] unmap_all [OF assms(2,4)] assms(5)
  show ?thesis by (simp add: mem_dtor_def agree_def Let_def split_def)
qed

lemma dtor_unmaps_everything_witness:
  "covered (s_tab (snd (snd (mem_dtor E0 hook_mgr0 ((fst st1)\<lparr>binds := []\<rparr>) (snd st1))))) = {} \<and> maps (fst st1) \<noteq> []"
proof -
  have "table_ok (s_tab (snd st1))"
    by (rule tab_ok_table_ok) (simp add: st1_def mgr_simps run_simps emu_simps E0_def)
  with dtor_unmaps_everything [of E0 semu0 "fst st1" "snd st1" "\<lambda>e. covered (s_tab e)" "\<lambda>e. table_ok (s_tab e)" hook_mgr0 "[]"]
    rb_step [OF rb_start st1_step] sample_maps [of ARCH_ARM64] sample_closes [of ARCH_ARM64] st1_fields
  show ?thesis by (simp add: E0_def semu0_def covered_def split: prod.splits)
qed

section \<open>What a computation keeps\<close>

definition outcome_state :: "('a, 's) outcome \<Rightarrow> 's" where
  "outcome_state r = (case r of Ret a s \<Rightarrow> s | Panic p s \<Rightarrow> s)"

definition keeps :: "('s \<Rightarrow> bool) \<Rightarrow> ('a, 's) go \<Rightarrow> bool" where
  "keeps P m \<longleftrightarrow> (\<forall>s. P s \<longrightarrow> P (outcome_state (m s)))"

lemma keepsI:
  assumes "\<And>s a t. P s \<Longrightarrow> m s = Ret a t \<Longrightarrow> P t" "\<And>s p t. P s \<Longrightarrow> m s = Panic p t \<Longrightarrow> P t"
  shows "keeps P m"
  unfolding keeps_def outcome_state_def
proof (intro allI impI)
  fix s assume s: "P s"
  show "P (case m s of Ret a s \<Rightarrow> s | Panic p s \<Rightarrow> s)"
  proof (cases "m s")
    case (Ret a t)
    with assms(1) [OF s Ret] show ?thesis by simp
  next
    case (Panic p t)
    with assms(2) [OF s Panic] show ?thesis by simp
  qed
qed

lemma keepsD:
  "keeps P m \<Longrightarrow> m s = Ret a t \<Longrightarrow> P s \<Longrightarrow> P t"
  "keeps P m \<Longrightarrow> m s = Panic p t \<Longrightarrow> P s \<Longrightarrow> P t"
  unfolding keeps_def outcome_state_def by (metis outcome.simps(5)) (metis outcome.simps(6))

named_theorems keeps_intros \<open>a computation keeps a property when its pieces do\<close>

lemma keeps_basic [keeps_intros]:
  "keeps P (ret a)" "keeps P (crash p)" "keeps P get" "keeps P (reading f)"
  by (simp_all add: keeps_def go_defs outcome_state_def)

lemma keeps_seq [keeps_intros]: "keeps P m \<Longrightarrow> (\<And>a. keeps P (k a)) \<Longrightarrow> keeps P (seq m k)"
  by (rule keepsI) (auto simp: seq_def split: outcome.splits dest: keepsD)

lemma keeps_attempt [keeps_intros]: "keeps P m \<Longrightarrow> (\<And>a. keeps P (k a)) \<Longrightarrow> keeps P (attempt m k)"
  unfolding attempt_def by (intro keeps_seq) (auto intro: keeps_basic split: sum.splits)

lemma keeps_each [keeps_intros]: "(\<And>x. x \<in> set xs \<Longrightarrow> keeps P (f x)) \<Longrightarrow> keeps P (each f xs)"
proof (induction xs)
  case (Cons x xs)
  then show ?case by (simp add: keeps_attempt)
qed (simp add: keeps_basic)

lemma keeps_update [keeps_intros]: "(\<And>s. P s \<Longrightarrow> P (f s)) \<Longrightarrow> keeps P (update f)"
  by (simp add: keeps_def update_def outcome_state_def)

text \<open>The property is one of the world, beside the stream and the debugger's own memory.\<close>

abbreviation stream_keeps :: "('v \<Rightarrow> bool) \<Rightarrow> ('a, 's \<times> 'v) go \<Rightarrow> bool" where
  "stream_keeps J \<equiv> keeps (\<lambda>q. J (snd q))"

abbreviation handler_keeps :: "('v \<Rightarrow> bool) \<Rightarrow> ('a, ('s \<times> 'v) \<times> host) go \<Rightarrow> bool" where
  "handler_keeps J \<equiv> keeps (\<lambda>q. J (snd (fst q)))"

lemma keeps_on_fst [keeps_intros]: "stream_keeps J m \<Longrightarrow> handler_keeps J (on_fst m)"
  by (rule keepsI) (auto simp: on_fst_def split: outcome.splits dest: keepsD)

lemma keeps_on_snd [keeps_intros]: "keeps J m \<Longrightarrow> stream_keeps J (on_snd m)"
  by (rule keepsI) (auto simp: on_snd_def split: outcome.splits dest: keepsD)

lemma handler_keepsD:
  "handler_keeps J m \<Longrightarrow> m ((s, v), h) = Ret a ((s', v'), h') \<Longrightarrow> J v \<Longrightarrow> J v'"
  "handler_keeps J m \<Longrightarrow> m ((s, v), h) = Panic p ((s', v'), h') \<Longrightarrow> J v \<Longrightarrow> J v'"
  using keepsD(1) [of "\<lambda>q. J (snd (fst q))" m "((s, v), h)" a "((s', v'), h')"]
    keepsD(2) [of "\<lambda>q. J (snd (fst q))" m "((s, v), h)" p "((s', v'), h')"] by simp_all

lemma keeps_on_sub [keeps_intros]: "handler_keeps J m \<Longrightarrow> handler_keeps J (on_sub sub m)"
  by (rule keepsI) (auto simp: on_sub_def split: outcome.splits
      dest: handler_keepsD)

lemma keeps_host [keeps_intros]:
  "handler_keeps J (hguard p n)" "handler_keeps J (hread p n)" "handler_keeps J (hread_ptr p)"
  "handler_keeps J (hnew bs)" "handler_keeps J (slice_data p)"
proof -
  show g: "handler_keeps J (hguard p n)" for p n by (simp add: hguard_def keeps_basic)
  have "handler_keeps J (\<lambda>(q, h). Ret (Inr (read_bytes p n (hbytes h))) (q, h))" for p n
    by (auto simp: keeps_def outcome_state_def)
  then show r: "handler_keeps J (hread p n)" for p n unfolding hread_def by (intro keeps_attempt g)
  show p: "handler_keeps J (hread_ptr p)" for p unfolding hread_ptr_def by (intro keeps_intros r)
  show "handler_keeps J (hnew bs)" by (auto simp: keeps_def hnew_def outcome_state_def)
  show "handler_keeps J (slice_data p)" unfolding slice_data_def by (intro keeps_intros p)
qed

section \<open>Encoding\<close>

text \<open>The operations of a stream an encoder uses all keep \<open>J\<close>.\<close>

definition writer_keeps :: "('v \<Rightarrow> bool) \<Rightarrow> ('s, 'v) stream_ops \<Rightarrow> bool" where
  "writer_keeps J S \<longleftrightarrow>
     (\<forall>n. stream_keeps J (SSkip S n)) \<and> (\<forall>b. stream_keeps J (SWrite S b)) \<and>
     (\<forall>f. stream_keeps J (WriteFloat S f)) \<and> (\<forall>d. stream_keeps J (WriteDouble S d)) \<and>
     (\<forall>b. stream_keeps J (WriteString S b)) \<and> (\<forall>n. stream_keeps J (WriteStream S n))"

lemma writer_keepsD:
  assumes "writer_keeps J S"
  shows "stream_keeps J (SSkip S n)" "stream_keeps J (SWrite S b)" "stream_keeps J (WriteFloat S f)"
    "stream_keeps J (WriteDouble S f)" "stream_keeps J (WriteString S b)" "stream_keeps J (WriteStream S n)"
  using assms by (simp_all add: writer_keeps_def)

lemma keeps_elems [keeps_intros]: "(\<And>p. handler_keeps J (m p)) \<Longrightarrow> handler_keeps J (elems m step n p)"
  by (induction n arbitrary: p) (simp_all add: keeps_basic keeps_attempt)

lemma keeps_run_fields [keeps_intros]:
  "(\<And>m off p. (m, off) \<in> set hs \<Longrightarrow> handler_keeps J (m p)) \<Longrightarrow> handler_keeps J (run_fields hs p)"
  unfolding run_fields_def by (rule keeps_each) auto

lemma keeps_pieces:
  assumes "writer_keeps J S"
  shows "handler_keeps J (enc_raw S n p)" "handler_keeps J (enc_null S n)" "handler_keeps J (enc_word S n bs p)"
    "handler_keeps J (skip_pad S pad)"
proof -
  note S = writer_keepsD [OF assms]
  show r: "handler_keeps J (enc_raw S n p)" for n p unfolding enc_raw_def by (intro keeps_intros S)
  show z: "handler_keeps J (enc_null S n)" for n unfolding enc_null_def by (simp add: keeps_basic keeps_on_fst S)
  show "handler_keeps J (enc_word S n bs p)"
    unfolding enc_word_def by (intro keeps_attempt r) (simp add: z keeps_basic)
  show "handler_keeps J (skip_pad S pad)" unfolding skip_pad_def by (simp add: keeps_basic keeps_on_fst S)
qed

lemma keeps_handlers:
  assumes "writer_keeps J S" "\<And>p. handler_keeps J (m p)"
  shows "handler_keeps J (fst (encodePointer S bs (m, n)) p)"
    "handler_keeps J (fst (encodeArray_custom cnt (m, n)) p)"
    "handler_keeps J (fst (encodeSlice_custom S bs (m, n)) p)"
    "field_align S off (m, n) = Inr (m', n') \<Longrightarrow> handler_keeps J (m' p)"
proof -
  note S = writer_keepsD [OF assms(1)]
  show "handler_keeps J (fst (encodePointer S bs (m, n)) p)"
    unfolding encodePointer_def by (simp, intro conjI impI keeps_intros S assms(2))
  show "handler_keeps J (fst (encodeArray_custom cnt (m, n)) p)"
    unfolding encodeArray_custom_def by (simp, intro keeps_intros assms(2))
  show "handler_keeps J (fst (encodeSlice_custom S bs (m, n)) p)"
    unfolding encodeSlice_custom_def by (simp add: split_def, intro keeps_intros S assms(2))
  show "field_align S off (m, n) = Inr (m', n') \<Longrightarrow> handler_keeps J (m' p)"
    unfolding field_align_def
    using assms(2) by (auto split: sum.splits if_splits intro!: keeps_attempt keeps_on_fst S)
qed

lemma keeps_plain:
  assumes "writer_keeps J S"
  shows "handler_keeps J (fst (encodeSlice_plain S bs sz) p)" "handler_keeps J (fst (encodeString S bs) p)"
    "handler_keeps J (fst (encodeArray_plain S cnt sz) p)"
proof -
  note S = writer_keepsD [OF assms]
  show "handler_keeps J (fst (encodeSlice_plain S bs sz) p)"
    unfolding encodeSlice_plain_def by (simp add: split_def, intro keeps_intros S)
  show "handler_keeps J (fst (encodeString S bs) p)"
    unfolding encodeString_def by (simp add: split_def, intro keeps_intros S)
  show "handler_keeps J (fst (encodeArray_plain S cnt sz) p)"
    unfolding encodeArray_plain_def by (simp add: Let_def keeps_pieces [OF assms])
qed

lemma encode_keeps:
  assumes "writer_keeps J S"
  shows "encode S bs t = Inr (m, n) \<Longrightarrow> handler_keeps J (m p)"
    and "encode_fields S bs fs n0 = Inr (hs, n) \<Longrightarrow> (m, off) \<in> set hs \<Longrightarrow> handler_keeps J (m p)"
  using assms
proof (induction S bs t and S bs fs n0 arbitrary: m n p and hs n m off p rule: encode_encode_fields.induct)
  case (1 S bs k)
  note S = writer_keepsD [OF 1(2)]
  from 1 show ?case
    by (auto split: if_splits intro!: keeps_attempt keeps_host keeps_on_fst S keeps_pieces)
next
  case (2 S bs cnt t)
  then show ?case
    using keeps_handlers(2) [OF 2(3), of _ cnt] keeps_plain(3) [OF 2(3), of cnt "go_size t" p]
    by (auto split: if_splits sum.splits) (metis fst_conv prod.collapse)+
next
  case (3 S bs t)
  then show ?case using keeps_handlers(1) [OF 3(3)] by (auto split: sum.splits) (metis fst_conv)
next
  case (4 S bs t)
  then show ?case
    using keeps_handlers(3) [OF 4(3), of _ bs] keeps_plain(1) [OF 4(3), of bs "go_size t" p]
    by (auto split: if_splits sum.splits) (metis fst_conv)+
next
  case (5 S bs)
  then show ?case using keeps_plain(2) [OF 5(2), of bs p] by simp
next
  case (6 S bs sz fs)
  then show ?case
    by (auto simp: struct_end_def encodeStruct_plain_def Let_def split: option.splits sum.splits
        intro!: keeps_attempt keeps_run_fields keeps_pieces)
next
  case (9 S bs t off' tag fs n0)
  then show ?case
    using keeps_handlers(4) [OF 9(6)]
    by (auto split: if_splits sum.splits) blast
qed simp_all

lemma Encode_keeps:
  assumes "writer_keeps J S"
  shows "handler_keeps J (Encode S val)"
  unfolding Encode_def
proof (intro keeps_seq keeps_basic)
  fix q
  show "handler_keeps J ((\<lambda>((s, v), h).
     let bs = BlockSize S s; p = AnyPtr val; t = AnyType val
     in if p = 0 then enc_null S bs
        else case encode S bs t of
          Inl c \<Rightarrow> crash c
        | Inr (m, _) \<Rightarrow> if is_pointer t \<or> one_pointer t then with_var p m else m p) q)"
    using encode_keeps(1) [OF assms]
    by (auto simp: Let_def with_var_def keeps_basic keeps_pieces [OF assms] split: prod.splits sum.splits
        intro!: keeps_attempt keeps_host)
qed

text \<open>A pointer stream keeps what its memory writes and its allocator keep.\<close>

lemma ptr_streams_keeps:
  assumes "\<And>a b v. J v \<Longrightarrow> J (snd (CMemWrite X a b v))" "\<And>n. keeps J (CAlloc X n)"
  shows "writer_keeps J (ptr_streams X)"
proof -
  have skip: "stream_keeps J (ps_Skip n :: (unit res, pstream \<times> 'a) go)" for n
    unfolding ps_Skip_def by (rule keeps_update) auto
  have wat: "keeps J (ptr_WriteAt X p b off)" for p b off
    using assms(1) by (auto simp: ptr_WriteAt_def Let_def keeps_def outcome_state_def split: prod.splits)
      (metis snd_conv)
  have wr: "stream_keeps J (ps_Write X b)" for b
    unfolding ps_Write_def
    by (auto intro!: keeps_seq keeps_basic keeps_on_snd wat skip split: prod.splits option.splits)
  have "stream_keeps J (ps_WriteStream X n)" for n
    unfolding ps_WriteStream_def
    by (auto intro!: keeps_attempt keeps_seq keeps_basic keeps_on_snd wr assms(2) split: prod.splits)
  with skip wr show ?thesis
    by (simp add: writer_keeps_def ptr_streams_def ps_WriteFloat_def ps_WriteDouble_def ps_WriteString_def)
qed

section \<open>What a failing write leaves behind\<close>

text \<open>Of the blocks in use, \<^verbatim>\<open>memWrite\<close> only touches the ones it has allocated.\<close>

definition only_new :: "map_table \<Rightarrow> 'e mem_world \<Rightarrow> bool" where
  "only_new u = (\<lambda>((s, e), addrs). \<forall>a. a \<notin> set addrs \<longrightarrow> gm_get (used s) a = gm_get u a)"

lemma write_alloc_keeps: "keeps (only_new u) (write_alloc E n)"
proof -
  have "used s' = used s" if "memAlloc E n s e = Some (Inl err, s', e')" for s e err s' and e' :: 'a
    using that by (auto simp: memAlloc_def mapAlloc_def Let_def split: if_splits option.splits prod.splits sum.splits)
  moreover have "used s' = gm_set a n (used s)" if "memAlloc E n s e = Some (Inr a, s', e')" for s e a s' and e' :: 'a
    using that by (auto simp: memAlloc_def mapAlloc_def Let_def split: if_splits option.splits prod.splits sum.splits)
  ultimately show ?thesis
    by (auto simp: keeps_def outcome_state_def write_alloc_def only_new_def gm_simps
        split: option.splits prod.splits sum.splits)
qed

lemma memFree_used:
  "used (outcome_state (mem_free_go addr s)) = used s \<or> used (outcome_state (mem_free_go addr s)) = gm_del addr (used s)"
  by (auto simp: mem_free_go_def memFree_def outcome_state_def Let_def split: option.splits outcome.splits)

lemma mem_free_go_get:
  "gm_get (used (outcome_state (mem_free_go addr s))) a = gm_get (used s) a \<or>
   gm_get (used (outcome_state (mem_free_go addr s))) a = None"
  using memFree_used [of addr s] by (auto simp: gm_simps split: if_splits)

lemma mem_free_go_gone:
  "mem_free_go addr s = Ret r t \<Longrightarrow> addr \<noteq> 0 \<Longrightarrow> gm_get (used t) addr = None"
  by (auto simp: mem_free_go_def memFree_def Let_def gm_simps split: option.splits outcome.splits)

text \<open>No entry appears while blocks are released, and those released are gone.\<close>

definition shrunk :: "map_table \<Rightarrow> map_table \<Rightarrow> bool" where
  "shrunk u u' \<longleftrightarrow> (\<forall>a. gm_get u' a = gm_get u a \<or> gm_get u' a = None)"

lemma shrunk_trans: "shrunk u u' \<Longrightarrow> shrunk u' u'' \<Longrightarrow> shrunk u u''"
  unfolding shrunk_def by metis

lemma free_addrs_shrinks:
  "free_addrs addrs s = Ret r t \<Longrightarrow> shrunk (used s) (used t) \<and> (\<forall>a \<in> set addrs. a \<noteq> 0 \<longrightarrow> gm_get (used t) a = None)"
proof (induction addrs arbitrary: s)
  case Nil
  then show ?case by (simp add: free_addrs_def shrunk_def ret_def)
next
  case (Cons b addrs)
  then obtain q s1 where f: "mem_free_go b s = Ret q s1" and rest: "free_addrs addrs s1 = Ret r t"
    by (auto simp: free_addrs_def attempt_def seq_def ret_def split: outcome.splits)
  have s1: "shrunk (used s) (used s1)"
    using mem_free_go_get [of b s] f by (simp add: shrunk_def outcome_state_def)
  note IH = Cons.IH [OF rest]
  have "gm_get (used t) b = None" if "b \<noteq> 0"
    using mem_free_go_gone [OF f that] IH unfolding shrunk_def by metis
  with IH shrunk_trans [OF s1] show ?case by auto
qed

lemma memWrite_shrinks:
  assumes "memWrite D E addr val ((s, e), h) = Ret (Inl err) ((s', e'), h')"
  shows "\<forall>a. a \<noteq> 0 \<longrightarrow> gm_get (used s') a = gm_get (used s) a \<or> gm_get (used s') a = None"
proof -
  let ?X = "mem_ctx E (write_alloc E)" and ?p = "PointerStream addr (unat (DPointerSize D))"
  obtain p1 s1 e1 addrs r where run: "Encode (ptr_streams ?X) val ((?p, ((s, e), [])), h) = Ret (Inl err) ((p1, ((s1, e1), addrs)), h')"
    and fr: "free_addrs addrs s1 = Ret r s'"
    using assms by (auto simp: memWrite_def split: outcome.splits sum.splits)
  have "writer_keeps (only_new (used s)) (ptr_streams ?X)"
    using write_alloc_keeps by (intro ptr_streams_keeps) (auto simp: mem_ctx_def only_new_def split: prod.splits)
  from Encode_keeps [OF this, of val] run have "only_new (used s) ((s1, e1), addrs)"
    by (rule handler_keepsD(1)) (simp add: only_new_def)
  then have "a \<notin> set addrs \<Longrightarrow> gm_get (used s1) a = gm_get (used s) a" for a by (simp add: only_new_def)
  with free_addrs_shrinks [OF fr] show ?thesis unfolding shrunk_def by metis
qed

text \<open>C13: An import that fails leaves no block behind: whatever the value, and wherever allocating, encoding or writing it failed, a block that is in use afterwards was in use before, with the same size.\<close>

theorem failed_import_leaks_nothing:
  assumes "memImport D E val ((s, e), h) = Ret (Inl err) ((s', e'), h')" "a \<noteq> 0"
    "gm_get (used s') a = Some n"
  shows "gm_get (used s) a = Some n"
proof -
  obtain k where size: "EncodeSize (ptr_streams (mem_ctx E (write_alloc E))) (unat (DPointerSize D)) val = Inr k"
    using assms(1) by (auto simp: memImport_def split: sum.splits)
  consider (none) s1 e1 where "memAlloc E (word_of_int k) s e = Some (Inl err, s1, e1)" "s' = s1"
    | (some) addr s1 e1 s2 e2 h2 q where "memAlloc E (word_of_int k) s e = Some (Inr addr, s1, e1)"
      "memWrite D E addr val ((s1, e1), h) = Ret (Inl err) ((s2, e2), h2)" "mem_free_go addr s2 = Ret q s'"
    using assms(1) size
    by (auto simp: memImport_def seq_def ret_def on_fst_def split: option.splits sum.splits outcome.splits prod.splits)
  then show ?thesis
  proof cases
    case none
    then have "used s' = used s"
      by (auto simp: memAlloc_def mapAlloc_def Let_def split: if_splits option.splits prod.splits sum.splits)
    with assms(3) show ?thesis by simp
  next
    case some
    then have u: "used s1 = gm_set addr (word_of_int k) (used s)"
      by (auto simp: memAlloc_def mapAlloc_def Let_def split: if_splits option.splits prod.splits sum.splits)
    have "a \<noteq> addr" using mem_free_go_gone [OF some(3)] assms(2,3) by auto
    moreover have "gm_get (used s1) a = Some n"
      using memWrite_shrinks [OF some(2)] mem_free_go_get [of addr s2 a] some(3) assms(2,3)
      by (auto simp: outcome_state_def)
    ultimately show ?thesis by (simp add: u gm_simps)
  qed
qed

text \<open>An emulator whose memory cannot be written, and a value of four bytes.\<close>

definition ro_emu :: "semu emulator" where
  "ro_emu = E0\<lparr>EmuMemWrite := (\<lambda>a b e. (Some (Foreign 3), e))\<rparr>"

definition four_bytes :: goany where
  "four_bytes = \<lparr>AnyType = Basic Uint32, AnyPtr = 0x10000\<rparr>"

definition host0 :: host where
  "host0 = \<lparr>hbytes = (\<lambda>_. 7), hnext = 0x20000\<rparr>"

lemma failed_import_run:
  "\<exists>s' e' h'. memImport Arm64Dbg ro_emu four_bytes (st1, host0) = Ret (Inl (Foreign 3)) ((s', e'), h') \<and>
     gm_get (used s') 0x400000 = Some 0x10"
  by (simp add: memImport_def memWrite_def EncodeSize_def Encode_def four_bytes_def ro_emu_def host0_def Arm64Dbg_def
      ptr_streams_def PointerStream_def mem_ctx_def write_alloc_def enc_raw_def hread_def hguard_def ps_Write_def
      ptr_WriteAt_def go_defs free_addrs_def ss_Size_def is_pointer_def one_pointer_def word_kind_def Let_def
      st1_def mgr_simps run_simps emu_simps E0_def mem_free_go_def)

theorem failed_import_leaks_nothing_witness:
  "\<exists>s' e' h'. memImport Arm64Dbg ro_emu four_bytes (st1, host0) = Ret (Inl (Foreign 3)) ((s', e'), h') \<and>
     gm_get (used s') 0x400000 = Some 0x10 \<and> gm_get (used (fst st1)) 0x400000 = Some 0x10"
proof -
  obtain s' e' h' where run: "memImport Arm64Dbg ro_emu four_bytes (st1, host0) = Ret (Inl (Foreign 3)) ((s', e'), h')"
    and u: "gm_get (used s') 0x400000 = Some 0x10"
    using failed_import_run by blast
  moreover have "gm_get (used (fst st1)) 0x400000 = Some 0x10"
    using run u by (intro failed_import_leaks_nothing [of Arm64Dbg ro_emu four_bytes "fst st1" "snd st1"]) simp_all
  ultimately show ?thesis by blast
qed

section \<open>Bound memory\<close>

lemma bound_read_written:
  assumes "unat a + n < 2 ^ 64" "length bs \<le> n"
  shows "read_bytes a n (write_bytes a bs m) = bs @ drop (length bs) (read_bytes a n m)"
proof (rule nth_equalityI)
  fix i assume "i < length (read_bytes a n (write_bytes a bs m))"
  then have i: "i < n" by simp
  then have "unat (of_nat i :: u64) = i" using assms(1) by (simp add: unat_of_nat)
  then show "read_bytes a n (write_bytes a bs m) ! i = (bs @ drop (length bs) (read_bytes a n m)) ! i"
    using i assms by (simp add: read_bytes_nth write_bytes_at nth_append)
qed (use assms(2) in simp)

text \<open>C38: What the guest writes to bound memory arrives only as far as the offset leaves room in an access of that size: of \<open>n\<close> bytes written at an offset the debugger's memory gets the first \<open>n\<close> minus the offset, the rest stays as it was; and when the offset is larger than the access the callback panics and nothing is stored.\<close>

theorem bound_write_truncated:
  assumes "unat n \<le> 8" "4096 \<le> unat (p + (addr - base))" "unat (p + (addr - base)) + unat n < 2 ^ 64"
  shows "case bind_callback X p base HOOK_TYPE_MEM_WRITE addr n val (v, h) of
      Ret r (v', h') \<Rightarrow> r = HookResult_Next \<and> v' = v \<and> unat (addr - base) \<le> unat n \<and>
        (let k = unat n - unat (addr - base) in
         read_bytes (p + (addr - base)) (unat n) (hbytes h') =
           take k (le_bytes (unat n) val) @ drop k (read_bytes (p + (addr - base)) (unat n) (hbytes h)))
    | Panic c (v', h') \<Rightarrow> c = SliceBounds \<and> v' = v \<and> h' = h \<and> unat n < unat (addr - base)"
proof -
  let ?off = "addr - base"
  have hook: "HOOK_TYPE_MEM_WRITE \<noteq> HOOK_TYPE_MEM_READ" by (simp add: hook_type_defs)
  have n8: "\<not> 8 < n" using assms(1) by (simp add: word_less_nat_alt)
  show ?thesis
  proof (cases "n < ?off")
    case True
    then show ?thesis using hook by (simp add: bind_callback_def bind_write_def crash_def word_less_nat_alt)
  next
    case False
    then have le: "unat ?off \<le> unat n" and k: "unat (n - ?off) = unat n - unat ?off"
      by (simp_all add: not_less word_le_nat_alt unat_sub_nowrap)
    let ?b = "take (unat n - unat ?off) (le_bytes (unat n) val)"
    have "bind_callback X p base HOOK_TYPE_MEM_WRITE addr n val (v, h) =
        Ret HookResult_Next (v, h\<lparr>hbytes := write_bytes (p + ?off) ?b (hbytes h)\<rparr>)"
      using False hook n8 assms(2) k
      by (auto simp: bind_callback_def bind_write_def hwrite_def hguard_def go_defs Let_def)
    then show ?thesis using le bound_read_written [OF assms(3), of ?b "hbytes h"] by (simp add: Let_def)
  qed
qed

theorem bound_write_truncated_witness:
  "case bind_callback (mem_ctx E0 (write_alloc E0)) 0x10000 0x400000 HOOK_TYPE_MEM_WRITE 0x400001 4 0xaabbccdd
      (((mem_ctor, semu0), []), host0) of
     Ret r (v', h') \<Rightarrow> read_bytes 0x10001 4 (hbytes h') = [0xdd, 0xcc, 0xbb, 7]
   | Panic c s \<Rightarrow> False"
proof -
  have "le_bytes 4 0xaabbccdd = [0xdd, 0xcc, 0xbb, 0xaa]" "read_bytes 0x10001 4 (\<lambda>_. 7) = [7, 7, 7, 7 :: byte]"
    by code_simp+
  then show ?thesis
    using bound_write_truncated [where n = 4 and p = "0x10000" and addr = "0x400001" and base = "0x400000" and
        X = "mem_ctx E0 (write_alloc E0)" and val = "0xaabbccdd" and v = "((mem_ctor, semu0), [])" and h = host0]
    by (simp add: host0_def split: outcome.splits prod.splits)
qed

end
