(* ===== verification/Modules.thy ===== *)
theory Modules
  imports Arena Emulator
begin

text \<open>
  The module manager (\<^verbatim>\<open>internal/debugger/module.go\<close>) and the exceptions that say in which module a
  task was when it was ended (\<^verbatim>\<open>debugger/errors.go\<close>). A module is an object of the user's, behind the
  interface of \<^verbatim>\<open>debugger/module.go\<close>: a number stands for its identity, and what its methods return is
  a parameter. The printed text of an exception is in the theory \<open>ExcText\<close>.
\<close>

section \<open>Modules\<close>

record module_iface =
  MName :: string
  MRegion :: "u64 \<times> u64"
  MBaseAddr :: u64
  MFindSymbol :: "string \<Rightarrow> u64 res"

type_synonym modules = "nat \<Rightarrow> module_iface"

text \<open>The state is the list \<^verbatim>\<open>loaded\<close>.\<close>

definition mod_Load :: "nat \<Rightarrow> nat list \<Rightarrow> nat list" where
  "mod_Load m loaded = (if m \<in> set loaded then loaded else loaded @ [m])"

definition mod_Unload :: "nat \<Rightarrow> nat list \<Rightarrow> nat list" where
  "mod_Unload m loaded = filter (\<lambda>k. k \<noteq> m) loaded"

fun FindModule :: "modules \<Rightarrow> string \<Rightarrow> nat list \<Rightarrow> nat res" where
  "FindModule M name [] = Inl ErrModuleNotFound"
| "FindModule M name (m # ms) = (if MName (M m) = name then Inr m else FindModule M name ms)"

fun FindModuleByAddr :: "modules \<Rightarrow> u64 \<Rightarrow> nat list \<Rightarrow> nat res" where
  "FindModuleByAddr M addr [] = Inl ErrModuleNotFound"
| "FindModuleByAddr M addr (m # ms) =
     (let (begin, n) = MRegion (M m)
      in if addr \<ge> begin \<and> addr < begin + n then Inr m else FindModuleByAddr M addr ms)"

fun FindSymbol :: "modules \<Rightarrow> string \<Rightarrow> nat list \<Rightarrow> (nat \<times> u64) res" where
  "FindSymbol M name [] = Inl ErrSymbolNotFound"
| "FindSymbol M name (m # ms) =
     (case MFindSymbol (M m) name of Inr addr \<Rightarrow> Inr (m, addr) | Inl _ \<Rightarrow> FindSymbol M name ms)"

fun GetModule :: "modules \<Rightarrow> u64 \<Rightarrow> nat list \<Rightarrow> nat option" where
  "GetModule M addr [] = None"
| "GetModule M addr (m # ms) = (if MBaseAddr (M m) = addr then Some m else GetModule M addr ms)"

text \<open>The destructor closes the modules in the order they were loaded in.\<close>

definition mod_dtor :: "(nat \<Rightarrow> 'w \<Rightarrow> 'w) \<Rightarrow> nat list \<Rightarrow> 'w \<Rightarrow> 'w" where
  "mod_dtor close loaded w = fold close loaded w"

section \<open>Exceptions\<close>

record simulateException =
  se_ctx :: nat
  se_mod :: string
  se_pc :: u64

text \<open>An error of the register read is dropped, and the program counter is zero then.\<close>

definition initException :: "modules \<Rightarrow> nat list \<Rightarrow> (reg \<Rightarrow> u64 res) \<Rightarrow> reg \<Rightarrow> nat \<Rightarrow> simulateException" where
  "initException M loaded rd pcreg ctx =
     (let pc = (case rd pcreg of Inl _ \<Rightarrow> 0 | Inr v \<Rightarrow> v)
      in case FindModuleByAddr M pc loaded of
           Inl _ \<Rightarrow> \<lparr>se_ctx = ctx, se_mod = '''', se_pc = pc\<rparr>
         | Inr m \<Rightarrow> \<lparr>se_ctx = ctx, se_mod = MName (M m), se_pc = pc - MBaseAddr (M m)\<rparr>)"

datatype exception =
    InterruptException simulateException u64
  | InvalidInstructionException simulateException
  | InvalidMemoryException simulateException u64 u64 u64 u64
  | PanicException simulateException nat "byte list"

definition NewInterruptException ::
  "modules \<Rightarrow> nat list \<Rightarrow> (reg \<Rightarrow> u64 res) \<Rightarrow> reg \<Rightarrow> nat \<Rightarrow> u64 \<Rightarrow> exception" where
  "NewInterruptException M loaded rd pcreg ctx intno =
     InterruptException (initException M loaded rd pcreg ctx) intno"

definition NewInvalidInstructionException ::
  "modules \<Rightarrow> nat list \<Rightarrow> (reg \<Rightarrow> u64 res) \<Rightarrow> reg \<Rightarrow> nat \<Rightarrow> exception" where
  "NewInvalidInstructionException M loaded rd pcreg ctx =
     InvalidInstructionException (initException M loaded rd pcreg ctx)"

definition NewInvalidMemoryException ::
  "modules \<Rightarrow> nat list \<Rightarrow> (reg \<Rightarrow> u64 res) \<Rightarrow> reg \<Rightarrow> nat \<Rightarrow> u64 \<Rightarrow> u64 \<Rightarrow> u64 \<Rightarrow> u64 \<Rightarrow> exception" where
  "NewInvalidMemoryException M loaded rd pcreg ctx typ addr n val =
     InvalidMemoryException (initException M loaded rd pcreg ctx) typ addr n val"

definition NewPanicException ::
  "modules \<Rightarrow> nat list \<Rightarrow> (reg \<Rightarrow> u64 res) \<Rightarrow> reg \<Rightarrow> nat \<Rightarrow> nat \<Rightarrow> byte list \<Rightarrow> exception" where
  "NewPanicException M loaded rd pcreg ctx v stk =
     PanicException (initException M loaded rd pcreg ctx) v stk"

section \<open>What the lookups find\<close>

definition mod_op :: "nat + nat \<Rightarrow> nat list \<Rightarrow> nat list" where
  "mod_op op loaded = (case op of Inl m \<Rightarrow> mod_Load m loaded | Inr m \<Rightarrow> mod_Unload m loaded)"

text \<open>After any loads and unloads: the modules whose last operation was a load.\<close>

definition loaded_after :: "(nat + nat) list \<Rightarrow> nat list" where
  "loaded_after ops = fold mod_op ops []"

fun last_is_load :: "nat \<Rightarrow> (nat + nat) list \<Rightarrow> bool" where
  "last_is_load m [] = False"
| "last_is_load m (op # ops) =
     (if Inl m \<in> set ops \<or> Inr m \<in> set ops then last_is_load m ops else op = Inl m)"

lemma last_is_load_snoc:
  "last_is_load m (ops @ [op]) = (if op = Inl m then True else if op = Inr m then False else last_is_load m ops)"
  by (induction ops) auto

lemma loaded_after_set: "set (loaded_after ops) = {m. last_is_load m ops} \<and> distinct (loaded_after ops)"
  by (induction ops rule: rev_induct)
    (auto simp: loaded_after_def mod_op_def mod_Load_def mod_Unload_def last_is_load_snoc split: sum.splits if_splits)

lemma FindModuleByAddr_sound:
  "FindModuleByAddr M addr ms = Inr m \<Longrightarrow>
     m \<in> set ms \<and> addr \<ge> fst (MRegion (M m)) \<and> addr < fst (MRegion (M m)) + snd (MRegion (M m))"
  by (induction ms) (auto split: prod.splits if_splits)

lemma FindModuleByAddr_complete:
  "m \<in> set ms \<Longrightarrow> addr \<ge> fst (MRegion (M m)) \<Longrightarrow> addr < fst (MRegion (M m)) + snd (MRegion (M m)) \<Longrightarrow>
     \<exists>k. FindModuleByAddr M addr ms = Inr k"
  by (induction ms) (auto split: prod.splits)

lemma in_region:
  fixes b n addr :: u64
  assumes "unat b + unat n < 2 ^ 64"
  shows "(addr \<ge> b \<and> addr < b + n) = (unat b \<le> unat addr \<and> unat addr < unat b + unat n)"
  using unat_add64 [of b n] assms by (simp add: word_le_nat_alt word_less_nat_alt)

text \<open>C39: After any sequence of loads and unloads the loaded modules are those whose last operation was a load, each once; and if their regions do not reach the end of the address space and do not overlap, \<^verbatim>\<open>FindModuleByAddr\<close> returns exactly the module whose region holds the address, whatever the order they were loaded in.\<close>

theorem module_of_address:
  assumes "\<forall>m. last_is_load m ops \<longrightarrow> unat (fst (MRegion (M m))) + unat (snd (MRegion (M m))) < 2 ^ 64"
    and "\<forall>m k. last_is_load m ops \<and> last_is_load k ops \<and> m \<noteq> k \<longrightarrow>
      span (fst (MRegion (M m))) (snd (MRegion (M m))) \<inter> span (fst (MRegion (M k))) (snd (MRegion (M k))) = {}"
  shows "distinct (loaded_after ops) \<and>
    (FindModuleByAddr M addr (loaded_after ops) = Inr m \<longleftrightarrow>
       last_is_load m ops \<and> unat addr \<in> span (fst (MRegion (M m))) (snd (MRegion (M m))))"
proof -
  let ?S = "\<lambda>m. span (fst (MRegion (M m))) (snd (MRegion (M m)))"
  have set: "set (loaded_after ops) = {m. last_is_load m ops}" and dist: "distinct (loaded_after ops)"
    using loaded_after_set by auto
  have region: "(addr \<ge> fst (MRegion (M k)) \<and> addr < fst (MRegion (M k)) + snd (MRegion (M k))) = (unat addr \<in> ?S k)"
    if "last_is_load k ops" for k
    using in_region [of "fst (MRegion (M k))" "snd (MRegion (M k))" addr] assms(1) that by (auto simp: span_def)
  have "FindModuleByAddr M addr (loaded_after ops) = Inr m \<longleftrightarrow> last_is_load m ops \<and> unat addr \<in> ?S m"
  proof
    assume "FindModuleByAddr M addr (loaded_after ops) = Inr m"
    then show "last_is_load m ops \<and> unat addr \<in> ?S m"
      using FindModuleByAddr_sound [of M addr "loaded_after ops" m] set region [of m] by auto
  next
    assume m: "last_is_load m ops \<and> unat addr \<in> ?S m"
    then obtain k where k: "FindModuleByAddr M addr (loaded_after ops) = Inr k"
      using FindModuleByAddr_complete [of m "loaded_after ops" M addr] set region [of m] by auto
    then have "last_is_load k ops \<and> unat addr \<in> ?S k"
      using FindModuleByAddr_sound [of M addr "loaded_after ops" k] set region [of k] by auto
    with m assms(2) have "k = m" by blast
    with k show "FindModuleByAddr M addr (loaded_after ops) = Inr m" by simp
  qed
  with dist show ?thesis by blast
qed

definition sample_mods :: modules where
  "sample_mods = (\<lambda>m. \<lparr>MName = ''m'', MRegion = (of_nat m * 0x1000, if m < 4 then 0x1000 else 0),
     MBaseAddr = of_nat m * 0x1000, MFindSymbol = (\<lambda>_. Inl ErrSymbolNotFound)\<rparr>)"

theorem module_of_address_witness:
  "distinct (loaded_after [Inl 1, Inl 2, Inl 1, Inr 1, Inl 1]) \<and>
   FindModuleByAddr sample_mods 0x1fff (loaded_after [Inl 1, Inl 2, Inl 1, Inr 1, Inl 1]) = Inr 1"
proof -
  let ?ops = "[Inl 1, Inl 2, Inl 1, Inr 1, Inl (1::nat)] :: (nat + nat) list"
  have l: "last_is_load m ?ops = (m = 1 \<or> m = 2)" for m by auto
  have "\<forall>m. last_is_load m ?ops \<longrightarrow>
      unat (fst (MRegion (sample_mods m))) + unat (snd (MRegion (sample_mods m))) < 2 ^ 64"
    unfolding l by (auto simp: sample_mods_def)
  moreover have "\<forall>m k. last_is_load m ?ops \<and> last_is_load k ?ops \<and> m \<noteq> k \<longrightarrow>
      span (fst (MRegion (sample_mods m))) (snd (MRegion (sample_mods m))) \<inter>
      span (fst (MRegion (sample_mods k))) (snd (MRegion (sample_mods k))) = {}"
    unfolding l by (auto simp: sample_mods_def span_def)
  ultimately have "distinct (loaded_after ?ops) \<and> (FindModuleByAddr sample_mods 0x1fff (loaded_after ?ops) = Inr 1 \<longleftrightarrow>
      last_is_load 1 ?ops \<and> unat (0x1fff :: u64) \<in> span (fst (MRegion (sample_mods 1))) (snd (MRegion (sample_mods 1))))"
    by (rule module_of_address)
  then show ?thesis unfolding l by (simp add: sample_mods_def span_def)
qed

text \<open>
  What an exception says of where the task was: the module that holds the program counter and the
  offset in it, or the program counter itself when no module does.
\<close>

lemma exception_place:
  assumes "rd pcreg = Inr pc" "initException M loaded rd pcreg ctx = e"
  shows "(\<exists>m. FindModuleByAddr M pc loaded = Inr m \<and> se_mod e = MName (M m) \<and> MBaseAddr (M m) + se_pc e = pc) \<or>
    (\<exists>err. FindModuleByAddr M pc loaded = Inl err \<and> se_mod e = '''' \<and> se_pc e = pc)"
  using assms by (auto simp: initException_def split: sum.splits)

lemma FindSymbol_first:
  assumes "FindSymbol M name ms = Inr (m, addr)"
  shows "\<exists>pre suf. ms = pre @ m # suf \<and> MFindSymbol (M m) name = Inr addr \<and>
    (\<forall>k \<in> set pre. \<exists>err. MFindSymbol (M k) name = Inl err)"
  using assms
proof (induction ms)
  case (Cons k ms)
  show ?case
  proof (cases "MFindSymbol (M k) name")
    case (Inl err)
    with Cons obtain pre suf where p: "ms = pre @ m # suf" "MFindSymbol (M m) name = Inr addr"
      "\<forall>k \<in> set pre. \<exists>err. MFindSymbol (M k) name = Inl err" by auto
    show ?thesis by (rule exI [of _ "k # pre"]) (use p Inl in auto)
  next
    case (Inr a)
    with Cons.prems show ?thesis by (intro exI [of _ "[]"] exI [of _ ms]) auto
  qed
qed simp

lemma closed_in_order: "mod_dtor close (xs @ ys) w = mod_dtor close ys (mod_dtor close xs w)"
  by (simp add: mod_dtor_def)

end
