(* ===== verification/Sockets.thy ===== *)
theory Sockets
  imports GoRun
begin

text \<open>
  The sockets of \<^verbatim>\<open>socket/socket.go\<close>: an address, a listener and a connection, and the guards on what
  may follow what. The network itself (\<^verbatim>\<open>net.Listen\<close>, \<^verbatim>\<open>net.Dial\<close>, \<^verbatim>\<open>Accept\<close>, the connection) is a
  record of operations on an abstract state. The abstract specification is a machine of four states;
  every operation refines it.
\<close>

section \<open>The network\<close>

record 'w network =
  NetListen :: "string \<Rightarrow> string \<Rightarrow> 'w \<Rightarrow> nat res \<times> 'w"
  NetDial :: "string \<Rightarrow> string \<Rightarrow> 'w \<Rightarrow> nat res \<times> 'w"
  NetAccept :: "nat \<Rightarrow> 'w \<Rightarrow> nat res \<times> 'w"
  ListenerClose :: "nat \<Rightarrow> 'w \<Rightarrow> goerr option \<times> 'w"
  ConnClose :: "nat \<Rightarrow> 'w \<Rightarrow> goerr option \<times> 'w"
  ConnRead :: "nat \<Rightarrow> nat \<Rightarrow> 'w \<Rightarrow> (byte list \<times> goerr option) \<times> 'w"
  ConnWrite :: "nat \<Rightarrow> byte list \<Rightarrow> 'w \<Rightarrow> (nat \<times> goerr option) \<times> 'w"

section \<open>Sockets\<close>

record socket =
  sk_t :: string
  sk_a :: string
  sk_l :: "nat option"
  sk_c :: "nat option"

definition sock_New :: "string \<Rightarrow> socket" where
  "sock_New t = \<lparr>sk_t = t, sk_a = '''', sk_l = None, sk_c = None\<rparr>"

definition Bind :: "string \<Rightarrow> socket \<Rightarrow> goerr option \<times> socket" where
  "Bind addr s =
     (if sk_a s \<noteq> '''' then (Some ErrAlreadyBind, s)
      else if sk_c s \<noteq> None then (Some ErrAlreadyConnect, s)
      else (None, s\<lparr>sk_a := addr\<rparr>))"

definition Listen :: "'w network \<Rightarrow> socket \<Rightarrow> 'w \<Rightarrow> goerr option \<times> socket \<times> 'w" where
  "Listen N s w =
     (if sk_a s = '''' then (Some ErrNotBind, s, w)
      else if sk_l s \<noteq> None then (Some ErrAlreadyListen, s, w)
      else if sk_c s \<noteq> None then (Some ErrAlreadyConnect, s, w)
      else case NetListen N (sk_t s) (sk_a s) w of
        (Inl err, w) \<Rightarrow> (Some err, s\<lparr>sk_l := None\<rparr>, w)
      | (Inr l, w) \<Rightarrow> (None, s\<lparr>sk_l := Some l\<rparr>, w))"

definition Accept :: "'w network \<Rightarrow> socket \<Rightarrow> 'w \<Rightarrow> socket res \<times> 'w" where
  "Accept N s w =
     (case sk_l s of
        None \<Rightarrow> (Inl ErrNotListen, w)
      | Some l \<Rightarrow>
          (if sk_c s \<noteq> None then (Inl ErrAlreadyConnect, w)
           else case NetAccept N l w of
             (Inl err, w) \<Rightarrow> (Inl err, w)
           | (Inr c, w) \<Rightarrow> (Inr \<lparr>sk_t = sk_t s, sk_a = '''', sk_l = None, sk_c = Some c\<rparr>, w)))"

definition Connect :: "'w network \<Rightarrow> string \<Rightarrow> socket \<Rightarrow> 'w \<Rightarrow> goerr option \<times> socket \<times> 'w" where
  "Connect N addr s w =
     (if sk_a s \<noteq> '''' then (Some ErrAlreadyBind, s, w)
      else if sk_l s \<noteq> None then (Some ErrAlreadyListen, s, w)
      else if sk_c s \<noteq> None then (Some ErrAlreadyConnect, s, w)
      else case NetDial N (sk_t s) addr w of
        (Inl err, w) \<Rightarrow> (Some err, s\<lparr>sk_c := None\<rparr>, w)
      | (Inr c, w) \<Rightarrow> (None, s\<lparr>sk_c := Some c\<rparr>, w))"

definition sock_Close :: "'w network \<Rightarrow> socket \<Rightarrow> 'w \<Rightarrow> goerr option \<times> 'w" where
  "sock_Close N s w =
     (case sk_l s of
        Some l \<Rightarrow> ListenerClose N l w
      | None \<Rightarrow> (case sk_c s of Some c \<Rightarrow> ConnClose N c w | None \<Rightarrow> (None, w)))"

definition sock_Read :: "'w network \<Rightarrow> nat \<Rightarrow> socket \<Rightarrow> 'w \<Rightarrow> (byte list \<times> goerr option) \<times> 'w" where
  "sock_Read N n s w = (case sk_c s of None \<Rightarrow> (([], Some ErrNotConnect), w) | Some c \<Rightarrow> ConnRead N c n w)"

definition sock_Write :: "'w network \<Rightarrow> byte list \<Rightarrow> socket \<Rightarrow> 'w \<Rightarrow> (nat \<times> goerr option) \<times> 'w" where
  "sock_Write N b s w = (case sk_c s of None \<Rightarrow> ((0, Some ErrNotConnect), w) | Some c \<Rightarrow> ConnWrite N c b w)"

definition sock_Control :: "nat \<Rightarrow> socket \<Rightarrow> goerr option" where
  "sock_Control op s = Some ErrUnsupported"

text \<open>What a socket says of itself: nothing but its mode, and the time of the question.\<close>

record 't sock_info =
  si_Name :: string
  si_Size :: int
  si_Mode :: u32
  si_ModTime :: 't
  si_IsDir :: bool

definition ModeSocket :: u32 where "ModeSocket = push_bit 24 1"

definition sock_Stat :: "'t \<Rightarrow> 't sock_info" where
  "sock_Stat now = \<lparr>si_Name = '''', si_Size = 0, si_Mode = ModeSocket, si_ModTime = now, si_IsDir = False\<rparr>"

section \<open>The machine\<close>

datatype sock_state = Fresh | Bound | Listening | Connected

datatype sock_op = OBind string | OListen | OConnect string | OAccept | OClose | ORead nat | OWrite "byte list"

text \<open>What an operation does to a socket; an accepted connection is a socket of its own.\<close>

definition sock_apply :: "'w network \<Rightarrow> sock_op \<Rightarrow> socket \<times> 'w \<Rightarrow> goerr option \<times> (socket \<times> 'w)" where
  "sock_apply N op = (\<lambda>(s, w). case op of
     OBind a \<Rightarrow> (case Bind a s of (err, s) \<Rightarrow> (err, (s, w)))
   | OListen \<Rightarrow> (case Listen N s w of (err, s, w) \<Rightarrow> (err, (s, w)))
   | OConnect a \<Rightarrow> (case Connect N a s w of (err, s, w) \<Rightarrow> (err, (s, w)))
   | OAccept \<Rightarrow> (case Accept N s w of (Inl err, w) \<Rightarrow> (Some err, (s, w)) | (Inr _, w) \<Rightarrow> (None, (s, w)))
   | OClose \<Rightarrow> (case sock_Close N s w of (err, w) \<Rightarrow> (err, (s, w)))
   | ORead n \<Rightarrow> (case sock_Read N n s w of ((_, err), w) \<Rightarrow> (err, (s, w)))
   | OWrite b \<Rightarrow> (case sock_Write N b s w of ((_, err), w) \<Rightarrow> (err, (s, w))))"

text \<open>
  The specification: the error an operation is refused with in a state, and the state it leads to
  when it is done. An empty address binds nothing.
\<close>

fun refused :: "sock_op \<Rightarrow> sock_state \<Rightarrow> goerr option" where
  "refused (OBind a) Bound = Some ErrAlreadyBind"
| "refused (OBind a) Listening = Some ErrAlreadyBind"
| "refused (OBind a) Connected = Some ErrAlreadyConnect"
| "refused OListen Fresh = Some ErrNotBind"
| "refused OListen Connected = Some ErrNotBind"
| "refused OListen Listening = Some ErrAlreadyListen"
| "refused (OConnect a) Bound = Some ErrAlreadyBind"
| "refused (OConnect a) Listening = Some ErrAlreadyBind"
| "refused (OConnect a) Connected = Some ErrAlreadyConnect"
| "refused OAccept st = (if st = Listening then None else Some ErrNotListen)"
| "refused (ORead n) st = (if st = Connected then None else Some ErrNotConnect)"
| "refused (OWrite b) st = (if st = Connected then None else Some ErrNotConnect)"
| "refused _ _ = None"

fun next_state :: "sock_op \<Rightarrow> sock_state \<Rightarrow> sock_state" where
  "next_state (OBind a) st = (if a = '''' then st else Bound)"
| "next_state OListen st = Listening"
| "next_state (OConnect a) st = Connected"
| "next_state _ st = st"

text \<open>The states as the fields show them, for the sockets that can arise.\<close>

definition sock_abs :: "socket \<Rightarrow> sock_state" where
  "sock_abs s =
     (if sk_c s \<noteq> None then Connected else if sk_l s \<noteq> None then Listening
      else if sk_a s \<noteq> '''' then Bound else Fresh)"

definition sock_ok :: "socket \<Rightarrow> bool" where
  "sock_ok s \<longleftrightarrow> (sk_c s \<noteq> None \<longrightarrow> sk_a s = '''' \<and> sk_l s = None) \<and> (sk_l s \<noteq> None \<longrightarrow> sk_a s \<noteq> '''')"

lemmas sock_defs = Bind_def Listen_def Accept_def Connect_def sock_Close_def sock_Read_def sock_Write_def

lemma sock_ok_New: "sock_ok (sock_New t)"
  by (simp add: sock_New_def sock_ok_def)

lemma sock_ok_Accept: "Accept N s w = (Inr s', w') \<Longrightarrow> sock_ok s' \<and> sock_abs s' = Connected \<and> sk_t s' = sk_t s"
  by (auto simp: Accept_def sock_ok_def sock_abs_def split: option.splits if_splits prod.splits sum.splits)

lemma sock_ok_apply:
  assumes "sock_ok s" "sock_apply N op (s, w) = (err, (s', w'))"
  shows "sock_ok s'"
  using assms
  by (cases op) (auto simp: sock_apply_def sock_defs sock_ok_def split: if_splits option.splits prod.splits sum.splits)

text \<open>An operation the state refuses fails with that error and changes nothing, not even the network.\<close>

lemma apply_refused:
  assumes "sock_ok s" "refused op (sock_abs s) = Some err"
  shows "sock_apply N op (s, w) = (Some err, (s, w))"
  using assms
  by (cases op) (auto simp: sock_apply_def sock_defs sock_ok_def sock_abs_def split: if_splits option.splits)

lemma apply_allowed:
  assumes "sock_ok s" "refused op (sock_abs s) = None" "sock_apply N op (s, w) = (err, (s', w'))"
  shows "sock_abs s' = (if err = None then next_state op (sock_abs s) else sock_abs s)"
  using assms
  by (cases op) (auto simp: sock_apply_def sock_defs sock_ok_def sock_abs_def
      split: if_splits option.splits prod.splits sum.splits)

definition sock_run :: "'w network \<Rightarrow> sock_op list \<Rightarrow> socket \<times> 'w \<Rightarrow> socket \<times> 'w" where
  "sock_run N ops st = fold (\<lambda>op st. snd (sock_apply N op st)) ops st"

lemma sock_ok_run: "sock_ok (fst st) \<Longrightarrow> sock_ok (fst (sock_run N ops st))"
proof (induction ops arbitrary: st)
  case (Cons op ops)
  obtain err s' w' where "sock_apply N op st = (err, (s', w'))" by (metis prod.exhaust)
  then have "sock_ok (fst (snd (sock_apply N op st)))"
    using sock_ok_apply [of "fst st" N op "snd st"] Cons.prems by simp
  then show ?case using Cons.IH by (simp add: sock_run_def)
qed (simp add: sock_run_def)

text \<open>C40: After any operations on a new socket, it behaves as the machine of four states: an operation the state refuses returns the error of that state and changes neither the socket nor the network; any other moves the socket to the state the machine says when it succeeds and leaves it where it is when the network fails.\<close>

theorem socket_machine:
  assumes "sock_run N ops (sock_New t, w0) = (s, w)"
  shows "case refused op (sock_abs s) of
      Some err \<Rightarrow> sock_apply N op (s, w) = (Some err, (s, w))
    | None \<Rightarrow> \<exists>err s' w'. sock_apply N op (s, w) = (err, (s', w')) \<and>
        sock_abs s' = (if err = None then next_state op (sock_abs s) else sock_abs s)"
proof -
  have ok: "sock_ok s" using sock_ok_run [of "(sock_New t, w0)" N ops] sock_ok_New assms by simp
  show ?thesis
  proof (cases "refused op (sock_abs s)")
    case None
    obtain err s' w' where a: "sock_apply N op (s, w) = (err, (s', w'))" by (metis prod.exhaust)
    from apply_allowed [OF ok None a] a None show ?thesis by simp
  qed (simp add: apply_refused [OF ok])
qed

text \<open>A network on which everything succeeds and nothing is ever read.\<close>

definition sample_net :: "nat network" where
  "sample_net = \<lparr>NetListen = (\<lambda>t a w. (Inr w, Suc w)), NetDial = (\<lambda>t a w. (Inr w, Suc w)),
     NetAccept = (\<lambda>l w. (Inr w, Suc w)), ListenerClose = (\<lambda>l w. (None, w)), ConnClose = (\<lambda>c w. (None, w)),
     ConnRead = (\<lambda>c n w. (([], None), w)), ConnWrite = (\<lambda>c b w. ((length b, None), w))\<rparr>"

theorem socket_machine_witness:
  "\<exists>s w. sock_run sample_net [OBind ''a'', OListen, OClose] (sock_New ''tcp'', 0) = (s, w) \<and>
     sock_abs s = Listening \<and> sock_apply sample_net OListen (s, w) = (Some ErrAlreadyListen, (s, w))"
proof -
  let ?s = "\<lparr>sk_t = ''tcp'', sk_a = ''a'', sk_l = Some 0, sk_c = None\<rparr>"
  have run: "sock_run sample_net [OBind ''a'', OListen, OClose] (sock_New ''tcp'', 0) = (?s, 1)"
    by (simp add: sock_run_def sock_apply_def sock_defs sock_New_def sample_net_def)
  then show ?thesis using socket_machine [OF run, of OListen] by (simp add: sock_abs_def)
qed

end
