(* ===== verification/SysFS.thy ===== *)
theory SysFS
  imports VirtualFS FileManager
begin

text \<open>
  The file systems of the host, \<^verbatim>\<open>filesystem/sys.go\<close>: a single file (\<^verbatim>\<open>sysFileFS\<close>) and a directory
  (\<^verbatim>\<open>sysDirFS\<close>), each a path. The functions of Go's package \<^verbatim>\<open>os\<close> they call act on the host and are
  parameters over a state \<open>'w\<close> of it; what they are asked for is the subject here: for the names the
  file manager hands over, a directory only ever asks the host for paths beneath its own.
\<close>

section \<open>Joining paths\<close>

text \<open>\<^verbatim>\<open>filepath.Join\<close> of two elements; empty elements are left out.\<close>

definition fp_Join :: "string \<Rightarrow> string \<Rightarrow> string" where
  "fp_Join a b = (if a \<noteq> [] then Clean (a @ slash # b) else if b \<noteq> [] then Clean b else [])"

section \<open>The host\<close>

record ('w, 'f, 'i) host_os =
  OsOpenFile :: "string \<Rightarrow> int \<Rightarrow> u32 \<Rightarrow> 'w \<Rightarrow> 'f res \<times> 'w"
  OsFstat :: "'f \<Rightarrow> 'w \<Rightarrow> 'i res \<times> 'w"
  OsIsDir :: "'i \<Rightarrow> bool"
  OsStat :: "string \<Rightarrow> 'w \<Rightarrow> 'i res \<times> 'w"
  OsReadDir :: "string \<Rightarrow> 'w \<Rightarrow> 'i list res \<times> 'w"
  OsMkdirAll :: "string \<Rightarrow> u32 \<Rightarrow> 'w \<Rightarrow> goerr option \<times> 'w"
  OsReadlink :: "string \<Rightarrow> 'w \<Rightarrow> string res \<times> 'w"

text \<open>What opening gives: an \<^verbatim>\<open>os.File\<close>, or a \<^verbatim>\<open>sysDirFile\<close>, a file together with its directory.\<close>

datatype 'f sysfile = OsFile 'f | SysDirFile 'f string

text \<open>
  The type assertion \<^verbatim>\<open>file.(fs.File)\<close> of the two methods \<^verbatim>\<open>Open\<close>: a \<^verbatim>\<open>sysDirFile\<close> has no \<^verbatim>\<open>Read\<close>.
\<close>

definition as_fs_File :: "'f sysfile res \<times> 'w \<Rightarrow> ('f sysfile res, 'w) outcome" where
  "as_fs_File r = (case r of
     (Inl err, w) \<Rightarrow> Ret (Inl err) w
   | (Inr (OsFile f), w) \<Rightarrow> Ret (Inr (OsFile f)) w
   | (Inr (SysDirFile f d), w) \<Rightarrow> Panic (PanicMsg ''interface conversion'') w)"

section \<open>A file of the host\<close>

definition sysFile_OpenFile ::
  "('w, 'f, 'i) host_os \<Rightarrow> string \<Rightarrow> string \<Rightarrow> int \<Rightarrow> u32 \<Rightarrow> 'w \<Rightarrow> 'f sysfile res \<times> 'w" where
  "sysFile_OpenFile H f name flag perm w =
     (if name \<noteq> [] then (Inl FsErrNotExist, w)
      else map_prod (map_sum id OsFile) id (OsOpenFile H f flag perm w))"

definition sysFile_Open ::
  "('w, 'f, 'i) host_os \<Rightarrow> string \<Rightarrow> string \<Rightarrow> 'w \<Rightarrow> ('f sysfile res, 'w) outcome" where
  "sysFile_Open H f name w = as_fs_File (sysFile_OpenFile H f name O_RDONLY 0 w)"

definition sysFile_Stat :: "('w, 'f, 'i) host_os \<Rightarrow> string \<Rightarrow> string \<Rightarrow> 'w \<Rightarrow> 'i res \<times> 'w" where
  "sysFile_Stat H f name w = (if name \<noteq> [] then (Inl FsErrNotExist, w) else OsStat H f w)"

section \<open>A directory of the host\<close>

definition sysDir_join :: "string \<Rightarrow> string \<Rightarrow> string" where
  "sysDir_join d name = fp_Join d name"

definition sysDir_sub :: "string \<Rightarrow> string \<Rightarrow> string" where
  "sysDir_sub d name = sysDir_join d name"

definition sysDir_Sub :: "string \<Rightarrow> string \<Rightarrow> string res" where
  "sysDir_Sub d dir = Inr (sysDir_sub d dir)"

definition sysDir_Stat :: "('w, 'f, 'i) host_os \<Rightarrow> string \<Rightarrow> string \<Rightarrow> 'w \<Rightarrow> 'i res \<times> 'w" where
  "sysDir_Stat H d name w = OsStat H (sysDir_join d name) w"

definition sysDir_OpenFile ::
  "('w, 'f, 'i) host_os \<Rightarrow> string \<Rightarrow> string \<Rightarrow> int \<Rightarrow> u32 \<Rightarrow> 'w \<Rightarrow> 'f sysfile res \<times> 'w" where
  "sysDir_OpenFile H d name flag perm w =
     (case OsOpenFile H (sysDir_join d name) flag perm w of
        (Inl err, w1) \<Rightarrow> (Inl err, w1)
      | (Inr f, w1) \<Rightarrow>
          (case OsFstat H f w1 of
             (Inl err, w2) \<Rightarrow> (Inr (OsFile f), w2)
           | (Inr info, w2) \<Rightarrow>
               if OsIsDir H info then (Inr (SysDirFile f (sysDir_sub d name)), w2)
               else (Inr (OsFile f), w2)))"

definition sysDir_Open ::
  "('w, 'f, 'i) host_os \<Rightarrow> string \<Rightarrow> string \<Rightarrow> 'w \<Rightarrow> ('f sysfile res, 'w) outcome" where
  "sysDir_Open H d name w = as_fs_File (sysDir_OpenFile H d name O_RDONLY 0 w)"

function sysDir_ReadDir :: "('w, 'f, 'i) host_os \<Rightarrow> string \<Rightarrow> string \<Rightarrow> 'w \<Rightarrow> 'i list res \<times> 'w" where
  "sysDir_ReadDir H d name w =
     (case fp_Split name of (dir, file) \<Rightarrow>
        if file = [] then OsReadDir H d w
        else case sysDir_Sub d name of
          Inl err \<Rightarrow> (Inl err, w)
        | Inr sub \<Rightarrow> sysDir_ReadDir H sub [] w)"
  by auto
termination
  by (relation "measure (\<lambda>(H, d, name, w). length name)") (auto simp: fp_Split_def Let_def)

declare sysDir_ReadDir.simps [simp del]

definition sysDir_Mkdir ::
  "('w, 'f, 'i) host_os \<Rightarrow> string \<Rightarrow> string \<Rightarrow> u32 \<Rightarrow> 'w \<Rightarrow> string res \<times> 'w" where
  "sysDir_Mkdir H d name perm w =
     (let pathname = sysDir_join d name
      in case OsMkdirAll H pathname perm w of
           (Some err, w1) \<Rightarrow> (Inl err, w1)
         | (None, w1) \<Rightarrow> (Inr pathname, w1))"

definition sysDir_Readlink :: "('w, 'f, 'i) host_os \<Rightarrow> string \<Rightarrow> string \<Rightarrow> 'w \<Rightarrow> string res \<times> 'w" where
  "sysDir_Readlink H d name w = OsReadlink H (sysDir_join d name) w"

section \<open>Paths beneath a directory\<close>

text \<open>The components of a path once it is cleaned.\<close>

definition path_comps :: "string \<Rightarrow> string list" where
  "path_comps p = clean_comps (rooted p) [] (comps p)"

definition beneath :: "string \<Rightarrow> string \<Rightarrow> bool" where
  "beneath d p \<longleftrightarrow> rooted p = rooted d \<and>
     take (length (path_comps d)) (path_comps p) = path_comps d \<and>
     ''..'' \<notin> set (drop (length (path_comps d)) (path_comps p))"

lemma comps_append: "comps (a @ slash # b) = comps a @ comps b"
  by (induction a) (auto split: list.splits)

lemma clean_comps_append:
  "clean_comps r st (xs @ ys) = clean_comps r (rev (clean_comps r st xs)) ys"
  by (induction r st xs rule: clean_comps.induct) (auto split: list.splits)

lemma rooted_Clean [simp]: "rooted (Clean p) = rooted p"
proof -
  have "\<forall>x \<in> set (path_comps p). plain x"
    using clean_comps_of [of p] by (simp add: path_comps_def cleaned_def)
  then show ?thesis
    using rooted_join [of "path_comps p"] by (auto simp: Clean_def path_comps_def Let_def rooted_def)
qed

lemma path_comps_Clean [simp]: "path_comps (Clean p) = path_comps p"
proof -
  define cs where "cs = path_comps p"
  have c: "cleaned (rooted p) cs" unfolding cs_def path_comps_def by (rule clean_comps_of)
  have cl: "Clean p = (if rooted p then slash # join cs else if cs = [] then ''.'' else join cs)"
    by (simp add: Clean_def cs_def path_comps_def)
  consider "rooted p" "cs = []" | "rooted p" "cs \<noteq> []" | "\<not> rooted p" "cs = []" | "\<not> rooted p" "cs \<noteq> []"
    by blast
  then have "path_comps (Clean p) = cs"
  proof cases
    case 2
    have "comps (join cs) = cs"
      using c 2 by (intro comps_join) (auto simp: cleaned_def plain_def)
    with 2 c show ?thesis by (simp add: cl path_comps_def rooted_def clean_comps_id)
  next
    case 4
    with clean_join(1,4) [OF c] show ?thesis by (simp add: cl path_comps_def)
  qed (simp_all add: cl path_comps_def rooted_def)
  then show ?thesis by (simp only: cs_def)
qed

text \<open>Without a component \<^verbatim>\<open>..\<close> a name only adds components to the directory it is joined to.\<close>

lemma clean_comps_down:
  "''..'' \<notin> set xs \<Longrightarrow> clean_comps r st xs = rev st @ filter (\<lambda>x. x \<noteq> [] \<and> x \<noteq> ''.'') xs"
  by (induction xs arbitrary: st) auto

lemma join_beneath:
  assumes "d \<noteq> []" and "''..'' \<notin> set (comps name)"
  shows "beneath d (fp_Join d name)"
proof -
  have r: "rooted (d @ slash # name) = rooted d" using assms(1) by (cases d) (auto simp: rooted_def)
  have "path_comps (d @ slash # name) =
      path_comps d @ filter (\<lambda>x. x \<noteq> [] \<and> x \<noteq> ''.'') (comps name)"
    by (simp add: path_comps_def r comps_append clean_comps_append clean_comps_down [OF assms(2)])
  with r assms show ?thesis by (simp add: beneath_def fp_Join_def)
qed

lemma Join_root_no_up: "''..'' \<notin> set (comps (Join_root name))"
proof -
  obtain cs where cs: "Join_root name = slash # join cs" "''..'' \<notin> set cs" "list_all plain cs"
    using Join_root_confined by blast
  show ?thesis
  proof (cases "cs = []")
    case False
    with cs have "comps (join cs) = cs"
      by (intro comps_join) (auto simp: list_all_iff plain_def)
    with cs show ?thesis by simp
  qed (simp add: cs)
qed

lemma sub_beneath: "d \<noteq> [] \<Longrightarrow> beneath d (sysDir_join d (Join_root name))"
  unfolding sysDir_join_def by (rule join_beneath [OF _ Join_root_no_up])

lemma beneath_self: "beneath d d"
  by (simp add: beneath_def)

text \<open>
  A name that was not cleaned leaves the directory: there is a name for every path of the host. The file
  manager cleans the names of its own calls, and hands out directories that do not: those \<^verbatim>\<open>Mkdir\<close> returns,
  and the open ones of \<^verbatim>\<open>OpenFile\<close>.
\<close>

lemma join_escapes: "sysDir_join ''/srv/data'' ''../../etc/passwd'' = ''/etc/passwd''"
  by (simp add: sysDir_join_def fp_Join_def Clean_def rooted_def)

fun ups :: "nat \<Rightarrow> string \<Rightarrow> string" where
  "ups 0 p = p"
| "ups (Suc n) p = ''../'' @ ups n p"

lemma comps_ups: "comps (ups n p) = replicate n ''..'' @ comps p"
  by (induction n) (simp_all add: comps_append [of "''..''", simplified])

lemma clean_ups:
  "length st \<le> n \<Longrightarrow> ''..'' \<notin> set st \<Longrightarrow> clean_comps True st (replicate n ''..'' @ cs) = clean_comps True [] cs"
proof (induction n arbitrary: st)
  case (Suc n)
  show ?case
  proof (cases st)
    case Nil with Suc.IH [of "[]"] show ?thesis by simp
  next
    case (Cons c st')
    with Suc show ?thesis by auto
  qed
qed simp

lemma directory_escapes:
  assumes "rooted d" and "rooted p"
  shows "\<exists>name. sysDir_join d name = Clean p"
proof -
  let ?cs = "path_comps d"
  let ?name = "ups (length ?cs) p"
  have d: "d \<noteq> []" and r: "rooted (d @ slash # ?name)" using assms(1) by (cases d; simp add: rooted_def)+
  have pl: "''..'' \<notin> set (rev ?cs)"
    using clean_comps_of [of d] assms(1) by (auto simp: path_comps_def cleaned_def)
  have "path_comps (d @ slash # ?name) = clean_comps True (rev ?cs) (replicate (length ?cs) ''..'' @ comps p)"
    using r assms(1) by (simp add: path_comps_def comps_append clean_comps_append comps_ups)
  also have "\<dots> = path_comps p" using clean_ups [of "rev ?cs" "length ?cs" "comps p"] pl assms(2)
    by (simp add: path_comps_def)
  finally have "Clean (d @ slash # ?name) = Clean p" using r assms(2) by (simp add: Clean_def path_comps_def)
  with d show ?thesis by (intro exI [of _ ?name]) (simp add: sysDir_join_def fp_Join_def)
qed

text \<open>A name that ends in a slash reads the directory itself, not the one it names.\<close>

lemma ReadDir_slash: "sysDir_ReadDir H d ''a/'' w = OsReadDir H d w"
  by (simp add: sysDir_ReadDir.simps [of H d "''a/''"] fp_Split_def Let_def)

section \<open>What a directory asks the host for\<close>

text \<open>Two hosts that behave alike on the paths beneath \<open>d\<close>, and on open files.\<close>

definition alike_beneath :: "string \<Rightarrow> ('w, 'f, 'i) host_os \<Rightarrow> ('w, 'f, 'i) host_os \<Rightarrow> bool" where
  "alike_beneath d H H' \<longleftrightarrow> OsFstat H = OsFstat H' \<and> OsIsDir H = OsIsDir H' \<and>
     (\<forall>p. beneath d p \<longrightarrow> OsOpenFile H p = OsOpenFile H' p \<and> OsStat H p = OsStat H' p \<and>
       OsReadDir H p = OsReadDir H' p \<and> OsMkdirAll H p = OsMkdirAll H' p \<and>
       OsReadlink H p = OsReadlink H' p)"

lemma alike_beneathD:
  assumes "alike_beneath d H H'"
  shows "OsFstat H = OsFstat H'" and "OsIsDir H = OsIsDir H'"
    and "beneath d p \<Longrightarrow> OsOpenFile H p = OsOpenFile H' p"
    and "beneath d p \<Longrightarrow> OsStat H p = OsStat H' p"
    and "beneath d p \<Longrightarrow> OsReadDir H p = OsReadDir H' p"
    and "beneath d p \<Longrightarrow> OsMkdirAll H p = OsMkdirAll H' p"
    and "beneath d p \<Longrightarrow> OsReadlink H p = OsReadlink H' p"
  using assms by (simp_all add: alike_beneath_def)

lemma ReadDir_eq:
  "sysDir_ReadDir H d name w = OsReadDir H (if snd (fp_Split name) = [] then d else sysDir_join d name) w"
proof -
  have "sysDir_ReadDir H d' [] w = OsReadDir H d' w" for d'
    by (simp add: sysDir_ReadDir.simps [of H d' "[]"] fp_Split_def Let_def)
  then show ?thesis
    by (auto simp: sysDir_ReadDir.simps [of H d name] sysDir_Sub_def sysDir_sub_def split: prod.splits)
qed

lemma confined_calls:
  assumes "alike_beneath d H H'" and "d \<noteq> []"
  shows "sysDir_OpenFile H d (Join_root name) = sysDir_OpenFile H' d (Join_root name)"
    and "sysDir_Stat H d (Join_root name) = sysDir_Stat H' d (Join_root name)"
    and "sysDir_ReadDir H d (Join_root name) = sysDir_ReadDir H' d (Join_root name)"
    and "sysDir_Mkdir H d (Join_root name) = sysDir_Mkdir H' d (Join_root name)"
    and "sysDir_Readlink H d (Join_root name) = sysDir_Readlink H' d (Join_root name)"
proof -
  note a = alike_beneathD [OF assms(1)] and b = sub_beneath [OF assms(2), of name]
  show "sysDir_OpenFile H d (Join_root name) = sysDir_OpenFile H' d (Join_root name)"
    by (intro ext) (simp only: sysDir_OpenFile_def a(1,2) a(3) [OF b])
  show "sysDir_Stat H d (Join_root name) = sysDir_Stat H' d (Join_root name)"
    by (intro ext) (simp only: sysDir_Stat_def a(4) [OF b])
  show "sysDir_ReadDir H d (Join_root name) = sysDir_ReadDir H' d (Join_root name)"
    by (intro ext) (simp add: ReadDir_eq a(5) [OF b] a(5) [OF beneath_self])
  show "sysDir_Mkdir H d (Join_root name) = sysDir_Mkdir H' d (Join_root name)"
    by (intro ext) (simp only: sysDir_Mkdir_def Let_def a(6) [OF b])
  show "sysDir_Readlink H d (Join_root name) = sysDir_Readlink H' d (Join_root name)"
    by (intro ext) (simp only: sysDir_Readlink_def a(7) [OF b])
qed

section \<open>Behind the file manager\<close>

text \<open>
  Handlers are the user's. \<open>reaches_dirs\<close> says of handlers over a host that handler \<open>h\<close> uses the host only
  by passing the name it is called with on to a \<^verbatim>\<open>sysDirFS\<close>, the one of \<open>dirs h\<close>: where the directory answers
  the same on two hosts, so does the handler.
\<close>

definition reaches_dirs ::
  "(('w, 'f, 'i) host_os \<Rightarrow> ('w, 'a) handler_ops) \<Rightarrow> (nat \<Rightarrow> string) \<Rightarrow> bool" where
  "reaches_dirs K dirs \<longleftrightarrow> (\<forall>H H' h name.
     (sysDir_OpenFile H (dirs h) name = sysDir_OpenFile H' (dirs h) name \<longrightarrow>
        HOpenFile (K H) h name = HOpenFile (K H') h name) \<and>
     (sysDir_Stat H (dirs h) name = sysDir_Stat H' (dirs h) name \<longrightarrow> HStat (K H) h name = HStat (K H') h name) \<and>
     (sysDir_ReadDir H (dirs h) name = sysDir_ReadDir H' (dirs h) name \<longrightarrow>
        HReadDir (K H) h name = HReadDir (K H') h name) \<and>
     (sysDir_Mkdir H (dirs h) name = sysDir_Mkdir H' (dirs h) name \<longrightarrow> HMkdir (K H) h name = HMkdir (K H') h name) \<and>
     (sysDir_Readlink H (dirs h) name = sysDir_Readlink H' (dirs h) name \<longrightarrow>
        HReadlink (K H) h name = HReadlink (K H') h name))"

lemma first_ok_cong: "(\<And>h. h \<in> set hs \<Longrightarrow> call h = call' h) \<Longrightarrow> first_ok call hs w = first_ok call' hs w"
  by (induction hs arbitrary: w) (auto split: prod.splits sum.splits)

text \<open>C11: When the handlers of the file manager serve directories of the host, whatever else they do, the
  five calls of the file manager that take a path stay inside those directories: whatever name is
  passed, \<^verbatim>\<open>..\<close> and repeated slashes included, the answer and the state the host is left in depend only on
  what the host does for paths beneath them. Links of the host are the host's. The calls of the
  directories that \<^verbatim>\<open>Mkdir\<close> and \<^verbatim>\<open>OpenFile\<close> return are not among the five, and are not confined.\<close>

theorem guest_stays_beneath:
  assumes "reaches_dirs K dirs"
    and "\<forall>h \<in> set (handlers s). dirs h \<noteq> [] \<and> alike_beneath (dirs h) H H'"
  shows "fm_OpenFile (K H) name flag perm s w = fm_OpenFile (K H') name flag perm s w \<and>
    fm_Stat (K H) name s w = fm_Stat (K H') name s w \<and>
    fm_ReadDir (K H) name s w = fm_ReadDir (K H') name s w \<and>
    fm_Mkdir (K H) name perm s w = fm_Mkdir (K H') name perm s w \<and>
    fm_Readlink (K H) name s w = fm_Readlink (K H') name s w"
proof -
  have "HOpenFile (K H) h (Join_root name) = HOpenFile (K H') h (Join_root name) \<and>
      HStat (K H) h (Join_root name) = HStat (K H') h (Join_root name) \<and>
      HReadDir (K H) h (Join_root name) = HReadDir (K H') h (Join_root name) \<and>
      HMkdir (K H) h (Join_root name) = HMkdir (K H') h (Join_root name) \<and>
      HReadlink (K H) h (Join_root name) = HReadlink (K H') h (Join_root name)" if "h \<in> set (handlers s)" for h
    using assms that confined_calls [of "dirs h" H H' name] unfolding reaches_dirs_def by blast
  then show ?thesis
    unfolding fm_OpenFile_def fm_Stat_def fm_ReadDir_def fm_Mkdir_def fm_Readlink_def
    by (intro conjI arg_cong2 [of _ _ _ _ or_error] refl first_ok_cong) simp_all
qed

text \<open>
  Handlers that do nothing but forward, and leave sockets to \<^verbatim>\<open>DefaultFileHandler\<close>; what they return is a
  file, a piece of information or a directory.
\<close>

datatype ('f, 'i) answer = AFile "'f sysfile" | AInfo 'i | ADir string

definition forwarders ::
  "(nat \<Rightarrow> string) \<Rightarrow> ('w, 'f, 'i) host_os \<Rightarrow> ('w, ('f, 'i) answer) handler_ops" where
  "forwarders dirs H = DefaultFileHandler\<lparr>
     HOpenFile := (\<lambda>h name flag perm w. map_prod (map_sum id AFile) id (sysDir_OpenFile H (dirs h) name flag perm w)),
     HStat := (\<lambda>h name w. map_prod (map_sum id AInfo) id (sysDir_Stat H (dirs h) name w)),
     HReadDir := (\<lambda>h name w. map_prod (map_sum id (map AInfo)) id (sysDir_ReadDir H (dirs h) name w)),
     HMkdir := (\<lambda>h name perm w. map_prod (map_sum id ADir) id (sysDir_Mkdir H (dirs h) name perm w)),
     HReadlink := (\<lambda>h name w. sysDir_Readlink H (dirs h) name w)\<rparr>"

lemma forwarders_reach: "reaches_dirs (forwarders dirs) dirs"
  by (auto simp: reaches_dirs_def forwarders_def fun_eq_iff)

text \<open>A host that has nothing at all, and one that has only a file outside the directory.\<close>

definition bare_host :: "(nat, nat, nat) host_os" where
  "bare_host = \<lparr>OsOpenFile = (\<lambda>p flag perm w. (Inl FsErrNotExist, Suc w)), OsFstat = (\<lambda>f w. (Inr f, w)),
     OsIsDir = (\<lambda>i. False), OsStat = (\<lambda>p w. (Inl FsErrNotExist, w)), OsReadDir = (\<lambda>p w. (Inr [], w)),
     OsMkdirAll = (\<lambda>p perm w. (None, w)), OsReadlink = (\<lambda>p w. (Inl FsErrNotExist, w))\<rparr>"

definition passwd_host :: "(nat, nat, nat) host_os" where
  "passwd_host = bare_host\<lparr>OsOpenFile := (\<lambda>p flag perm w.
     if p = ''/etc/passwd'' then (Inr 7, w) else (Inl FsErrNotExist, Suc w))\<rparr>"

lemma guest_stays_beneath_witness:
  "fm_OpenFile (forwarders (\<lambda>_. ''/srv'') passwd_host) ''../../etc/passwd'' O_RDONLY 0
     (fm_ctor\<lparr>handlers := [0]\<rparr>) 5 = (Inl FsErrNotExist, 6) \<and>
   sysDir_OpenFile passwd_host ''/srv'' ''../../etc/passwd'' O_RDONLY 0 5 = (Inr (OsFile 7), 5)"
proof
  have "\<not> beneath ''/srv'' ''/etc/passwd''"
    by (simp add: beneath_def path_comps_def rooted_def)
  then have "alike_beneath ''/srv'' bare_host passwd_host"
    by (auto simp: alike_beneath_def passwd_host_def bare_host_def fun_eq_iff)
  with guest_stays_beneath [OF forwarders_reach [of "\<lambda>_. ''/srv''"], of "fm_ctor\<lparr>handlers := [0]\<rparr>" bare_host
      passwd_host "''../../etc/passwd''" O_RDONLY 0 5]
  show "fm_OpenFile (forwarders (\<lambda>_. ''/srv'') passwd_host) ''../../etc/passwd'' O_RDONLY 0
     (fm_ctor\<lparr>handlers := [0]\<rparr>) 5 = (Inl FsErrNotExist, 6)"
    by (simp add: fm_OpenFile_def forwarders_def sysDir_OpenFile_def bare_host_def or_error_def)
  show "sysDir_OpenFile passwd_host ''/srv'' ''../../etc/passwd'' O_RDONLY 0 5 = (Inr (OsFile 7), 5)"
    by (simp add: sysDir_OpenFile_def sysDir_join_def fp_Join_def Clean_def rooted_def passwd_host_def
        bare_host_def)
qed

end
