(* ===== verification/Dbg.thy ===== *)
theory Dbg
  imports Task FileManager Modules MemData Calling
begin

text \<open>
  The debugger object of \<^verbatim>\<open>internal/debugger/debugger.go\<close>, which holds the managers: its construction
  and destruction in the order the code has them, with the start of the task manager
  (\<^verbatim>\<open>internal/debugger/task.go\<close>) and the floating-point unit the ARM debuggers switch on; the methods
  that pass the debugger to its managers; and the choice of a debugger by architecture
  (\<^verbatim>\<open>debugger/arch.go\<close>, \<^verbatim>\<open>debugger/extend/debugger.go\<close>). The goroutines that \<^verbatim>\<open>start\<close> leaves behind are
  in the theory \<open>TaskSteps\<close>.
\<close>

section \<open>State\<close>

text \<open>
  The memory manager and the emulator are the surroundings of the task manager, which makes the
  stacks of tasks with them.
\<close>

record ('c, 'e) dbg =
  d_tasks :: "('c, mem_state \<times> 'e) task_mgr"
  d_main :: nat
  d_hooks :: hook_mgr
  d_files :: file_mgr
  d_loaded :: "nat list"
  d_host :: host

definition ctx_at :: "('c, 'e) ctx_ops \<Rightarrow> ('c, mem_state \<times> 'e) ctx_ops" where
  "ctx_at X = \<lparr>
     XAlloc = (\<lambda>(s, e). XAlloc X e),
     XSave = (\<lambda>c (s, e). XSave X c e),
     XRestore = (\<lambda>c (s, e). case XRestore X c e of (err, e') \<Rightarrow> (err, (s, e'))),
     XRegRead = XRegRead X,
     XRegWrite = XRegWrite X,
     XClone = XClone X\<rparr>"

definition init_stack :: "dbg_arch \<Rightarrow> 'e emulator \<Rightarrow> mem_state \<times> 'e \<Rightarrow> u64 res \<times> mem_state \<times> 'e" where
  "init_stack D E = (\<lambda>(s, e). InitStack D E s e)"

text \<open>A step of the memory manager, and one of the hook manager with it.\<close>

definition on_mem :: "('a, mem_state \<times> 'e) go \<Rightarrow> ('a, ('c, 'e) dbg) go" where
  "on_mem m d =
     (case m (tk_emu (d_tasks d)) of
        Ret a w \<Rightarrow> Ret a (d\<lparr>d_tasks := (d_tasks d)\<lparr>tk_emu := w\<rparr>\<rparr>)
      | Panic p w \<Rightarrow> Panic p (d\<lparr>d_tasks := (d_tasks d)\<lparr>tk_emu := w\<rparr>\<rparr>))"

definition on_hooks :: "('a, hook_mgr \<times> mem_state \<times> 'e) go \<Rightarrow> ('a, ('c, 'e) dbg) go" where
  "on_hooks m d =
     (case m (d_hooks d, tk_emu (d_tasks d)) of
        Ret a (h, w) \<Rightarrow> Ret a (d\<lparr>d_hooks := h, d_tasks := (d_tasks d)\<lparr>tk_emu := w\<rparr>\<rparr>)
      | Panic p (h, w) \<Rightarrow> Panic p (d\<lparr>d_hooks := h, d_tasks := (d_tasks d)\<lparr>tk_emu := w\<rparr>\<rparr>))"

definition on_values :: "('a, (mem_state \<times> 'e) \<times> host) go \<Rightarrow> ('a, ('c, 'e) dbg) go" where
  "on_values m d =
     (case m (tk_emu (d_tasks d), d_host d) of
        Ret a (w, b) \<Rightarrow> Ret a (d\<lparr>d_host := b, d_tasks := (d_tasks d)\<lparr>tk_emu := w\<rparr>\<rparr>)
      | Panic p (w, b) \<Rightarrow> Panic p (d\<lparr>d_host := b, d_tasks := (d_tasks d)\<lparr>tk_emu := w\<rparr>\<rparr>))"

definition on_tasks ::
  "(('c, mem_state \<times> 'e) task_mgr \<Rightarrow> 'a \<times> ('c, mem_state \<times> 'e) task_mgr) \<Rightarrow> ('a, ('c, 'e) dbg) go" where
  "on_tasks f d = (case f (d_tasks d) of (a, m) \<Rightarrow> Ret a (d\<lparr>d_tasks := m\<rparr>))"

text \<open>A call of a manager that does not panic, and one that may not return.\<close>

definition plainly :: "('s \<Rightarrow> 't \<Rightarrow> 'a \<times> 's \<times> 't) \<Rightarrow> ('a, 's \<times> 't) go" where
  "plainly f = (\<lambda>(s, e). case f s e of (a, w) \<Rightarrow> Ret a w)"

definition maybe :: "'s \<Rightarrow> ('a, 's) outcome option \<Rightarrow> ('a, 's) outcome" where
  "maybe s r = (case r of None \<Rightarrow> Panic NoReturn s | Some x \<Rightarrow> x)"

section \<open>The methods that pass the debugger on\<close>

definition dbg_MemMap :: "'e emulator \<Rightarrow> u64 \<Rightarrow> u64 \<Rightarrow> mem_prot \<Rightarrow> (mem_region res, ('c, 'e) dbg) go" where
  "dbg_MemMap E addr n prot = on_mem (plainly (memMap E addr n prot))"

definition dbg_MemUnmap :: "'e emulator \<Rightarrow> u64 \<Rightarrow> u64 \<Rightarrow> (goerr option, ('c, 'e) dbg) go" where
  "dbg_MemUnmap E addr n = on_mem (plainly (memUnmap E addr n))"

definition dbg_MemProtect :: "'e emulator \<Rightarrow> u64 \<Rightarrow> u64 \<Rightarrow> mem_prot \<Rightarrow> (goerr option, ('c, 'e) dbg) go" where
  "dbg_MemProtect E addr n prot = on_mem (plainly (\<lambda>s e. case memProtect E addr n prot e of (r, e') \<Rightarrow> (r, s, e')))"

definition dbg_MapAlloc :: "'e emulator \<Rightarrow> u64 \<Rightarrow> mem_prot \<Rightarrow> (mem_region res, ('c, 'e) dbg) go" where
  "dbg_MapAlloc E n prot = on_mem (plainly (mapAlloc E n prot))"

definition dbg_MapFree :: "'e emulator \<Rightarrow> u64 \<Rightarrow> u64 \<Rightarrow> (goerr option, ('c, 'e) dbg) go" where
  "dbg_MapFree E addr n = on_mem (plainly (mapFree E addr n))"

definition dbg_MemAlloc :: "'e emulator \<Rightarrow> u64 \<Rightarrow> (u64 res, ('c, 'e) dbg) go" where
  "dbg_MemAlloc E n = on_mem (\<lambda>(s, e). maybe (s, e) (map_option (\<lambda>(r, w). Ret r w) (memAlloc E n s e)))"

definition dbg_MemFree :: "u64 \<Rightarrow> (goerr option, ('c, 'e) dbg) go" where
  "dbg_MemFree addr = on_mem (on_fst (mem_free_go addr))"

definition dbg_MemSize :: "u64 \<Rightarrow> (u64, ('c, 'e) dbg) go" where
  "dbg_MemSize addr = on_mem (\<lambda>(s, e). Ret (memSize addr s) (s, e))"

definition dbg_MemImport :: "dbg_arch \<Rightarrow> 'e emulator \<Rightarrow> goany \<Rightarrow> (u64 list res, ('c, 'e) dbg) go" where
  "dbg_MemImport D E val = on_values (memImport D E val)"

definition dbg_MemWrite :: "dbg_arch \<Rightarrow> 'e emulator \<Rightarrow> u64 \<Rightarrow> goany \<Rightarrow> (u64 list res, ('c, 'e) dbg) go" where
  "dbg_MemWrite D E addr val = on_values (memWrite D E addr val)"

definition dbg_MemExtract :: "dbg_arch \<Rightarrow> 'e emulator \<Rightarrow> u64 \<Rightarrow> goany \<Rightarrow> (unit res, ('c, 'e) dbg) go" where
  "dbg_MemExtract D E addr val = on_values (memExtract D E addr val)"

definition dbg_MemBind :: "'e emulator \<Rightarrow> nat \<Rightarrow> u64 \<Rightarrow> (u64 res, ('c, 'e) dbg) go" where
  "dbg_MemBind E cb n = on_hooks (\<lambda>(h, s, e). memBind E cb n h s e)"

definition dbg_MemUnbind :: "'e emulator \<Rightarrow> u64 \<Rightarrow> (goerr option, ('c, 'e) dbg) go" where
  "dbg_MemUnbind E addr = on_hooks (\<lambda>(h, s, e). memUnbind E addr h s e)"

definition dbg_AddHook ::
  "'e emulator \<Rightarrow> u64 \<Rightarrow> callback \<Rightarrow> nat \<Rightarrow> u64 \<Rightarrow> u64 \<Rightarrow> (nat res, ('c, 'e) dbg) go" where
  "dbg_AddHook E typ cb data begin end =
     on_hooks (\<lambda>(h, s, e). case addHook E typ cb data begin end h e of (r, h', e') \<Rightarrow> Ret r (h', s, e'))"

definition dbg_AddControl :: "'e emulator \<Rightarrow> nat \<Rightarrow> nat \<Rightarrow> (nat res, ('c, 'e) dbg) go" where
  "dbg_AddControl E cb data = on_hooks (\<lambda>(h, s, e). maybe (h, s, e) (addControl E cb data h s e))"

text \<open>The \<^verbatim>\<open>Close\<close> of the handler \<^verbatim>\<open>AddHook\<close> returned, and of the one \<^verbatim>\<open>AddControl\<close> returned.\<close>

definition dbg_hook_Close :: "'e emulator \<Rightarrow> nat \<Rightarrow> (unit, ('c, 'e) dbg) go" where
  "dbg_hook_Close E i =
     on_hooks (\<lambda>(h, s, e). case hook_Close E i (h, e) of (h', e') \<Rightarrow> Ret () (h', s, e'))"

definition dbg_ctrl_Close :: "'e emulator \<Rightarrow> nat \<Rightarrow> (unit, ('c, 'e) dbg) go" where
  "dbg_ctrl_Close E c =
     on_hooks (\<lambda>(h, s, e). case ctrl_Close E c (h, e) of (h', e') \<Rightarrow> Ret () (h', s, e'))"

definition dbg_GetMainTask :: "('c, 'e) ctx_ops \<Rightarrow> dbg_arch \<Rightarrow> (nat res, ('c, 'e) dbg) go" where
  "dbg_GetMainTask X D = (\<lambda>d. on_tasks (getMainTask (ctx_at X) (DSP D) (d_main d)) d)"

definition dbg_CreateTask :: "('c, 'e) ctx_ops \<Rightarrow> dbg_arch \<Rightarrow> 'e emulator \<Rightarrow> (nat res, ('c, 'e) dbg) go" where
  "dbg_CreateTask X D E = on_tasks (createTask (ctx_at X) (DSP D) (init_stack D E))"

definition upd_runner :: "nat \<Rightarrow> ('c runner \<Rightarrow> 'c runner) \<Rightarrow> (unit, ('c, 'e) dbg) go" where
  "upd_runner i f = on_tasks (\<lambda>m. ((), put_runner i (f (tk_runners m ! i)) m))"

text \<open>\<^verbatim>\<open>Addr\<close> of a control, the first of its two addresses.\<close>

definition ctrl_Addr :: "nat \<Rightarrow> hook_mgr \<Rightarrow> u64" where
  "ctrl_Addr c h = fst (ct_addr (ctrls h ! c))"

text \<open>
  \<^verbatim>\<open>TaskControl\<close> of the architecture, and \<^verbatim>\<open>CallTaskOf\<close>; \<open>cb\<close> is the number of the callback that ends the
  task, whose data is the task.
\<close>

definition dbg_TaskControl ::
  "('c, 'e) ctx_ops \<Rightarrow> dbg_arch \<Rightarrow> 'e emulator \<Rightarrow> nat \<Rightarrow> nat \<Rightarrow> u64 \<Rightarrow> (nat res, ('c, 'e) dbg) go" where
  "dbg_TaskControl X D E cb i addr =
     attempt (dbg_AddControl E cb i) (\<lambda>c d.
       seq (upd_runner i (TaskControl (ctx_at X) D (c, ctrl_Addr c (d_hooks d)) addr)) (\<lambda>_. ret (Inr c)) d)"

definition arm_TaskControl ::
  "('c, 'e) ctx_ops \<Rightarrow> 'e emulator \<Rightarrow> nat \<Rightarrow> nat \<Rightarrow> u64 \<Rightarrow> (nat res, ('c, 'e) dbg) go" where
  "arm_TaskControl X E cb i addr = dbg_TaskControl X ArmDbg E cb i addr"

definition dbg_CallTaskOf ::
  "('c, 'e) ctx_ops \<Rightarrow> dbg_arch \<Rightarrow> 'e emulator \<Rightarrow> nat \<Rightarrow> nat \<Rightarrow> u64 \<Rightarrow> (unit res, ('c, 'e) dbg) go" where
  "dbg_CallTaskOf X D E cb i addr =
     attempt (dbg_TaskControl X D E cb i addr) (\<lambda>c.
       seq (upd_runner i (appendRelease (CloseCtrl c))) (\<lambda>_. ret (Inr ())))"

section \<open>Closing tasks\<close>

text \<open>
  The release functions of a task, in the order they run in; those of the user are the user's. Then
  the destructor of its context: one that owns its stack unmaps it.
\<close>

definition run_task_release :: "'e emulator \<Rightarrow> task_release \<Rightarrow> (unit res, ('c, 'e) dbg) go" where
  "run_task_release E r = (case r of
     CloseCtrl c \<Rightarrow> seq (dbg_ctrl_Close E c) (\<lambda>_. ret (Inr ()))
   | UserRelease f \<Rightarrow> ret (Inr ()))"

definition run_tc_dtor :: "dbg_arch \<Rightarrow> 'e emulator \<Rightarrow> 'c tctx \<Rightarrow> (unit res, ('c, 'e) dbg) go" where
  "run_tc_dtor D E tc =
     (if TcReleases tc = 2
      then seq (on_mem (plainly (CloseStack D E (TcStack tc)))) (\<lambda>_. ret (Inr ()))
      else ret (Inr ()))"

text \<open>\<^verbatim>\<open>Close\<close> of a task: its context goes back to the pool, or is destroyed when it is a clone or the manager is closed.\<close>

definition dbg_task_Close :: "dbg_arch \<Rightarrow> 'e emulator \<Rightarrow> nat \<Rightarrow> (unit res, ('c, 'e) dbg) go" where
  "dbg_task_Close D E i = (\<lambda>d.
     let r = tk_runners (d_tasks d) ! i
     in attempt (each (run_task_release E) (rev (rn_releases r))) (\<lambda>_.
          seq (on_tasks (\<lambda>m. ((), runner_Close i m))) (\<lambda>_.
            if TcReleases (rn_tc r) = 1 \<or> tk_closed (d_tasks d) then run_tc_dtor D E (rn_tc r) else ret (Inr ()))) d)"

text \<open>\<^verbatim>\<open>Close\<close> of the main task: by the control it is started at, or by its user.\<close>

definition dbg_main_Close :: "'e emulator \<Rightarrow> (unit res, ('c, 'e) dbg) go" where
  "dbg_main_Close E = (\<lambda>d.
     attempt (each (run_task_release E) (rev (rn_releases (tk_runners (d_tasks d) ! d_main d))))
       (\<lambda>_. seq (on_tasks (\<lambda>m. ((), main_Close (d_main d) m))) (\<lambda>_. ret (Inr ()))) d)"

text \<open>\<^verbatim>\<open>release\<close> of the main task, when the emulator has stopped because the manager is closed.\<close>

definition dbg_main_release :: "dbg_arch \<Rightarrow> 'e emulator \<Rightarrow> (unit res, ('c, 'e) dbg) go" where
  "dbg_main_release D E = (\<lambda>d.
     let i = d_main d; r = tk_runners (d_tasks d) ! i
     in attempt (each (run_task_release E) (rev (rn_releases r))) (\<lambda>_.
          seq (on_tasks (\<lambda>m. ((), main_release i m))) (\<lambda>_. run_tc_dtor D E (rn_tc r))) d)"

section \<open>Construction and destruction\<close>

text \<open>
  \<^verbatim>\<open>start\<close>: the main task and the control that closes it; \<open>cb\<close> is the number of that callback. An error
  is a panic.
\<close>

definition dbg_start ::
  "('c, 'e) ctx_ops \<Rightarrow> dbg_arch \<Rightarrow> 'e emulator \<Rightarrow> nat \<Rightarrow> (unit, ('c, 'e) dbg) go" where
  "dbg_start X D E cb =
     seq (on_tasks (newMain (ctx_at X) (init_stack D E))) (\<lambda>r. case r of
       Inl err \<Rightarrow> crash (PanicErr err)
     | Inr i \<Rightarrow>
         seq (\<lambda>d. Ret () (d\<lparr>d_main := i\<rparr>)) (\<lambda>_.
           seq (dbg_AddControl E cb 0) (\<lambda>r. case r of
             Inl err \<Rightarrow> crash (PanicErr err)
           | Inr c \<Rightarrow> upd_runner i (\<lambda>r. main_reset (ctx_at X) (DSP D) (appendRelease (CloseCtrl c) r)))))"

definition dbg_Init ::
  "('c, 'e) ctx_ops \<Rightarrow> dbg_arch \<Rightarrow> 'e emulator \<Rightarrow> nat \<Rightarrow> host \<Rightarrow> 'e \<Rightarrow> (unit, ('c, 'e) dbg) outcome" where
  "dbg_Init X D E cb b e =
     (case hook_ctor E hook_mgr0 e of
        (h, e1) \<Rightarrow>
          dbg_start X D E cb
            \<lparr>d_tasks = tk_empty (mem_ctor, e1), d_main = 0, d_hooks = h, d_files = fm_ctor, d_loaded = [],
             d_host = b\<rparr>)"

text \<open>
  The destructor of the task manager. It closes a channel, which panics the second time, and then waits
  for the goroutine of \<^verbatim>\<open>start\<close>, which ends with the release of the main task once \<^verbatim>\<open>emu.Start\<close> has
  returned; \<open>stops\<close> says whether it does, after the \<^verbatim>\<open>emu.Stop\<close> that the end of the loop makes. The free
  contexts of the pool are destroyed after it.
\<close>

definition task_dtor :: "dbg_arch \<Rightarrow> 'e emulator \<Rightarrow> bool \<Rightarrow> (unit res, ('c, 'e) dbg) go" where
  "task_dtor D E stops = (\<lambda>d.
     if tk_closed (d_tasks d) then Panic (PanicMsg ''close of closed channel'') d
     else seq (on_tasks (\<lambda>m. ((), m\<lparr>tk_closed := True\<rparr>))) (\<lambda>_.
       if \<not> stops then crash NoReturn
       else attempt (dbg_main_release D E) (\<lambda>_. \<lambda>d.
         (case tk_pool (d_tasks d) of (cur, cs) \<Rightarrow>
            each (run_tc_dtor D E) ((case cur of None \<Rightarrow> [] | Some c \<Rightarrow> [c]) @ cs)) d)) d)"

text \<open>\<^verbatim>\<open>Close\<close>; the result is the modules it has closed, in order.\<close>

definition dbg_Close :: "dbg_arch \<Rightarrow> 'e emulator \<Rightarrow> bool \<Rightarrow> (nat list, ('c, 'e) dbg) go" where
  "dbg_Close D E stops =
     seq (task_dtor D E stops) (\<lambda>_.
       seq (\<lambda>d. Ret (mod_dtor (\<lambda>m closed. closed @ [m]) (d_loaded d) []) d) (\<lambda>closed.
         seq (\<lambda>d. Ret () (d\<lparr>d_files := fm_dtor (d_files d)\<rparr>)) (\<lambda>_.
           seq (on_hooks (\<lambda>(h, s, e). Ret () (hook_dtor E h s e))) (\<lambda>_.
             seq (on_hooks (\<lambda>(h, s, e). Ret () (mem_dtor E h s e))) (\<lambda>_. ret closed)))))"

section \<open>The debuggers of the two architectures\<close>

definition arm_Init :: "('c, 'e) ctx_ops \<Rightarrow> 'e emulator \<Rightarrow> nat \<Rightarrow> host \<Rightarrow> 'e \<Rightarrow> (unit, ('c, 'e) dbg) outcome" where
  "arm_Init X E cb b e =
     (case dbg_Init X ArmDbg E cb b e of
        Panic p d \<Rightarrow> Panic p d
      | Ret _ d \<Rightarrow> on_mem (\<lambda>(s, e). Ret () (s, arm_enableVFP E e)) d)"

definition arm64_Init :: "('c, 'e) ctx_ops \<Rightarrow> 'e emulator \<Rightarrow> nat \<Rightarrow> host \<Rightarrow> 'e \<Rightarrow> (unit, ('c, 'e) dbg) outcome" where
  "arm64_Init X E cb b e =
     (case dbg_Init X Arm64Dbg E cb b e of
        Panic p d \<Rightarrow> Panic p d
      | Ret _ d \<Rightarrow> on_mem (\<lambda>(s, e). Ret () (s, arm64_enableVFP E e)) d)"

text \<open>
  \<^verbatim>\<open>Register\<close> enters a constructor for an architecture unless there is one; \<^verbatim>\<open>New\<close> looks it up. The
  other way, \<^verbatim>\<open>newDbg\<close> of the extended debuggers, knows the two.
\<close>

definition Register :: "arch \<Rightarrow> 'k \<Rightarrow> (arch, 'k) gomap \<Rightarrow> bool \<times> (arch, 'k) gomap" where
  "Register ar ctor m = (case gm_get m ar of Some _ \<Rightarrow> (False, m) | None \<Rightarrow> (True, gm_set ar ctor m))"

definition dbg_New :: "(arch, 'e \<Rightarrow> 'd) gomap \<Rightarrow> 'e emulator \<Rightarrow> 'e \<Rightarrow> 'd res" where
  "dbg_New m E e = (case gm_get m (EmuArch E) of Some ctor \<Rightarrow> Inr (ctor e) | None \<Rightarrow> Inl ErrArchUnsupported)"

definition newDbg :: "arch \<Rightarrow> dbg_arch res" where
  "newDbg ar = (case ar of
     ARCH_ARM \<Rightarrow> Inr ArmDbg
   | ARCH_ARM64 \<Rightarrow> Inr Arm64Dbg
   | ARCH_X86 \<Rightarrow> Inl ErrArchUnsupported
   | ARCH_X86_64 \<Rightarrow> Inl ErrArchUnsupported
   | ARCH_UNKNOWN \<Rightarrow> Inl ErrArchUnsupported)"

end
