(* ===== verification/MemReads.thy ===== *)
theory MemReads
  imports MemDataProps
begin

text \<open>
  Decoding only reads: the counterpart of the section on encoding in \<open>MemDataProps\<close>, and what follows
  for \<^verbatim>\<open>memExtract\<close>, which leaves the memory manager and the emulator as they are.
\<close>

section \<open>Decoding\<close>

text \<open>The operations of a stream a decoder uses all keep \<open>J\<close>.\<close>

definition reader_keeps :: "('v \<Rightarrow> bool) \<Rightarrow> ('s, 'v) stream_ops \<Rightarrow> bool" where
  "reader_keeps J S \<longleftrightarrow>
     (\<forall>n. stream_keeps J (SSkip S n)) \<and> (\<forall>n. stream_keeps J (SRead S n)) \<and>
     stream_keeps J (ReadFloat S) \<and> stream_keeps J (ReadDouble S) \<and>
     stream_keeps J (ReadString S) \<and> stream_keeps J (ReadStream S)"

lemma reader_keepsD:
  assumes "reader_keeps J S"
  shows "stream_keeps J (SSkip S n)" "stream_keeps J (SRead S k)" "stream_keeps J (ReadFloat S)"
    "stream_keeps J (ReadDouble S)" "stream_keeps J (ReadString S)" "stream_keeps J (ReadStream S)"
  using assms by (simp_all add: reader_keeps_def)

lemma keeps_hwrite [keeps_intros]:
  "handler_keeps J (hwrite p bs)" "handler_keeps J (hwrite_ptr p q)"
proof -
  show w: "handler_keeps J (hwrite p bs)" for p bs
    unfolding hwrite_def by (intro keeps_attempt keeps_host keeps_update) auto
  show "handler_keeps J (hwrite_ptr p q)" unfolding hwrite_ptr_def by (rule w)
qed

lemma keeps_if [keeps_intros]: "(c \<Longrightarrow> keeps P m) \<Longrightarrow> (\<not> c \<Longrightarrow> keeps P k) \<Longrightarrow> keeps P (if c then m else k)"
  by simp

lemma dec_pieces:
  assumes "reader_keeps J S"
  shows "handler_keeps J (dec_raw S n p)" "handler_keeps J (dec_word S n bs p)"
    "handler_keeps J (skip_pad S pad)"
    "handler_keeps J body \<Longrightarrow> handler_keeps J (with_sub S fake body)"
proof -
  note S = reader_keepsD [OF assms]
  have tail: "handler_keeps J (case r of (bs, err) \<Rightarrow> attempt (hwrite p bs) (\<lambda>_. ret (result err)))" for r p
    by (cases r) (simp, intro keeps_attempt keeps_hwrite keeps_basic)
  show r: "handler_keeps J (dec_raw S n p)" for n p
    unfolding dec_raw_def by (intro keeps_attempt keeps_seq keeps_host keeps_on_fst S tail)
  show "handler_keeps J (dec_word S n bs p)"
    unfolding dec_word_def by (intro keeps_attempt r keeps_if keeps_on_fst keeps_basic S)
  show "handler_keeps J (skip_pad S pad)"
    unfolding skip_pad_def by (intro keeps_if keeps_on_fst keeps_basic S)
  assume b: "handler_keeps J body"
  show "handler_keeps J (with_sub S fake body)"
    unfolding with_sub_def using b
    by (auto intro!: keeps_if keeps_seq keeps_attempt keeps_basic keeps_on_fst keeps_on_sub S
        split: prod.splits)
qed

lemma dec_handlers:
  assumes "reader_keeps J S" "\<And>p. handler_keeps J (m p)"
  shows "handler_keeps J (fst (decodePointer S bs sz (m, n)) p)"
    "handler_keeps J (fst (decodeArray_custom cnt (m, n)) p)"
    "handler_keeps J (fst (decodeSlice_custom S fake bs (m, n)) p)"
    "field_align S off (m, n) = Inr (m', n') \<Longrightarrow> handler_keeps J (m' p)"
proof -
  note S = reader_keepsD [OF assms(1)]
  show "handler_keeps J (fst (decodePointer S bs sz (m, n)) p)"
    unfolding decodePointer_def
    by (simp, intro dec_pieces(4) [OF assms(1)] keeps_attempt keeps_if keeps_host keeps_hwrite assms(2))
  show "handler_keeps J (fst (decodeArray_custom cnt (m, n)) p)"
    unfolding decodeArray_custom_def by (simp, intro keeps_intros assms(2))
  show "handler_keeps J (fst (decodeSlice_custom S fake bs (m, n)) p)"
    unfolding decodeSlice_custom_def
    by (simp add: split_def, intro dec_pieces(4) [OF assms(1)] keeps_attempt keeps_host keeps_elems assms(2))
  show "field_align S off (m, n) = Inr (m', n') \<Longrightarrow> handler_keeps J (m' p)"
    unfolding field_align_def
    using assms(2) by (auto split: sum.splits if_splits intro!: keeps_attempt keeps_on_fst S)
qed

lemma dec_plain:
  assumes "reader_keeps J S"
  shows "handler_keeps J (fst (decodeSlice_plain S fake bs sz) p)" "handler_keeps J (fst (decodeString S fake bs) p)"
    "handler_keeps J (fst (decodeArray_plain S cnt sz) p)"
proof -
  note S = reader_keepsD [OF assms] and P = dec_pieces [OF assms]
  have c: "handler_keeps J (attempt (slice_data p) (\<lambda>(data, len). dec_raw S (nat (int sz * len)) data))" for p
    by (simp add: split_def, intro keeps_attempt keeps_host P(1))
  show "handler_keeps J (fst (decodeSlice_plain S fake bs sz) p)"
    unfolding decodeSlice_plain_def
    by (simp only: Let_def fst_conv, intro keeps_if P(4) keeps_attempt keeps_on_fst keeps_basic S c)
  show "handler_keeps J (fst (decodeString S fake bs) p)"
    unfolding decodeString_def
    by (simp only: fst_conv, intro P(4) keeps_attempt keeps_if keeps_on_fst keeps_basic S keeps_host keeps_hwrite)
  show "handler_keeps J (fst (decodeArray_plain S cnt sz) p)"
    unfolding decodeArray_plain_def by (simp add: Let_def P)
qed

lemma decode_keeps:
  assumes "reader_keeps J S"
  shows "decode S fake bs t = Inr (m, n) \<Longrightarrow> handler_keeps J (m p)"
    and "decode_fields S bs fs n0 = Inr (hs, n) \<Longrightarrow> (m, off) \<in> set hs \<Longrightarrow> handler_keeps J (m p)"
  using assms
proof (induction S fake bs t and S bs fs n0 arbitrary: m n p and hs n m off p rule: decode_decode_fields.induct)
  case (1 S fake bs k)
  note S = reader_keepsD [OF 1(2)]
  from 1 show ?case
    by (auto split: if_splits intro!: keeps_attempt keeps_hwrite keeps_on_fst S dec_pieces)
next
  case (2 S fake bs cnt t)
  then show ?case
    using dec_handlers(2) [OF 2(3), of _ cnt] dec_plain(3) [OF 2(3), of cnt "go_size t" p]
    by (auto split: if_splits sum.splits) (metis fst_conv prod.collapse)+
next
  case (3 S fake bs t)
  then show ?case using dec_handlers(1) [OF 3(3)] by (auto split: sum.splits) (metis fst_conv)
next
  case (4 S fake bs t)
  then show ?case
    using dec_handlers(3) [OF 4(3), of _ fake bs] dec_plain(1) [OF 4(3), of fake bs "go_size t" p]
    by (auto split: if_splits sum.splits) (metis fst_conv)+
next
  case (5 S fake bs)
  then show ?case using dec_plain(2) [OF 5(2), of fake bs p] by simp
next
  case (6 S fake bs sz fs)
  then show ?case
    by (auto simp: struct_end_def decodeStruct_plain_def Let_def split: option.splits sum.splits
        intro!: keeps_attempt keeps_run_fields dec_pieces)
next
  case (9 S bs t off' tag fs n0)
  then show ?case
    using dec_handlers(4) [OF 9(6)]
    by (auto split: if_splits sum.splits) blast
qed simp_all

lemma Decode_keeps:
  assumes "reader_keeps J S"
  shows "handler_keeps J (Decode S val)"
  unfolding Decode_def
proof (intro keeps_seq keeps_basic)
  fix q :: "('b \<times> 'a) \<times> host"
  obtain s v h where q: "(q :: ('b \<times> 'a) \<times> host) = ((s, v), h)" by (metis prod.collapse)
  have run: "handler_keeps J (case decode S fake bs t of Inl c \<Rightarrow> crash c | Inr (m, _) \<Rightarrow> m p)" for fake bs t p
    using decode_keeps(1) [OF assms] by (auto simp: keeps_basic split: sum.splits)
  have var: "handler_keeps J (case decode S False bs t of Inl c \<Rightarrow> crash c
      | Inr (m, _) \<Rightarrow> if one_pointer t then with_var p m else m p)" for bs t p
    using decode_keeps(1) [OF assms]
    by (auto simp: keeps_basic with_var_def split: sum.splits intro!: keeps_attempt keeps_host)
  show "handler_keeps J ((\<lambda>((s, v), h).
     let bs = BlockSize S s; p = AnyPtr val;
         run = \<lambda>fake t k. case decode S fake bs t of Inl c \<Rightarrow> crash c | Inr (m, _) \<Rightarrow> k m
     in if p = 0 then on_fst (SSkip S (int bs))
        else case AnyType val of
          Pointer t \<Rightarrow> run False t (\<lambda>m. m p)
        | Slice t \<Rightarrow> run True (Slice t) (\<lambda>m. m p)
        | StringT \<Rightarrow> run True StringT (\<lambda>m. m p)
        | t \<Rightarrow> run False t (\<lambda>m. if one_pointer t then with_var p m else m p)) q)"
  proof (cases "AnyPtr val = 0")
    case True
    then show ?thesis using reader_keepsD(1) [OF assms] by (simp add: q Let_def keeps_on_fst)
  next
    case False
    then show ?thesis
      by (cases "AnyType val")
        (simp_all only: q Let_def prod.case if_False gotype.case run var)
  qed
qed

section \<open>Pointer streams\<close>

lemma keeps_ptr_ReadAt: "keeps J (ptr_ReadAt X p n off)"
  by (auto simp: keeps_def outcome_state_def ptr_ReadAt_def split: sum.splits)

lemma ptr_streams_reads: "reader_keeps J (ptr_streams X)"
proof -
  have skip: "stream_keeps J (ps_Skip n :: (unit res, pstream \<times> 'a) go)" for n
    unfolding ps_Skip_def by (rule keeps_update) auto
  have rd: "stream_keeps J (ps_Read X n)" for n
    unfolding ps_Read_def
    by (auto intro!: keeps_seq keeps_basic keeps_on_snd keeps_ptr_ReadAt skip split: prod.splits option.splits)
  have str: "stream_keeps J (ps_ReadString X)"
    unfolding ps_ReadString_def
    by (auto intro!: keeps_seq keeps_basic skip split: prod.splits option.splits sum.splits)
  have sub: "stream_keeps J (ps_ReadStream X)"
    unfolding ps_ReadStream_def
    by (auto intro!: keeps_seq keeps_basic skip split: prod.splits option.splits sum.splits)
  have val: "stream_keeps J (ps_ReadFloat X)" "stream_keeps J (ps_ReadDouble X)"
    unfolding ps_ReadFloat_def ps_ReadDouble_def by (intro keeps_seq keeps_basic rd)+
  show ?thesis
    using skip rd str sub val by (simp add: reader_keeps_def ptr_streams_def)
qed

text \<open>Extracting a value leaves the manager and the emulator as they are.\<close>

lemma memExtract_reads:
  "case memExtract D E addr val (w, h) of Ret r (w', h') \<Rightarrow> w' = w | Panic p (w', h') \<Rightarrow> w' = w"
proof -
  let ?S = "ptr_streams (mem_ctx E (\<lambda>_. crash NilDeref))"
  have k: "handler_keeps (\<lambda>v. fst v = w) (Decode ?S val)" by (rule Decode_keeps [OF ptr_streams_reads])
  let ?q = "((PointerStream addr (unat (DPointerSize D)), (w, [])), h)"
  show ?thesis
  proof (cases "Decode ?S val ?q")
    case (Ret r q)
    with keepsD(1) [OF k Ret] show ?thesis by (auto simp: memExtract_def split: prod.splits)
  next
    case (Panic p q)
    with keepsD(2) [OF k Panic] show ?thesis by (auto simp: memExtract_def split: prod.splits)
  qed
qed

end
