(* ===== verification/DbgFrame.thy ===== *)
theory DbgFrame
  imports Dbg MemReads
begin

text \<open>
  What the emulator has mapped changes only through the memory manager: for every operation of the
  managers, the table of mappings and the emulator agree afterwards when they did before. The laws of
  the emulator are a locale.
\<close>

section \<open>The emulator around the mappings\<close>

text \<open>
  \<open>M e\<close> is what the emulator has mapped, \<open>I\<close> an invariant of it. Mapping and unmapping behave as
  documented, and no other operation changes what is mapped. \<open>B e\<close> says of an emulator and its history
  that it has granted a mapping or an unmapping of a range that reaches the end of the address space,
  which the table of the manager mistakes.
\<close>

definition quiet :: "('e \<Rightarrow> nat set) \<Rightarrow> ('e \<Rightarrow> bool) \<Rightarrow> ('e \<Rightarrow> bool) \<Rightarrow> 'e \<Rightarrow> 'e \<Rightarrow> bool" where
  "quiet M B I e e' \<longleftrightarrow> (I e \<longrightarrow> M e' = M e \<and> B e' = B e \<and> I e')"

lemma quiet_refl [simp]: "quiet M B I e e"
  by (simp add: quiet_def)

lemma quiet_trans: "quiet M B I e e1 \<Longrightarrow> quiet M B I e1 e2 \<Longrightarrow> quiet M B I e e2"
  by (simp add: quiet_def)

text \<open>The table and the emulator agree, unless such a range was granted.\<close>

definition mapped_ok :: "('e \<Rightarrow> nat set) \<Rightarrow> ('e \<Rightarrow> bool) \<Rightarrow> ('e \<Rightarrow> bool) \<Rightarrow> mem_state \<times> 'e \<Rightarrow> bool" where
  "mapped_ok M B I = (\<lambda>(s, e). (B e \<or> agree M s e) \<and> I e)"

lemma mapped_cong: "maps s' = maps s \<Longrightarrow> mapped_ok M B I (s', e) = mapped_ok M B I (s, e)"
  by (simp add: mapped_ok_def agree_def)

lemma mapped_quiet: "mapped_ok M B I (s, e) \<Longrightarrow> quiet M B I e e' \<Longrightarrow> maps s' = maps s \<Longrightarrow> mapped_ok M B I (s', e')"
  by (auto simp: mapped_ok_def quiet_def agree_def)

lemma keeps_plainly:
  "(\<And>s e a s' e'. P (s, e) \<Longrightarrow> f s e = (a, s', e') \<Longrightarrow> P (s', e')) \<Longrightarrow> keeps P (plainly f)"
  by (rule keepsI) (auto simp: plainly_def split: prod.splits)

lemma mem_free_go_maps: "maps (outcome_state (mem_free_go addr s)) = maps s"
proof (cases "memFree addr s")
  case (Some r)
  then show ?thesis using memFree_maps [of addr s] by (cases r) (auto simp: mem_free_go_def outcome_state_def)
qed (simp add: mem_free_go_def outcome_state_def)

lemma keeps_free: "keeps (mapped_ok M B I) (on_fst (mem_free_go addr))"
proof -
  have "mapped_ok M B I (outcome_state (on_fst (mem_free_go addr) (s, e)))" if "mapped_ok M B I (s, e)" for s e
    using that mapped_cong [OF mem_free_go_maps [of addr s], of M B I e]
    by (auto simp: on_fst_def outcome_state_def split: outcome.splits)
  then show ?thesis by (simp add: keeps_def)
qed

lemma keeps_free_all: "maps (outcome_state (free_addrs addrs s)) = maps s"
proof -
  have "keeps (\<lambda>t. maps t = maps s) (free_addrs addrs)"
    unfolding free_addrs_def
    using mem_free_go_maps by (intro keeps_each keeps_seq keeps_basic) (simp add: keeps_def)
  then show ?thesis by (simp add: keeps_def)
qed

lemma keeps_fst: "keeps P m \<Longrightarrow> keeps (\<lambda>(w, h). P w) (on_fst m)"
  by (rule keepsI) (auto simp: on_fst_def split: outcome.splits dest: keepsD)

locale framed_emu =
  fixes E :: "'e emulator" and M :: "'e \<Rightarrow> nat set" and B :: "'e \<Rightarrow> bool" and I :: "'e \<Rightarrow> bool"
  assumes law_maps: "emu_maps E M" and law_closes: "emu_closes E M I"
    and law_map: "I e \<Longrightarrow> I (snd (EmuMemMap E a n prot e))"
    and law_unmap: "I e \<Longrightarrow> I (snd (EmuMemUnmap E a n e))"
    and law_top_map: "B (snd (EmuMemMap E a n prot e)) \<longleftrightarrow>
      B e \<or> 2 ^ 64 \<le> unat a + unat n \<and> fst (EmuMemMap E a n prot e) = None"
    and law_top_unmap: "B (snd (EmuMemUnmap E a n e)) \<longleftrightarrow>
      B e \<or> 2 ^ 64 \<le> unat a + unat n \<and> fst (EmuMemUnmap E a n e) = None"
    and law_protect: "quiet M B I e (snd (EmuMemProtect E a n prot e))"
    and law_write: "quiet M B I e (snd (EmuMemWrite E a bs e))"
    and law_reg: "quiet M B I e (snd (EmuRegWrite E r x e))"
    and law_hook: "quiet M B I e (snd (EmuHook E typ b en e))"
    and law_unhook: "B (EmuHookClose E h e) = B e"
begin

lemma quiet_close: "quiet M B I e (EmuHookClose E i e)"
  using law_closes law_unhook by (simp add: emu_closes_def quiet_def)

text \<open>A call that maps, or unmaps, and agrees unless it was granted such a range.\<close>

lemma map_mapped:
  assumes "mapped_ok M B I (s, e)" and "EmuMemMap E a n prot e = (q, e')"
    and "agree M s e \<Longrightarrow> agree M s' e' \<or> top_map E prot e e' a n"
  shows "mapped_ok M B I (s', e')"
  using assms law_map [of e a n prot] law_top_map [of a n prot e]
  by (auto simp: mapped_ok_def top_map_def)

lemma unmap_mapped:
  assumes "mapped_ok M B I (s, e)" and "EmuMemUnmap E a n e = (q, e')"
    and "agree M s e \<Longrightarrow> agree M s' e' \<or> top_unmap E e e' a n"
  shows "mapped_ok M B I (s', e')"
  using assms law_unmap [of e a n] law_top_unmap [of a n e]
  by (auto simp: mapped_ok_def top_unmap_def)

lemma keeps_map: "keeps (mapped_ok M B I) (plainly (memMap E a n prot))"
proof (rule keeps_plainly)
  fix s e r s' e'
  assume p: "mapped_ok M B I (s, e)" and m: "memMap E a n prot s e = (r, s', e')"
  obtain q where "EmuMemMap E (Align a (PageSize E)) (Align n (PageSize E)) prot e = (q, e')"
    using m by (auto simp: memMap_def Let_def split: prod.splits option.splits)
  from map_mapped [OF p this] memMap_agree [OF law_maps _ m] show "mapped_ok M B I (s', e')" by blast
qed

lemma keeps_unmap: "keeps (mapped_ok M B I) (plainly (memUnmap E a n))"
proof (rule keeps_plainly)
  fix s e r s' e'
  assume p: "mapped_ok M B I (s, e)" and m: "memUnmap E a n s e = (r, s', e')"
  obtain q where "EmuMemUnmap E (Align a (PageSize E)) (Align n (PageSize E)) e = (q, e')"
    using m by (auto simp: memUnmap_def Let_def split: prod.splits option.splits)
  from unmap_mapped [OF p this] memUnmap_agree [OF law_maps _ m] show "mapped_ok M B I (s', e')" by blast
qed

lemma mapAlloc_call:
  "mapAlloc E n prot s e = (r, s', e') \<Longrightarrow> \<exists>q. EmuMemMap E (mapAddr s) (Align n (PageSize E)) prot e = (q, e')"
  by (auto simp: mapAlloc_def Let_def split: prod.splits option.splits)

lemma mapAlloc_mapped: "mapped_ok M B I (s, e) \<Longrightarrow> mapAlloc E n prot s e = (r, s', e') \<Longrightarrow> mapped_ok M B I (s', e')"
  using mapAlloc_call map_mapped mapAlloc_agree [OF law_maps] by meson

lemma mapFree_mapped: "mapped_ok M B I (s, e) \<Longrightarrow> mapFree E a n s e = (r, s', e') \<Longrightarrow> mapped_ok M B I (s', e')"
proof -
  assume p: "mapped_ok M B I (s, e)" and m: "mapFree E a n s e = (r, s', e')"
  obtain q where "EmuMemUnmap E a (Align n (PageSize E)) e = (q, e')"
    using m by (auto simp: mapFree_def Let_def split: prod.splits option.splits)
  from unmap_mapped [OF p this] mapFree_agree [OF law_maps _ m] show "mapped_ok M B I (s', e')" by blast
qed

lemma memAlloc_mapped: "mapped_ok M B I (s, e) \<Longrightarrow> memAlloc E n s e = Some (r, s', e') \<Longrightarrow> mapped_ok M B I (s', e')"
proof -
  assume p: "mapped_ok M B I (s, e)" and m: "memAlloc E n s e = Some (r, s', e')"
  define prot where "prot = MEM_PROT_READ OR MEM_PROT_WRITE"
  obtain r1 s1 e1 where P: "mapAlloc E n prot s e = (r1, s1, e1)" by (metis prod_cases3)
  have "maps s' = maps s \<and> e' = e \<or> maps s' = maps s1 \<and> e' = e1"
    using m P by (auto simp: memAlloc_def Let_def prot_def split: if_splits option.splits sum.splits prod.splits)
  with p mapAlloc_mapped [OF p P] show "mapped_ok M B I (s', e')" by (metis mapped_cong)
qed

lemma keeps_mem:
  "keeps (mapped_ok M B I) (plainly (mapAlloc E n prot))" "keeps (mapped_ok M B I) (plainly (mapFree E a n))"
  "keeps (mapped_ok M B I) (plainly (\<lambda>s e. case memProtect E a n prot e of (r, e') \<Rightarrow> (r, s, e')))"
  "keeps (mapped_ok M B I) (\<lambda>(s, e). maybe (s, e) (map_option (\<lambda>(r, w). Ret r w) (memAlloc E n s e)))"
  "keeps (mapped_ok M B I) (\<lambda>(s, e). Ret (memSize a s) (s, e))"
proof -
  show "keeps (mapped_ok M B I) (plainly (mapAlloc E n prot))"
    by (rule keeps_plainly) (rule mapAlloc_mapped)
  show "keeps (mapped_ok M B I) (plainly (mapFree E a n))"
    by (rule keeps_plainly) (rule mapFree_mapped)
  show "keeps (mapped_ok M B I) (plainly (\<lambda>s e. case memProtect E a n prot e of (r, e') \<Rightarrow> (r, s, e')))"
    using law_protect
    by (intro keeps_plainly) (auto simp: memProtect_def split: prod.splits elim!: mapped_quiet, metis snd_conv)
  show "keeps (mapped_ok M B I) (\<lambda>(s, e). maybe (s, e) (map_option (\<lambda>(r, w). Ret r w) (memAlloc E n s e)))"
    using memAlloc_mapped
    by (auto simp: keeps_def outcome_state_def maybe_def split: option.splits outcome.splits)
  show "keeps (mapped_ok M B I) (\<lambda>(s, e). Ret (memSize a s) (s, e))"
    by (auto simp: keeps_def outcome_state_def)
qed

section \<open>Values\<close>

text \<open>The same of the world of \<^verbatim>\<open>memWrite\<close>, and of the debugger's own memory beside it.\<close>

lemma encode_mapped:
  "handler_keeps (\<lambda>(w, addrs). mapped_ok M B I w) (Encode (ptr_streams (mem_ctx E (write_alloc E))) val)"
proof (intro Encode_keeps ptr_streams_keeps)
  fix a b and v :: "'e mem_world"
  assume "case v of (w, addrs) \<Rightarrow> mapped_ok M B I w"
  then obtain s e as where v: "v = ((s, e), as)" and ok: "mapped_ok M B I (s, e)" by (cases v) auto
  obtain r e' where w: "EmuMemWrite E a b e = (r, e')" by fastforce
  have "quiet M B I e e'" using law_write [of e a b] w by simp
  from mapped_quiet [OF ok this refl] v w
  show "case snd (CMemWrite (mem_ctx E (write_alloc E)) a b v) of (w, addrs) \<Rightarrow> mapped_ok M B I w"
    by (simp add: mem_ctx_def)
next
  fix n
  have "case outcome_state (write_alloc E n ((s, e), as)) of (w, addrs) \<Rightarrow> mapped_ok M B I w"
    if "mapped_ok M B I (s, e)" for s e as
  proof (cases "memAlloc E n s e")
    case (Some x)
    obtain r s1 e1 where x: "x = (r, s1, e1)" by (cases x)
    with memAlloc_mapped [OF that] Some have "mapped_ok M B I (s1, e1)" by simp
    with Some x show ?thesis by (cases r) (simp_all add: write_alloc_def outcome_state_def)
  qed (use that in \<open>simp add: write_alloc_def outcome_state_def\<close>)
  then show "keeps (\<lambda>(w, addrs). mapped_ok M B I w) (CAlloc (mem_ctx E (write_alloc E)) n)"
    by (simp add: mem_ctx_def keeps_def split_def)
qed

lemma keeps_memWrite: "keeps (\<lambda>(w, h). mapped_ok M B I w) (memWrite D E addr val)"
proof -
  let ?m = "Encode (ptr_streams (mem_ctx E (write_alloc E))) val"
  have "case outcome_state (memWrite D E addr val (w, h)) of (w', h') \<Rightarrow> mapped_ok M B I w'"
    if w: "mapped_ok M B I w" for w h
  proof (cases "?m ((PointerStream addr (unat (DPointerSize D)), (w, [])), h)")
    case (Panic p q)
    with keepsD(2) [OF encode_mapped Panic] w show ?thesis
      by (auto simp: memWrite_def outcome_state_def split: prod.splits)
  next
    case (Ret r q)
    obtain x s1 e1 addrs h1 where q: "q = ((x, ((s1, e1), addrs)), h1)" by (metis prod.collapse)
    have ok: "mapped_ok M B I (s1, e1)" using keepsD(1) [OF encode_mapped Ret] w q by simp
    show ?thesis
    proof (cases r)
      case (Inr u)
      with Ret q ok show ?thesis by (simp add: memWrite_def outcome_state_def)
    next
      case (Inl err)
      have "maps (outcome_state (free_addrs addrs s1)) = maps s1" by (rule keeps_free_all)
      with ok have "mapped_ok M B I (outcome_state (free_addrs addrs s1), e1)"
        by (simp add: mapped_ok_def agree_def)
      with Inl Ret q show ?thesis
        by (cases "free_addrs addrs s1") (simp_all add: memWrite_def outcome_state_def)
    qed
  qed
  then show ?thesis by (simp add: keeps_def split_def)
qed

lemma keeps_memImport: "keeps (\<lambda>(w, h). mapped_ok M B I w) (memImport D E val)"
proof -
  let ?tail = "\<lambda>addr. seq (memWrite D E addr val) (\<lambda>r. case r of
      Inr addrs \<Rightarrow> ret (Inr (addr # addrs))
    | Inl err \<Rightarrow> seq (on_fst (on_fst (mem_free_go addr))) (\<lambda>_. ret (Inl err)))"
  note fr = keeps_fst [OF keeps_free]
  have tail: "keeps (\<lambda>(w, h). mapped_ok M B I w) (?tail addr)" for addr
    by (auto intro!: keeps_seq keeps_memWrite keeps_basic fr split: sum.splits)
  have "case outcome_state (memImport D E val (w, h)) of (w', h') \<Rightarrow> mapped_ok M B I w'"
    if w: "mapped_ok M B I w" for w h
  proof -
    obtain s e where se: "w = (s, e)" by fastforce
    show ?thesis
    proof (cases "EncodeSize (ptr_streams (mem_ctx E (write_alloc E))) (unat (DPointerSize D)) val")
      case (Inl p)
      with w se show ?thesis by (simp add: memImport_def outcome_state_def)
    next
      case (Inr n)
      show ?thesis
      proof (cases "memAlloc E (word_of_int n) s e")
        case None
        with Inr w se show ?thesis by (simp add: memImport_def outcome_state_def)
      next
        case (Some x)
        obtain r s1 e1 where x: "x = (r, s1, e1)" by (cases x)
        have ok: "mapped_ok M B I (s1, e1)" using memAlloc_mapped w se Some x by blast
        with Inr Some x se tail show ?thesis
          by (cases r) (auto simp: memImport_def outcome_state_def keeps_def)
      qed
    qed
  qed
  then show ?thesis by (simp add: keeps_def split_def)
qed

lemma keeps_memExtract: "keeps (\<lambda>(w, h). mapped_ok M B I w) (memExtract D E addr val)"
proof -
  have "case outcome_state (memExtract D E addr val (w, h)) of (w', h') \<Rightarrow> mapped_ok M B I w'"
    if "mapped_ok M B I w" for w h
    using memExtract_reads [where D = D and E = E and addr = addr and val = val and w = w and h = h] that
    by (cases "memExtract D E addr val (w, h)") (auto simp: outcome_state_def)
  then show ?thesis by (simp add: keeps_def split_def)
qed

section \<open>Hooks\<close>

text \<open>The hook manager changes what is mapped only through the memory manager.\<close>

abbreviation hooks_keep :: "('a, hook_mgr \<times> mem_state \<times> 'e) go \<Rightarrow> bool" where
  "hooks_keep \<equiv> keeps (\<lambda>(h, w). mapped_ok M B I w)"

lemma quiet_release: "quiet M B I (snd st) (snd (run_hook_release E r st))"
  using quiet_close by (auto simp: run_hook_release_def split: prod.splits hook_release.splits)

lemma quiet_hook_Close: "hook_Close E i (h, e) = (h', e') \<Longrightarrow> quiet M B I e e'"
proof -
  have "quiet M B I (snd st) (snd (fold (run_hook_release E) rs st))" for rs st
  proof (induction rs arbitrary: st)
    case (Cons r rs)
    show ?case using quiet_trans [OF quiet_release [of st r] Cons.IH] by simp
  qed simp
  from this [of "(h, e)" "rev (hk_releases (hooks h ! i))"]
  show "hook_Close E i (h, e) = (h', e') \<Longrightarrow> quiet M B I e e'"
    by (auto simp: hook_Close_def split: prod.splits)
qed

lemma quiet_addHook: "addHook E typ cb data b en h e = (r, h', e') \<Longrightarrow> quiet M B I e e'"
proof -
  have hk: "EmuHook E t x y e = (q, e1) \<Longrightarrow> quiet M B I e e1" for t x y q e1
    using law_hook [of e t x y] by simp
  have m: "add_mem E handler h e = (r, h', e') \<Longrightarrow> quiet M B I e e'" for handler
    using hk quiet_hook_Close
    by (auto simp: add_mem_def Let_def new_hook_def split: if_splits prod.splits sum.splits
        elim!: quiet_trans [OF hk])
  show "addHook E typ cb data b en h e = (r, h', e') \<Longrightarrow> quiet M B I e e'"
    using hk m by (auto simp: addHook_def add_code_def new_hook_def Let_def split: if_splits prod.splits sum.splits)
qed

lemma quiet_fill: "ctrl_fill E asm sz en k addr e = (q, e') \<Longrightarrow> quiet M B I e e'"
proof (induction k arbitrary: addr e q e')
  case (Suc k)
  show ?case
  proof (cases "addr < en")
    case True
    obtain q1 e1 where f: "ctrl_fill E asm sz en k (addr + sz) (snd (EmuMemWrite E addr asm e)) = (q1, e1)"
      by fastforce
    with Suc.prems True have "e' = e1" by simp
    with quiet_trans [OF law_write Suc.IH [OF f]] show ?thesis by simp
  qed (use Suc.prems in simp)
qed simp

lemma keeps_allocCtrlAddrs: "hooks_keep (\<lambda>(h, s, e). allocCtrlAddrs E h s e)"
proof -
  have "case outcome_state (allocCtrlAddrs E h s e) of (h', w') \<Rightarrow> mapped_ok M B I w'"
    if w: "mapped_ok M B I (s, e)" for h s e
  proof -
    obtain r s1 e1 where a: "mapAlloc E 0x1000 MEM_PROT_EXEC s e = (r, s1, e1)" by (metis prod_cases3)
    have ok: "mapped_ok M B I (s1, e1)" by (rule mapAlloc_mapped [OF w a])
    show ?thesis
      using a ok
      by (auto simp: allocCtrlAddrs_def outcome_state_def Let_def split: sum.splits prod.splits
          intro: mapped_quiet [OF ok quiet_fill])
  qed
  then show ?thesis by (auto simp: keeps_def)
qed

lemma ctrlAddrAlloc_mapped:
  assumes "ctrlAddrAlloc E h s e = Some r" and "mapped_ok M B I (s, e)"
  shows "case outcome_state r of (h', w') \<Rightarrow> mapped_ok M B I w'"
proof -
  let ?P = "\<lambda>F h s e r. F = E \<longrightarrow> mapped_ok M B I (s, e) \<longrightarrow>
      (case outcome_state r of (h', w') \<Rightarrow> mapped_ok M B I w')"
  have "?P E h s e r"
  proof (rule ctrlAddrAlloc.raw_induct [where P = ?P, OF _ assms(1)])
    fix f and F :: "'e emulator" and h :: hook_mgr and s :: mem_state and e :: 'e and r
    assume IH: "\<And>F h s e r. f F h s e = Some r \<Longrightarrow> ?P F h s e r"
      and body: "(case chans_recv (ctrlAddrs h) of
        Some (a, cs) \<Rightarrow> Some (Ret (Inr a) (h\<lparr>ctrlAddrs := cs\<rparr>, s, e))
      | None \<Rightarrow>
          (case allocCtrlAddrs F h s e of
             Panic p st \<Rightarrow> Some (Panic p st)
           | Ret (Some err) st \<Rightarrow> Some (Ret (Inl err) st)
           | Ret None (h', s', e') \<Rightarrow> f F h' s' e')) = Some r"
    show "?P F h s e r"
    proof (intro impI)
      assume F: "F = E" and ok: "mapped_ok M B I (s, e)"
      then have alloc: "case outcome_state (allocCtrlAddrs F h s e) of (h', w') \<Rightarrow> mapped_ok M B I w'"
        using keeps_allocCtrlAddrs by (simp add: keeps_def split_def)
      show "case outcome_state r of (h', w') \<Rightarrow> mapped_ok M B I w'"
      proof (cases "chans_recv (ctrlAddrs h)")
        case (Some x)
        with body ok show ?thesis by (cases x) (auto simp: outcome_state_def)
      next
        case None
        note recv = None
        show ?thesis
        proof (cases "allocCtrlAddrs F h s e")
          case (Panic p t)
          with recv body alloc show ?thesis by (auto simp: outcome_state_def)
        next
          case (Ret err t)
          obtain h1 s1 e1 where t: "t = (h1, s1, e1)" by (cases t)
          with alloc Ret have ok1: "mapped_ok M B I (s1, e1)" by (simp add: outcome_state_def)
          show ?thesis
          proof (cases err)
            case None
            with Ret t recv body have "f F h1 s1 e1 = Some r" by simp
            from IH [OF this] F ok1 show ?thesis by simp
          next
            case (Some x)
            with Ret t recv body ok1 show ?thesis by (auto simp: outcome_state_def)
          qed
        qed
      qed
    qed
  qed
  with assms(2) show ?thesis by simp
qed

text \<open>Adding and closing controls, binding memory, and the destructors\<close>

lemma keeps_addHook:
  "hooks_keep (\<lambda>(h, s, e). case addHook E typ cb data b en h e of (r, h', e') \<Rightarrow> Ret r (h', s, e'))"
  by (rule keepsI) (auto split: prod.splits intro: mapped_quiet [OF _ quiet_addHook])

lemma keeps_hook_Close:
  "hooks_keep (\<lambda>(h, s, e). case hook_Close E i (h, e) of (h', e') \<Rightarrow> Ret () (h', s, e'))"
  by (rule keepsI) (auto split: prod.splits intro: mapped_quiet [OF _ quiet_hook_Close])

lemma quiet_ctrl_Close: "ctrl_Close E c (h, e) = (h', e') \<Longrightarrow> quiet M B I e e'"
proof -
  have step: "quiet M B I (snd st) (snd (run_ctrl_release E r st))" for r st
    using quiet_hook_Close
    by (cases "hook_Close E (case r of CloseHook i \<Rightarrow> i | FreeCtrl a \<Rightarrow> 0) st"; cases st; cases r)
      (simp_all add: run_ctrl_release_def)
  have "quiet M B I (snd st) (snd (fold (run_ctrl_release E) rs st))" for rs st
  proof (induction rs arbitrary: st)
    case (Cons r rs)
    show ?case using quiet_trans [OF step [of st r] Cons.IH] by simp
  qed simp
  from this [of "(h, e)" "rev (ct_releases (ctrls h ! c))"]
  show "ctrl_Close E c (h, e) = (h', e') \<Longrightarrow> quiet M B I e e'" by (simp add: ctrl_Close_def)
qed

lemma keeps_ctrl_Close:
  "hooks_keep (\<lambda>(h, s, e). case ctrl_Close E c (h, e) of (h', e') \<Rightarrow> Ret () (h', s, e'))"
  by (rule keepsI) (auto split: prod.splits intro: mapped_quiet [OF _ quiet_ctrl_Close])

lemma addControl_mapped:
  assumes "addControl E cb data h s e = Some r" and "mapped_ok M B I (s, e)"
  shows "case outcome_state r of (h', w') \<Rightarrow> mapped_ok M B I w'"
proof (cases "ctrlAddrAlloc E h s e")
  case None
  with assms(1) show ?thesis by (simp add: addControl_def)
next
  case (Some q)
  note ok = ctrlAddrAlloc_mapped [OF Some assms(2)]
  show ?thesis
  proof (cases q)
    case (Panic p t)
    with Some assms(1) ok show ?thesis by (auto simp: addControl_def outcome_state_def)
  next
    case (Ret a t)
    obtain h1 s1 e1 where t: "t = (h1, s1, e1)" by (cases t)
    with ok Ret have ok1: "mapped_ok M B I (s1, e1)" by (simp add: outcome_state_def)
    show ?thesis
    proof (cases a)
      case (Inl err)
      with Some Ret t assms(1) ok1 show ?thesis by (auto simp: addControl_def outcome_state_def)
    next
      case (Inr x)
      obtain r2 h2 e2 where ah: "addHook E HOOK_TYPE_INTR (CtrlCb (length (ctrls h1))) data (snd x) (snd x + 1) h1 e1 = (r2, h2, e2)"
        by (metis prod_cases3)
      from mapped_quiet [OF ok1 quiet_addHook [OF ah] refl] have "mapped_ok M B I (s1, e2)" .
      with Some Ret t Inr ah assms(1) show ?thesis
        by (cases r2) (auto simp: addControl_def outcome_state_def Let_def)
    qed
  qed
qed

lemma keeps_addControl: "hooks_keep (\<lambda>(h, s, e). maybe (h, s, e) (addControl E cb data h s e))"
proof -
  have "case outcome_state (maybe (h, s, e) (addControl E cb data h s e)) of (h', w') \<Rightarrow> mapped_ok M B I w'"
    if "mapped_ok M B I (s, e)" for h s e
    using addControl_mapped [of cb data h s e] that
    by (cases "addControl E cb data h s e") (simp_all add: maybe_def outcome_state_def)
  then show ?thesis by (simp add: keeps_def split_def)
qed

lemma memBind_mapped:
  assumes ok: "mapped_ok M B I (s, e)"
  shows "case outcome_state (memBind E cb n h s e) of (h', w') \<Rightarrow> mapped_ok M B I w'"
proof (cases "memAlloc E n s e")
  case None
  with ok show ?thesis by (simp add: memBind_def outcome_state_def)
next
  case (Some x)
  obtain r s1 e1 where x: "x = (r, s1, e1)" by (cases x)
  have ok1: "mapped_ok M B I (s1, e1)" using memAlloc_mapped [OF ok] Some x by simp
  show ?thesis
  proof (cases r)
    case (Inl err)
    with Some x ok1 show ?thesis by (simp add: memBind_def outcome_state_def)
  next
    case (Inr a)
    obtain r2 h2 e2 where ah: "addHook E (HOOK_TYPE_MEM_READ OR HOOK_TYPE_MEM_WRITE) (MemCb cb) (unat a) a (a + n) h e1 = (r2, h2, e2)"
      by (metis prod_cases3)
    note q = mapped_quiet [OF ok1 quiet_addHook [OF ah]]
    show ?thesis
    proof (cases r2)
      case (Inr i)
      with Some x \<open>r = Inr a\<close> ah q show ?thesis by (simp add: memBind_def outcome_state_def)
    next
      case (Inl err)
      with Some x \<open>r = Inr a\<close> ah q mem_free_go_maps [of a s1] show ?thesis
        by (cases "mem_free_go a s1") (simp_all add: memBind_def outcome_state_def)
    qed
  qed
qed

lemma memUnbind_mapped:
  assumes ok: "mapped_ok M B I (s, e)"
  shows "case outcome_state (memUnbind E addr h s e) of (h', w') \<Rightarrow> mapped_ok M B I w'"
proof (cases "gm_get (binds s) addr")
  case None
  with ok show ?thesis by (simp add: memUnbind_def outcome_state_def)
next
  case (Some i)
  obtain h1 e1 where c: "hook_Close E i (h, e) = (h1, e1)" by fastforce
  note q = mapped_quiet [OF ok quiet_hook_Close [OF c]]
  show ?thesis
    using Some c q mem_free_go_maps [of addr "s\<lparr>binds := gm_del addr (binds s)\<rparr>"]
    by (cases "mem_free_go addr (s\<lparr>binds := gm_del addr (binds s)\<rparr>)")
      (simp_all add: memUnbind_def outcome_state_def)
qed

lemma keeps_binds:
  "hooks_keep (\<lambda>(h, s, e). memBind E cb n h s e)" "hooks_keep (\<lambda>(h, s, e). memUnbind E addr h s e)"
  using memBind_mapped memUnbind_mapped by (simp_all add: keeps_def split_def)

lemma hook_dtor_mapped:
  assumes "mapped_ok M B I (s, e)"
  shows "case hook_dtor E h s e of (h', w') \<Rightarrow> mapped_ok M B I w'"
proof -
  have step: "mapped_ok M B I w \<Longrightarrow> mapped_ok M B I (run_mgr_release E r w)" for r w
    using mapped_quiet [OF _ quiet_close refl] mapFree_mapped
    by (cases w; cases r) (auto simp: run_mgr_release_def, metis prod.collapse)
  have "mapped_ok M B I w \<Longrightarrow> mapped_ok M B I (fold (run_mgr_release E) rs w)" for rs w
    by (induction rs arbitrary: w) (simp_all add: step)
  with assms show ?thesis by (simp add: hook_dtor_def)
qed

text \<open>The destructor of the memory manager unmaps everything.\<close>

lemma quiet_closes: "quiet M B I (snd st) (snd (fold (\<lambda>(a, i). hook_Close E i) bs st))"
proof (induction bs arbitrary: st)
  case (Cons b bs)
  have "quiet M B I (snd st) (snd (hook_Close E (snd b) st))"
    using quiet_hook_Close by (cases st) (metis prod.collapse snd_conv)
  from quiet_trans [OF this Cons.IH] show ?case by (simp add: split_def)
qed simp

lemma unmaps_top: "B e \<Longrightarrow> B (fold (\<lambda>(a, n) e. snd (EmuMemUnmap E a n e)) m e)"
  by (induction m arbitrary: e) (auto simp: law_top_unmap)

lemma mem_dtor_empties:
  assumes "mapped_ok M B I (s, e)"
  shows "case mem_dtor E h s e of (h', s', e') \<Rightarrow> (B e' \<or> M e' = {}) \<and> maps s' = [] \<and> binds s' = []"
proof -
  have I: "I e" using assms by (simp add: mapped_ok_def)
  obtain h1 e1 where c: "fold (\<lambda>(a, i). hook_Close E i) (binds s) (h, e) = (h1, e1)" by fastforce
  with quiet_closes [of "(h, e)" "binds s"] I have q: "M e1 = M e" "B e1 = B e" "I e1" by (simp_all add: quiet_def)
  have "B (fold (\<lambda>(a, n) e. snd (EmuMemUnmap E a n e)) (maps s) e1) \<or>
      M (fold (\<lambda>(a, n) e. snd (EmuMemUnmap E a n e)) (maps s) e1) = {}"
  proof (cases "B e")
    case False
    with assms have "table_ok (maps s)" "M e = covered (maps s)" by (auto simp: mapped_ok_def agree_def)
    with unmap_all [OF law_maps law_closes, of "maps s" e1] q show ?thesis by simp
  qed (use unmaps_top q in simp)
  with c show ?thesis by (simp add: mem_dtor_def Let_def split_def)
qed

end

end
