(* ===== verification/DbgProps.thy ===== *)
theory DbgProps
  imports DbgFrame HookProps
begin

text \<open>
  The life of a debugger: whatever calls are made on it between its construction and its
  destruction, closing it always returns and leaves nothing mapped; and a call of a guest function
  returns to the callback that ends exactly that task.
\<close>

section \<open>The calls on a debugger\<close>

datatype dbg_op =
    OMap u64 u64 mem_prot | OUnmap u64 u64 | OProtect u64 u64 mem_prot
  | OMapAlloc u64 mem_prot | OMapFree u64 u64 | OAlloc u64 | OFree u64
  | OImport goany | OWrite u64 goany | OExtract u64 goany | OBind nat u64 | OUnbind u64
  | OHook u64 callback nat u64 u64 | OHookClose nat | OControl nat nat | OControlClose nat
  | OMain | OTask | OFork nat | OCall nat nat u64 | OTaskClose nat | OMainClose
  | OLoad nat | OUnload nat | OFiles "file_mgr \<Rightarrow> file_mgr"

definition quietly :: "('a, 's) go \<Rightarrow> (unit, 's) go" where
  "quietly m = seq m (\<lambda>_. ret ())"

fun dbg_do :: "('c, 'e) ctx_ops \<Rightarrow> dbg_arch \<Rightarrow> 'e emulator \<Rightarrow> dbg_op \<Rightarrow> (unit, ('c, 'e) dbg) go" where
  "dbg_do X D E (OMap a n p) = quietly (dbg_MemMap E a n p)"
| "dbg_do X D E (OUnmap a n) = quietly (dbg_MemUnmap E a n)"
| "dbg_do X D E (OProtect a n p) = quietly (dbg_MemProtect E a n p)"
| "dbg_do X D E (OMapAlloc n p) = quietly (dbg_MapAlloc E n p)"
| "dbg_do X D E (OMapFree a n) = quietly (dbg_MapFree E a n)"
| "dbg_do X D E (OAlloc n) = quietly (dbg_MemAlloc E n)"
| "dbg_do X D E (OFree a) = quietly (dbg_MemFree a)"
| "dbg_do X D E (OImport v) = quietly (dbg_MemImport D E v)"
| "dbg_do X D E (OWrite a v) = quietly (dbg_MemWrite D E a v)"
| "dbg_do X D E (OExtract a v) = quietly (dbg_MemExtract D E a v)"
| "dbg_do X D E (OBind cb n) = quietly (dbg_MemBind E cb n)"
| "dbg_do X D E (OUnbind a) = quietly (dbg_MemUnbind E a)"
| "dbg_do X D E (OHook t cb x b en) = quietly (dbg_AddHook E t cb x b en)"
| "dbg_do X D E (OHookClose i) = dbg_hook_Close E i"
| "dbg_do X D E (OControl cb x) = quietly (dbg_AddControl E cb x)"
| "dbg_do X D E (OControlClose c) = dbg_ctrl_Close E c"
| "dbg_do X D E OMain = quietly (dbg_GetMainTask X D)"
| "dbg_do X D E OTask = quietly (dbg_CreateTask X D E)"
| "dbg_do X D E (OFork i) = quietly (on_tasks (runner_Fork (ctx_at X) i))"
| "dbg_do X D E (OCall cb i a) = quietly (dbg_CallTaskOf X D E cb i a)"
| "dbg_do X D E (OTaskClose i) = quietly (dbg_task_Close D E i)"
| "dbg_do X D E OMainClose = quietly (dbg_main_Close E)"
| "dbg_do X D E (OLoad m) = (\<lambda>d. Ret () (d\<lparr>d_loaded := mod_Load m (d_loaded d)\<rparr>))"
| "dbg_do X D E (OUnload m) = (\<lambda>d. Ret () (d\<lparr>d_loaded := mod_Unload m (d_loaded d)\<rparr>))"
| "dbg_do X D E (OFiles g) = (\<lambda>d. Ret () (d\<lparr>d_files := g (d_files d)\<rparr>))"

text \<open>
  A call that panics leaves the state it has reached; the user may recover and go on. \<open>OFiles\<close> is any
  call of the file manager, by what it does to the state of the manager.
\<close>

definition dbg_run :: "('c, 'e) ctx_ops \<Rightarrow> dbg_arch \<Rightarrow> 'e emulator \<Rightarrow> dbg_op list \<Rightarrow> ('c, 'e) dbg \<Rightarrow> ('c, 'e) dbg" where
  "dbg_run X D E ops d = fold (\<lambda>op d. outcome_state (dbg_do X D E op d)) ops d"

section \<open>What the calls keep\<close>

abbreviation dbg_keeps :: "(mem_state \<times> 'e \<Rightarrow> bool) \<Rightarrow> ('a, ('c, 'e) dbg) go \<Rightarrow> bool" where
  "dbg_keeps P \<equiv> keeps (\<lambda>d. P (tk_emu (d_tasks d)))"

named_theorems dbg_intros \<open>a call keeps what its pieces keep\<close>

lemma dbg_keeps_parts [dbg_intros]:
  "keeps P m \<Longrightarrow> dbg_keeps P (on_mem m)"
  "keeps (\<lambda>(h, w). P w) k \<Longrightarrow> dbg_keeps P (on_hooks k)"
  "keeps (\<lambda>(w, b). P w) v \<Longrightarrow> dbg_keeps P (on_values v)"
proof -
  show "keeps P m \<Longrightarrow> dbg_keeps P (on_mem m)"
    by (rule keepsI) (auto simp: on_mem_def split: outcome.splits dest: keepsD)
  show "keeps (\<lambda>(h, w). P w) k \<Longrightarrow> dbg_keeps P (on_hooks k)"
    by (rule keepsI) (auto simp: on_hooks_def split: outcome.splits prod.splits dest: keepsD)
  show "keeps (\<lambda>(w, b). P w) v \<Longrightarrow> dbg_keeps P (on_values v)"
    by (rule keepsI) (auto simp: on_values_def split: outcome.splits prod.splits dest: keepsD)
qed

lemma dbg_keeps_tasks [dbg_intros]:
  "(\<And>m. P (tk_emu m) \<Longrightarrow> P (tk_emu (snd (f m)))) \<Longrightarrow> dbg_keeps P (on_tasks f)"
  by (auto simp: keeps_def outcome_state_def on_tasks_def split: prod.splits) (metis snd_conv)

lemma dbg_keeps_state [dbg_intros]:
  "(\<And>d. tk_emu (d_tasks (f d)) = tk_emu (d_tasks d)) \<Longrightarrow> dbg_keeps P (\<lambda>d. Ret (g d) (f d))"
  by (simp add: keeps_def outcome_state_def)

text \<open>A call that looks at the state before it acts.\<close>

lemma keeps_by_state: "(\<And>d. keeps P (f d)) \<Longrightarrow> keeps P (\<lambda>d. f d d)"
  by (simp add: keeps_def)

lemma keeps_unless: "keeps P m \<Longrightarrow> keeps P (\<lambda>d. if c d then Panic p d else m d)"
  by (simp add: keeps_def outcome_state_def)

lemma keeps_quietly [dbg_intros]: "keeps P m \<Longrightarrow> keeps P (quietly m)"
  unfolding quietly_def by (intro keeps_seq keeps_basic)

section \<open>The task manager and the emulator\<close>

named_theorems tk_emu_simps \<open>operations of the task manager that leave the emulator alone\<close>

lemma tk_emu_basic [tk_emu_simps]:
  "tk_emu (put_runner i r m) = tk_emu m" "tk_emu (snd (taskID m)) = tk_emu m"
  "tk_emu (snd (add_runner r m)) = tk_emu m" "tk_emu (tc_dtor tc m) = tk_emu m"
  "tk_emu (freeTaskContext tc m) = tk_emu m" "tk_emu (snd (allocTaskContext m)) = tk_emu m"
  by (simp_all add: put_runner_def taskID_def add_runner_def tc_dtor_def freeTaskContext_def
      allocTaskContext_def Let_def split: prod.splits)

lemma tk_emu_tasks [tk_emu_simps]:
  "tk_emu (snd (start_task X sp tc m)) = tk_emu m" "tk_emu (runner_Close i m) = tk_emu m"
  "tk_emu (main_Close i m) = tk_emu m" "tk_emu (main_release i m) = tk_emu m"
  "tk_emu (snd (runner_Fork X i m)) = tk_emu m" "tk_emu (snd (getMainTask X sp i m)) = tk_emu m"
  by (auto simp: start_task_def runner_Close_def main_Close_def main_release_def runner_Fork_def
      getMainTask_def tk_emu_basic Let_def taskID_def add_runner_def split: prod.splits sum.splits)

context framed_emu
begin

lemma init_stack_mapped: "mapped_ok M B I w \<Longrightarrow> mapped_ok M B I (snd (init_stack D E w))"
  using mapAlloc_mapped
  by (cases w) (auto simp: init_stack_def InitStack_def split: prod.splits sum.splits)

lemma newTaskContext_mapped:
  assumes "mapped_ok M B I (tk_emu m)"
  shows "mapped_ok M B I (tk_emu (snd (newTaskContext X (init_stack D E) m)))"
  using init_stack_mapped [OF assms, of D] assms
  by (auto simp: newTaskContext_def split: prod.splits sum.splits)

lemma newMain_mapped:
  assumes "mapped_ok M B I (tk_emu m)"
  shows "mapped_ok M B I (tk_emu (snd (newMain X (init_stack D E) m)))"
proof -
  obtain r m1 where n: "newTaskContext X (init_stack D E) m = (r, m1)" by fastforce
  with newTaskContext_mapped [OF assms, of X D] have "mapped_ok M B I (tk_emu m1)" by simp
  with n show ?thesis
    by (auto simp: newMain_def Let_def tk_emu_simps split: prod.splits sum.splits option.splits)
      (metis snd_conv tk_emu_basic(2))
qed

lemma createTask_mapped:
  assumes "mapped_ok M B I (tk_emu m)"
  shows "mapped_ok M B I (tk_emu (snd (createTask X sp (init_stack D E) m)))"
proof -
  obtain r m1 where a: "allocTaskContext m = (r, m1)" by fastforce
  with assms have m1: "mapped_ok M B I (tk_emu m1)" using tk_emu_basic(6) [of m] by simp
  obtain q m2 where n: "newTaskContext X (init_stack D E) m1 = (q, m2)" by fastforce
  with newTaskContext_mapped [OF m1, of X D] have "mapped_ok M B I (tk_emu m2)" by simp
  with a n m1 show ?thesis
    by (auto simp: createTask_def newTask_def tk_emu_simps split: prod.splits sum.splits option.splits)
qed

lemma dbg_keeps_release: "dbg_keeps (mapped_ok M B I) (run_task_release E r)"
  unfolding run_task_release_def dbg_ctrl_Close_def
  by (auto split: task_release.split intro!: keeps_seq keeps_basic dbg_intros keeps_ctrl_Close)

lemma dbg_keeps_releases: "dbg_keeps (mapped_ok M B I) (each (run_task_release E) rs)"
  by (rule keeps_each) (rule dbg_keeps_release)

lemma dbg_keeps_tc_dtor: "dbg_keeps (mapped_ok M B I) (run_tc_dtor D E tc)"
  unfolding run_tc_dtor_def CloseStack_def
  by (intro keeps_if keeps_seq keeps_basic dbg_intros keeps_mem)

lemma dbg_keeps_closes:
  "dbg_keeps (mapped_ok M B I) (dbg_task_Close D E i :: (unit res, ('c, 'e) dbg) go)" "dbg_keeps (mapped_ok M B I) (dbg_main_Close E :: (unit res, ('c, 'e) dbg) go)"
  "dbg_keeps (mapped_ok M B I) (dbg_main_release D E :: (unit res, ('c, 'e) dbg) go)"
proof -
  have t: "dbg_keeps (mapped_ok M B I) (on_tasks (\<lambda>m. ((), runner_Close i m)))"
    "dbg_keeps (mapped_ok M B I) (on_tasks (\<lambda>m. ((), main_Close i m)))"
    "dbg_keeps (mapped_ok M B I) (on_tasks (\<lambda>m. ((), main_release i m)))" for i
    by (rule dbg_keeps_tasks, simp add: tk_emu_simps)+
  have h: "dbg_keeps (mapped_ok M B I) ((attempt (each (run_task_release E) rs) (\<lambda>_.
      seq (on_tasks (\<lambda>m. ((), runner_Close i m))) (\<lambda>_. if c then run_tc_dtor D E tc else ret (Inr ())))) :: (unit res, ('c, 'e) dbg) go)" for rs c tc
    by (intro keeps_attempt keeps_seq keeps_if keeps_basic dbg_keeps_releases dbg_keeps_tc_dtor t)
  show "dbg_keeps (mapped_ok M B I) (dbg_task_Close D E i :: (unit res, ('c, 'e) dbg) go)"
    using h [unfolded keeps_def, rule_format] by (simp add: dbg_task_Close_def keeps_def Let_def split del: if_split)
  have h: "dbg_keeps (mapped_ok M B I) ((attempt (each (run_task_release E) rs) (\<lambda>_.
      seq (on_tasks (\<lambda>m. ((), main_Close i m))) (\<lambda>_. ret (Inr ())))) :: (unit res, ('c, 'e) dbg) go)" for rs i
    by (intro keeps_attempt keeps_seq keeps_basic dbg_keeps_releases t)
  show "dbg_keeps (mapped_ok M B I) (dbg_main_Close E :: (unit res, ('c, 'e) dbg) go)"
    using h [unfolded keeps_def, rule_format] by (simp add: dbg_main_Close_def keeps_def)
  have h: "dbg_keeps (mapped_ok M B I) ((attempt (each (run_task_release E) rs) (\<lambda>_.
      seq (on_tasks (\<lambda>m. ((), main_release i m))) (\<lambda>_. run_tc_dtor D E tc))) :: (unit res, ('c, 'e) dbg) go)" for rs i tc
    by (intro keeps_attempt keeps_seq keeps_basic dbg_keeps_releases dbg_keeps_tc_dtor t)
  show "dbg_keeps (mapped_ok M B I) (dbg_main_release D E :: (unit res, ('c, 'e) dbg) go)"
    using h [unfolded keeps_def, rule_format] by (simp add: dbg_main_release_def keeps_def Let_def)
qed

lemma dbg_keeps_calls:
  "dbg_keeps (mapped_ok M B I) (dbg_AddControl E cb data)"
  "dbg_keeps (mapped_ok M B I) (upd_runner i f)"
  "dbg_keeps (mapped_ok M B I) (dbg_CallTaskOf X D E cb i addr)"
proof -
  show c: "dbg_keeps (mapped_ok M B I) (dbg_AddControl E cb data)" for cb data
    unfolding dbg_AddControl_def by (intro dbg_keeps_parts keeps_addControl)
  show u: "dbg_keeps (mapped_ok M B I) (upd_runner i f)" for i f
    unfolding upd_runner_def by (rule dbg_keeps_tasks) (simp add: tk_emu_simps)
  have "dbg_keeps (mapped_ok M B I) (seq (upd_runner i f) (\<lambda>_. ret (Inr c)))" for f and c :: nat
    by (intro keeps_seq keeps_basic u)
  then have "dbg_keeps (mapped_ok M B I) (\<lambda>d. seq (upd_runner i (f d)) (\<lambda>_. ret (Inr c)) d)" for f and c :: nat
    by (auto simp: keeps_def)
  then show "dbg_keeps (mapped_ok M B I) (dbg_CallTaskOf X D E cb i addr)"
    unfolding dbg_CallTaskOf_def dbg_TaskControl_def by (intro keeps_attempt keeps_seq keeps_basic u c)
qed

lemma dbg_do_keeps: "dbg_keeps (mapped_ok M B I) (dbg_do X D E op)"
proof -
  note k = keeps_quietly dbg_keeps_parts
  note t = keeps_quietly dbg_keeps_tasks
  show ?thesis
  proof (cases op)
    case (OMap a n p) then show ?thesis by (simp add: dbg_MemMap_def k keeps_map)
  next case (OUnmap a n) then show ?thesis by (simp add: dbg_MemUnmap_def k keeps_unmap)
  next case (OProtect a n p) then show ?thesis by (simp add: dbg_MemProtect_def k keeps_mem)
  next case (OMapAlloc n p) then show ?thesis by (simp add: dbg_MapAlloc_def k keeps_mem)
  next case (OMapFree a n) then show ?thesis by (simp add: dbg_MapFree_def k keeps_mem)
  next case (OAlloc n) then show ?thesis by (simp add: dbg_MemAlloc_def k keeps_mem)
  next case (OFree a) then show ?thesis by (simp add: dbg_MemFree_def k keeps_free)
  next case (OImport v) then show ?thesis by (simp add: dbg_MemImport_def k keeps_memImport)
  next case (OWrite a v) then show ?thesis by (simp add: dbg_MemWrite_def k keeps_memWrite)
  next case (OExtract a v) then show ?thesis by (simp add: dbg_MemExtract_def k keeps_memExtract)
  next case (OBind cb n) then show ?thesis by (simp add: dbg_MemBind_def k keeps_binds)
  next case (OUnbind a) then show ?thesis by (simp add: dbg_MemUnbind_def k keeps_binds)
  next case (OHook ty cb x b en) then show ?thesis by (simp add: dbg_AddHook_def k keeps_addHook)
  next case (OHookClose i) then show ?thesis by (simp add: dbg_hook_Close_def k keeps_hook_Close)
  next case (OControl cb x) then show ?thesis by (simp add: keeps_quietly dbg_keeps_calls)
  next case (OControlClose c) then show ?thesis by (simp add: dbg_ctrl_Close_def k keeps_ctrl_Close)
  next
    case OMain
    have "dbg_keeps (mapped_ok M B I) (on_tasks (getMainTask (ctx_at X) (DSP D) i))" for i
      by (rule dbg_keeps_tasks) (simp add: tk_emu_simps)
    then have "dbg_keeps (mapped_ok M B I) (dbg_GetMainTask X D)"
      by (simp add: dbg_GetMainTask_def keeps_def)
    with OMain show ?thesis by (simp add: keeps_quietly)
  next
    case OTask then show ?thesis by (simp add: dbg_CreateTask_def t createTask_mapped)
  next
    case (OFork i) then show ?thesis by (simp add: t tk_emu_simps)
  next case (OCall cb i a) then show ?thesis by (simp add: keeps_quietly dbg_keeps_calls)
  next case (OTaskClose i) then show ?thesis by (simp add: keeps_quietly dbg_keeps_closes)
  next case OMainClose then show ?thesis by (simp add: keeps_quietly dbg_keeps_closes)
  next case (OLoad m) then show ?thesis by (simp, intro dbg_keeps_state) simp
  next case (OUnload m) then show ?thesis by (simp, intro dbg_keeps_state) simp
  next case (OFiles g) then show ?thesis by (simp, intro dbg_keeps_state) simp
  qed
qed

lemma dbg_run_mapped:
  "mapped_ok M B I (tk_emu (d_tasks d)) \<Longrightarrow> mapped_ok M B I (tk_emu (d_tasks (dbg_run X D E ops d)))"
  unfolding dbg_run_def
proof (induction ops arbitrary: d)
  case (Cons op ops)
  then show ?case using dbg_do_keeps [of X D op] by (simp add: keeps_def)
qed simp

lemma quiet_root: "root_hook E t (h, e) = (h', e') \<Longrightarrow> quiet M B I e e'"
  using law_hook [of e t 1 0] by (auto simp: root_hook_def split: prod.splits sum.splits)

lemma quiet_hook_ctor: "hook_ctor E h e = (h', e') \<Longrightarrow> quiet M B I e e'"
proof -
  obtain h1 e1 h2 e2 where r: "root_hook E HOOK_TYPE_INTR (h, e) = (h1, e1)"
    "root_hook E HOOK_TYPE_INSN_INVALID (h1, e1) = (h2, e2)" by (meson surj_pair)
  then show "hook_ctor E h e = (h', e') \<Longrightarrow> quiet M B I e e'"
    by (auto simp: hook_ctor_def intro: quiet_trans [OF quiet_trans] dest!: quiet_root)
qed

lemma dbg_start_keeps: "dbg_keeps (mapped_ok M B I) (dbg_start X D E cb)"
proof -
  have n: "dbg_keeps (mapped_ok M B I) (on_tasks (newMain (ctx_at X) (init_stack D E)))"
    by (rule dbg_keeps_tasks) (rule newMain_mapped)
  have m: "dbg_keeps (mapped_ok M B I) (\<lambda>d. Ret () (d\<lparr>d_main := i\<rparr>))" for i
    by (rule dbg_keeps_state) simp
  show ?thesis
    unfolding dbg_start_def
    by (auto intro!: keeps_seq keeps_basic n m dbg_keeps_calls split: sum.split)
qed

lemma dbg_Init_mapped:
  assumes "dbg_Init X D E cb b e0 = Ret u d" and "I e0" and "M e0 = {}"
  shows "mapped_ok M B I (tk_emu (d_tasks d))"
proof -
  obtain h e1 where h: "hook_ctor E hook_mgr0 e0 = (h, e1)" by fastforce
  let ?d = "\<lparr>d_tasks = tk_empty (mem_ctor, e1), d_main = 0, d_hooks = h, d_files = fm_ctor, d_loaded = [],
             d_host = b\<rparr>"
  have "mapped_ok M B I (tk_emu (d_tasks ?d))"
    using quiet_hook_ctor [OF h] assms(2,3)
    by (simp add: tk_empty_def mapped_ok_def quiet_def agree_def mem_ctor_def table_ok_empty covered_def)
  moreover have "dbg_start X D E cb ?d = Ret u d" using assms(1) h by (simp add: dbg_Init_def)
  ultimately show ?thesis using keepsD(1) [OF dbg_start_keeps] by blast
qed

end

section \<open>The manager stays open\<close>

text \<open>No call but the destructor closes the task manager.\<close>

abbreviation open_keeps :: "('a, ('c, 'e) dbg) go \<Rightarrow> bool" where
  "open_keeps \<equiv> keeps (\<lambda>d. \<not> tk_closed (d_tasks d))"

lemma open_keeps_parts:
  "open_keeps (on_mem m)" "open_keeps (on_hooks k)" "open_keeps (on_values v)"
  by (auto simp: keeps_def outcome_state_def on_mem_def on_hooks_def on_values_def split: outcome.splits prod.splits)

lemma open_keeps_tasks: "(\<And>m. tk_closed (snd (f m)) = tk_closed m) \<Longrightarrow> open_keeps (on_tasks f)"
  by (simp add: keeps_def outcome_state_def on_tasks_def split_def)

named_theorems tk_closed_simps \<open>operations of the task manager that do not close it\<close>

lemma tk_closed_basic [tk_closed_simps]:
  "tk_closed (put_runner i r m) = tk_closed m" "tk_closed (snd (taskID m)) = tk_closed m"
  "tk_closed (snd (add_runner r m)) = tk_closed m" "tk_closed (tc_dtor tc m) = tk_closed m"
  "tk_closed (freeTaskContext tc m) = tk_closed m" "tk_closed (snd (allocTaskContext m)) = tk_closed m"
  by (simp_all add: put_runner_def taskID_def add_runner_def tc_dtor_def freeTaskContext_def
      allocTaskContext_def Let_def split: prod.splits)

lemma tk_closed_tasks [tk_closed_simps]:
  "tk_closed (snd (start_task X sp tc m)) = tk_closed m" "tk_closed (runner_Close i m) = tk_closed m"
  "tk_closed (main_Close i m) = tk_closed m" "tk_closed (main_release i m) = tk_closed m"
  "tk_closed (snd (runner_Fork X i m)) = tk_closed m" "tk_closed (snd (getMainTask X sp i m)) = tk_closed m"
  "tk_closed (snd (newTaskContext X is m)) = tk_closed m"
  by (auto simp: start_task_def runner_Close_def main_Close_def main_release_def runner_Fork_def
      getMainTask_def newTaskContext_def tk_closed_basic Let_def taskID_def add_runner_def split: prod.splits sum.splits)

lemma tk_closed_makes [tk_closed_simps]:
  "tk_closed (snd (newMain X is m)) = tk_closed m" "tk_closed (snd (createTask X sp is m)) = tk_closed m"
proof -
  obtain r m1 where n: "newTaskContext X is m = (r, m1)" by fastforce
  with tk_closed_tasks(7) [of X "is" m] have "tk_closed m1 = tk_closed m" by simp
  with n show "tk_closed (snd (newMain X is m)) = tk_closed m"
    by (auto simp: newMain_def Let_def tk_closed_simps split: prod.splits sum.splits option.splits)
      (metis snd_conv tk_closed_basic(2))+
  obtain q m2 where a: "allocTaskContext m = (q, m2)" by fastforce
  with tk_closed_basic(6) [of m] have m2: "tk_closed m2 = tk_closed m" by simp
  obtain p m3 where b: "newTaskContext X is m2 = (p, m3)" by fastforce
  with tk_closed_tasks(7) [of X "is" m2] m2 have "tk_closed m3 = tk_closed m" by simp
  with a b m2 show "tk_closed (snd (createTask X sp is m)) = tk_closed m"
    by (auto simp: createTask_def newTask_def tk_closed_simps split: prod.splits sum.splits option.splits)
qed

lemma open_keeps_runner: "open_keeps (upd_runner i f)"
  unfolding upd_runner_def by (rule open_keeps_tasks) (simp add: tk_closed_simps)

lemma open_keeps_release: "open_keeps (each (run_task_release E) rs)" "open_keeps (run_tc_dtor D E tc)"
proof -
  have "open_keeps (run_task_release E r)" for r
    unfolding run_task_release_def dbg_ctrl_Close_def
    by (auto intro!: keeps_seq keeps_basic open_keeps_parts split: task_release.split)
  then show "open_keeps (each (run_task_release E) rs)" by (rule keeps_each)
  show "open_keeps (run_tc_dtor D E tc)"
    unfolding run_tc_dtor_def by (intro keeps_if keeps_seq keeps_basic open_keeps_parts)
qed

lemma open_keeps_closes:
  "open_keeps (dbg_task_Close D E i :: (unit res, ('c, 'e) dbg) go)"
  "open_keeps (dbg_main_Close E :: (unit res, ('c, 'e) dbg) go)"
proof -
  have t: "open_keeps (on_tasks (\<lambda>m. ((), runner_Close i m)))" "open_keeps (on_tasks (\<lambda>m. ((), main_Close i m)))" for i
    by (rule open_keeps_tasks, simp add: tk_closed_simps)+
  have h: "open_keeps ((attempt (each (run_task_release E) rs) (\<lambda>_.
      seq (on_tasks (\<lambda>m. ((), runner_Close i m))) (\<lambda>_. if c then run_tc_dtor D E tc else ret (Inr ())))) :: (unit res, ('c, 'e) dbg) go)" for rs c tc
    by (intro keeps_attempt keeps_seq keeps_if keeps_basic open_keeps_release t)
  show "open_keeps (dbg_task_Close D E i :: (unit res, ('c, 'e) dbg) go)"
    using h [unfolded keeps_def, rule_format] by (simp add: dbg_task_Close_def keeps_def Let_def split del: if_split)
  have h: "open_keeps ((attempt (each (run_task_release E) rs) (\<lambda>_.
      seq (on_tasks (\<lambda>m. ((), main_Close i m))) (\<lambda>_. ret (Inr ())))) :: (unit res, ('c, 'e) dbg) go)" for rs i
    by (intro keeps_attempt keeps_seq keeps_basic open_keeps_release t)
  show "open_keeps (dbg_main_Close E :: (unit res, ('c, 'e) dbg) go)"
    using h [unfolded keeps_def, rule_format] by (simp add: dbg_main_Close_def keeps_def)
qed

lemma open_keeps_call: "open_keeps (dbg_CallTaskOf X D E cb i addr)"
proof -
  have "open_keeps (seq (upd_runner i f) (\<lambda>_. ret (Inr c)))" for f and c :: nat
    by (intro keeps_seq keeps_basic open_keeps_runner)
  then have "open_keeps (\<lambda>d. seq (upd_runner i (f d)) (\<lambda>_. ret (Inr c)) d)" for f and c :: nat
    by (auto simp: keeps_def)
  then show ?thesis
    unfolding dbg_CallTaskOf_def dbg_TaskControl_def dbg_AddControl_def
    by (intro keeps_attempt keeps_seq keeps_basic open_keeps_parts open_keeps_runner)
qed

lemmas dbg_mem_defs = dbg_MemMap_def dbg_MemUnmap_def dbg_MemProtect_def dbg_MapAlloc_def dbg_MapFree_def
  dbg_MemAlloc_def dbg_MemFree_def dbg_MemImport_def dbg_MemWrite_def dbg_MemExtract_def dbg_MemBind_def
  dbg_MemUnbind_def

lemma dbg_do_open: "open_keeps (dbg_do X D E op)"
proof (cases op)
  case OMain
  have "open_keeps (on_tasks (getMainTask (ctx_at X) (DSP D) i))" for i
    by (rule open_keeps_tasks) (simp add: tk_closed_simps)
  then have "open_keeps (dbg_GetMainTask X D)" by (simp add: dbg_GetMainTask_def keeps_def)
  with OMain show ?thesis by (simp add: keeps_quietly)
next
  case (OLoad m) then show ?thesis by (simp add: keeps_def outcome_state_def)
next
  case (OUnload m) then show ?thesis by (simp add: keeps_def outcome_state_def)
next
  case (OFiles g) then show ?thesis by (simp add: keeps_def outcome_state_def)
qed (simp_all add: dbg_mem_defs dbg_AddHook_def dbg_hook_Close_def dbg_AddControl_def dbg_ctrl_Close_def
      dbg_CreateTask_def keeps_quietly open_keeps_parts open_keeps_closes open_keeps_call open_keeps_tasks
      tk_closed_simps)

lemma dbg_run_open: "\<not> tk_closed (d_tasks d) \<Longrightarrow> \<not> tk_closed (d_tasks (dbg_run X D E ops d))"
  unfolding dbg_run_def
proof (induction ops arbitrary: d)
  case (Cons op ops)
  then show ?case using dbg_do_open [of X D E op] by (simp add: keeps_def)
qed simp

lemma dbg_Init_open:
  assumes "dbg_Init X D E cb b e0 = Ret u d"
  shows "\<not> tk_closed (d_tasks d)"
proof -
  obtain h e1 where h: "hook_ctor E hook_mgr0 e0 = (h, e1)" by fastforce
  have n: "open_keeps (on_tasks (newMain (ctx_at X) (init_stack D E)))"
    by (rule open_keeps_tasks) (simp add: tk_closed_simps)
  have m: "open_keeps (\<lambda>d. Ret () (d\<lparr>d_main := i\<rparr>))" for i
    by (simp add: keeps_def outcome_state_def)
  have "open_keeps (dbg_start X D E cb)"
    unfolding dbg_start_def dbg_AddControl_def
    by (auto intro!: keeps_seq keeps_basic n m open_keeps_parts open_keeps_runner split: sum.split)
  then show ?thesis
    using assms h by (auto simp: dbg_Init_def tk_empty_def dest!: keepsD(1))
qed

section \<open>Closing\<close>

text \<open>A computation that always returns.\<close>

definition returns :: "('a, 's) go \<Rightarrow> bool" where
  "returns m \<longleftrightarrow> (\<forall>s. \<exists>a t. m s = Ret a t)"

named_theorems returns_intros \<open>a computation returns when its pieces do\<close>

lemma returns_basic [returns_intros]: "returns (ret a)" "returns (\<lambda>s. Ret (f s) (g s))"
  by (simp_all add: returns_def ret_def)

lemma returns_seq [returns_intros]: "returns m \<Longrightarrow> (\<And>a. returns (k a)) \<Longrightarrow> returns (seq m k)"
  unfolding returns_def seq_def by (metis outcome.simps(5))

lemma returns_attempt [returns_intros]: "returns m \<Longrightarrow> (\<And>a. returns (k a)) \<Longrightarrow> returns (attempt m k)"
  unfolding attempt_def by (auto intro!: returns_seq returns_basic split: sum.split)

lemma returns_each [returns_intros]: "(\<And>x. returns (f x)) \<Longrightarrow> returns (each f xs)"
  by (induction xs) (simp_all add: returns_basic returns_attempt)

lemma returns_parts [returns_intros]:
  "returns (plainly f)" "returns (on_tasks g)" "returns m \<Longrightarrow> returns (on_mem m)"
  "returns k \<Longrightarrow> returns (on_hooks k)"
proof -
  show "returns (plainly f)" by (auto simp: returns_def plainly_def split: prod.splits)
  show "returns (on_tasks g)" by (auto simp: returns_def on_tasks_def split: prod.splits)
  show "returns m \<Longrightarrow> returns (on_mem m)"
    unfolding returns_def on_mem_def by (metis (mono_tags) outcome.simps(5))
  show "returns k \<Longrightarrow> returns (on_hooks k)"
    unfolding returns_def on_hooks_def by (metis (mono_tags, lifting) outcome.simps(5) case_prod_conv surj_pair)
qed

lemma returns_if [returns_intros]: "returns m \<Longrightarrow> returns k \<Longrightarrow> returns (if c then m else k)"
  by simp

lemma returns_releases: "returns (each (run_task_release E) rs)"
proof -
  have "returns (\<lambda>(h, s, e). case ctrl_Close E c (h, e) of (h', e') \<Rightarrow> Ret () (h', s, e'))" for c
    by (auto simp: returns_def split: prod.splits)
  then have "returns (run_task_release E r)" for r
    unfolding run_task_release_def dbg_ctrl_Close_def
    by (auto intro!: returns_seq returns_basic returns_parts split: task_release.split)
  then show ?thesis by (rule returns_each)
qed

lemma returns_tc_dtor: "returns (run_tc_dtor D E tc)"
  unfolding run_tc_dtor_def by (intro returns_intros)

text \<open>The loaded modules and the files are not touched by the other managers.\<close>

abbreviation loaded_keeps :: "nat list \<times> file_mgr \<Rightarrow> ('a, ('c, 'e) dbg) go \<Rightarrow> bool" where
  "loaded_keeps L \<equiv> keeps (\<lambda>d. (d_loaded d, d_files d) = L)"

lemma loaded_keeps_parts:
  "loaded_keeps L (on_mem m)" "loaded_keeps L (on_hooks k)" "loaded_keeps L (on_tasks f)"
  by (auto simp: keeps_def outcome_state_def on_mem_def on_hooks_def on_tasks_def split: outcome.splits prod.splits)

lemma loaded_keeps_releases: "loaded_keeps L (each (run_task_release E) rs)" "loaded_keeps L (run_tc_dtor D E tc)"
proof -
  have "loaded_keeps L (run_task_release E r)" for r
    unfolding run_task_release_def dbg_ctrl_Close_def
    by (auto intro!: keeps_seq keeps_basic loaded_keeps_parts split: task_release.split)
  then show "loaded_keeps L (each (run_task_release E) rs)" by (rule keeps_each)
  show "loaded_keeps L (run_tc_dtor D E tc)"
    unfolding run_tc_dtor_def by (intro keeps_if keeps_seq keeps_basic loaded_keeps_parts)
qed

lemma main_release_both:
  "returns (dbg_main_release D E :: (unit res, ('c, 'e) dbg) go)"
  "loaded_keeps L (dbg_main_release D E :: (unit res, ('c, 'e) dbg) go)"
proof -
  have h: "returns ((attempt (each (run_task_release E) rs) (\<lambda>_.
      seq (on_tasks (\<lambda>m. ((), main_release i m))) (\<lambda>_. run_tc_dtor D E tc))) :: (unit res, ('c, 'e) dbg) go)" for rs i tc
    by (intro returns_attempt returns_seq returns_parts returns_releases returns_tc_dtor)
  show "returns (dbg_main_release D E :: (unit res, ('c, 'e) dbg) go)"
    using h [unfolded returns_def, rule_format] by (simp add: dbg_main_release_def returns_def Let_def)
  have h: "loaded_keeps L ((attempt (each (run_task_release E) rs) (\<lambda>_.
      seq (on_tasks (\<lambda>m. ((), main_release i m))) (\<lambda>_. run_tc_dtor D E tc))) :: (unit res, ('c, 'e) dbg) go)" for rs i tc
    by (intro keeps_attempt keeps_seq loaded_keeps_parts loaded_keeps_releases)
  show "loaded_keeps L (dbg_main_release D E :: (unit res, ('c, 'e) dbg) go)"
    using h [unfolded keeps_def, rule_format] by (simp add: dbg_main_release_def keeps_def Let_def)
qed

lemma task_dtor_both: "\<not> tk_closed (d_tasks d) \<Longrightarrow> \<exists>r d'. task_dtor D E True d = Ret r d'"
  "loaded_keeps L (task_dtor D E True :: (unit res, ('c, 'e) dbg) go)"
proof -
  have "returns (\<lambda>d. (case tk_pool (d_tasks d) of (cur, cs) \<Rightarrow>
      each (run_tc_dtor D E) ((case cur of None \<Rightarrow> [] | Some c \<Rightarrow> [c]) @ cs)) d)"
    using returns_each [of "run_tc_dtor D E", OF returns_tc_dtor] by (auto simp: returns_def split: prod.splits)
  then have "returns (seq (on_tasks (\<lambda>m. ((), m\<lparr>tk_closed := True\<rparr>))) (\<lambda>_.
       attempt (dbg_main_release D E) (\<lambda>_. \<lambda>d.
         (case tk_pool (d_tasks d) of (cur, cs) \<Rightarrow>
            each (run_tc_dtor D E) ((case cur of None \<Rightarrow> [] | Some c \<Rightarrow> [c]) @ cs)) d)))"
    by (intro returns_seq returns_parts returns_attempt main_release_both)
  then show "\<not> tk_closed (d_tasks d) \<Longrightarrow> \<exists>r d'. task_dtor D E True d = Ret r d'"
    unfolding task_dtor_def returns_def by (simp only: if_False not_False_eq_True not_True_eq_False) blast
  have "loaded_keeps L (each (run_tc_dtor D E) tcs :: (unit res, ('c, 'e) dbg) go)" for tcs
    by (rule keeps_each) (rule loaded_keeps_releases)
  then have "loaded_keeps L (\<lambda>d :: ('c, 'e) dbg. (case tk_pool (d_tasks d) of (cur, cs) \<Rightarrow>
      each (run_tc_dtor D E) ((case cur of None \<Rightarrow> [] | Some c \<Rightarrow> [c]) @ cs)) d)"
    by (auto simp: keeps_def split: prod.splits)
  then show "loaded_keeps L (task_dtor D E True :: (unit res, ('c, 'e) dbg) go)"
    unfolding task_dtor_def not_True_eq_False if_False
    by (intro keeps_unless keeps_seq loaded_keeps_parts keeps_attempt main_release_both)
qed

text \<open>An emulator that does not stop keeps the destructor waiting.\<close>

lemma Close_waits: "\<not> tk_closed (d_tasks d) \<Longrightarrow> \<exists>d'. dbg_Close D E False d = Panic NoReturn d'"
  by (simp add: dbg_Close_def task_dtor_def seq_def on_tasks_def crash_def)

context framed_emu
begin

lemma task_dtor_keeps: "dbg_keeps (mapped_ok M B I) (task_dtor D E True :: (unit res, ('c, 'e) dbg) go)"
proof -
  have c: "dbg_keeps (mapped_ok M B I) (on_tasks (\<lambda>m. ((), m\<lparr>tk_closed := True\<rparr>)) :: (unit, ('c, 'e) dbg) go)"
    by (rule dbg_keeps_tasks) simp
  have "dbg_keeps (mapped_ok M B I) (each (run_tc_dtor D E) tcs :: (unit res, ('c, 'e) dbg) go)" for tcs
    by (rule keeps_each) (rule dbg_keeps_tc_dtor)
  then have "dbg_keeps (mapped_ok M B I) (\<lambda>d :: ('c, 'e) dbg. (case tk_pool (d_tasks d) of (cur, cs) \<Rightarrow>
      each (run_tc_dtor D E) ((case cur of None \<Rightarrow> [] | Some c \<Rightarrow> [c]) @ cs)) d)"
    by (auto simp: keeps_def split: prod.splits)
  then show ?thesis
    unfolding task_dtor_def not_True_eq_False if_False
    by (intro keeps_unless keeps_seq keeps_attempt dbg_keeps_closes c)
qed

lemma Close_empties:
  assumes "mapped_ok M B I (tk_emu (d_tasks d))" and "\<not> tk_closed (d_tasks d)"
  shows "\<exists>d'. dbg_Close D E True d = Ret (d_loaded d) d' \<and>
    (B (snd (tk_emu (d_tasks d'))) \<or> M (snd (tk_emu (d_tasks d'))) = {}) \<and>
    maps (fst (tk_emu (d_tasks d'))) = [] \<and> binds (fst (tk_emu (d_tasks d'))) = [] \<and>
    d_files d' = (d_files d)\<lparr>fileMap := [], handlers := []\<rparr>"
proof -
  obtain r d1 where t: "task_dtor D E True d = Ret r d1" using task_dtor_both(1) [OF assms(2)] by blast
  have ok: "mapped_ok M B I (tk_emu (d_tasks d1))" by (rule keepsD(1) [OF task_dtor_keeps t assms(1)])
  have ld: "(d_loaded d1, d_files d1) = (d_loaded d, d_files d)"
    using keepsD(1) [OF task_dtor_both(2) t refl] .
  have mods: "mod_dtor (\<lambda>m closed. closed @ [m]) xs acc = acc @ xs" for xs acc :: "nat list"
    by (induction xs arbitrary: acc) (simp_all add: mod_dtor_def)
  obtain s e where w: "tk_emu (d_tasks d1) = (s, e)" by fastforce
  obtain h2 s2 e2 where hd: "hook_dtor E (d_hooks d1) s e = (h2, s2, e2)" by (metis prod_cases3)
  have ok2: "mapped_ok M B I (s2, e2)" using hook_dtor_mapped [of s e "d_hooks d1"] ok w hd by simp
  obtain h3 s3 e3 where md: "mem_dtor E h2 s2 e2 = (h3, s3, e3)" by (metis prod_cases3)
  have "(B e3 \<or> M e3 = {}) \<and> maps s3 = [] \<and> binds s3 = []" using mem_dtor_empties [OF ok2, of h2] md by simp
  with t ld w hd md show ?thesis
    by (simp add: dbg_Close_def seq_def mods on_hooks_def ret_def fm_dtor_def)
qed

end

text \<open>C2: Whatever is done with a debugger between its construction and its destruction - memory mapped,
  allocated, bound and written, hooks and controls added and closed, tasks made, forked, called and
  closed or left open, files opened and duplicated, calls that fail or panic in between - \<^verbatim>\<open>Close\<close> returns
  if the emulator stops when it is told to, and waits for it for ever otherwise. When it returns, it has
  closed the loaded modules in the order they were loaded in; nothing is mapped in the emulator, unless
  it has granted a range that reaches the end of the address space, and the manager has no region and
  no binding. The table of descriptors and the list of handlers are dropped; no open file is closed,
  and the counts of the shared ones stay. Hooks of the user in the emulator are not closed either.\<close>

theorem close_leaves_nothing:
  fixes ops :: "dbg_op list"
  assumes "framed_emu E M B I" and "I e0" and "M e0 = {}" and "dbg_Init X D E cb b e0 = Ret u d"
  defines "d1 \<equiv> dbg_run X D E ops d"
  shows "if stops then
      \<exists>d'. dbg_Close D E stops d1 = Ret (d_loaded d1) d' \<and>
        (B (snd (tk_emu (d_tasks d'))) \<or> M (snd (tk_emu (d_tasks d'))) = {}) \<and>
        maps (fst (tk_emu (d_tasks d'))) = [] \<and> binds (fst (tk_emu (d_tasks d'))) = [] \<and>
        d_files d' = (d_files d1)\<lparr>fileMap := [], handlers := []\<rparr>
    else \<exists>d'. dbg_Close D E stops d1 = Panic NoReturn d'"
proof -
  have o: "\<not> tk_closed (d_tasks d1)"
    unfolding d1_def by (rule dbg_run_open [OF dbg_Init_open [OF assms(4)]])
  have "mapped_ok M B I (tk_emu (d_tasks d1))"
    unfolding d1_def
    by (intro framed_emu.dbg_run_mapped [OF assms(1)] framed_emu.dbg_Init_mapped [OF assms(1) assms(4) assms(2,3)])
  from framed_emu.Close_empties [OF assms(1) this o] Close_waits [OF o] show ?thesis by simp
qed

section \<open>A debugger on the sample emulator\<close>

interpretation sample_frame: framed_emu "sample_emu ar" "\<lambda>e. covered (s_tab e)" "\<lambda>e. False" "\<lambda>e. table_ok (s_tab e)"
  using sample_maps [of ar] sample_closes [of ar] mapStore_correct mapDelete_correct clear_tab_covered
  by unfold_locales
    (auto simp: sample_emu_def semu_map_def semu_unmap_def quiet_def)

text \<open>A context is a copy of the registers.\<close>

definition semu_ctx :: "((reg, u64) gomap, semu) ctx_ops" where
  "semu_ctx = \<lparr>XAlloc = (\<lambda>e. Inr []), XSave = (\<lambda>c e. (None, s_regs e)),
     XRestore = (\<lambda>c e. (None, e\<lparr>s_regs := c\<rparr>)), XRegRead = (\<lambda>g c. Inr (gm_get0 c g)),
     XRegWrite = (\<lambda>g x c. (None, gm_set g x c)), XClone = Inr\<rparr>"

text \<open>The first control is added when a page can be mapped for it.\<close>

lemma first_control:
  assumes E: "ctrl_emu E" "ctrl_room E s" and none: "ctrlAddrs h = []"
    and page: "mapAlloc E 0x1000 MEM_PROT_EXEC s e = (Inr r, s0, e0)"
  shows "\<exists>h' s' e'. addControl E cb data h s e = Some (Ret (Inr (length (ctrls h))) (h', s', e'))"
proof -
  have "\<nexists>err st. allocCtrlAddrs E h s e = Ret (Some err) st"
    using page by (auto simp: allocCtrlAddrs_def Let_def split: prod.splits if_splits)
  with allocCtrlAddrs_cases [OF E, of h e]
  obtain rs q hi s' e' where al: "allocCtrlAddrs E h s e = Ret None
     (h\<lparr>hm_releases := rs, ctrlAddrs := ctrlAddrs h @ [\<lparr>ch_cap = length q, ch_buf = q\<rparr>],
        ctrlRange := ctrlRange h @ [(mapAddr s, hi)]\<rparr>, s', e')" and q: "1 < length q"
    by blast
  then obtain a q' where q': "q = a # q'" by (cases q) auto
  let ?h = "h\<lparr>hm_releases := rs, ctrlAddrs := ctrlAddrs h @ [\<lparr>ch_cap = length q, ch_buf = q\<rparr>],
        ctrlRange := ctrlRange h @ [(mapAddr s, hi)]\<rparr>"
  let ?h1 = "?h\<lparr>ctrlAddrs := [\<lparr>ch_cap = length q, ch_buf = q'\<rparr>]\<rparr>"
  have "ctrlAddrAlloc E ?h s' e' = Some (Ret (Inr a) (?h1, s', e'))"
    by (subst ctrlAddrAlloc.simps) (simp add: q' none)
  then have "ctrlAddrAlloc E h s e = Some (Ret (Inr a) (?h1, s', e'))"
    using al by (subst ctrlAddrAlloc.simps) (simp add: none)
  from addControl_eq [OF this, of cb data] show ?thesis by simp
qed

lemma sample_start:
  "\<exists>d. dbg_Init semu_ctx Arm64Dbg E0 9 host0 semu0 = Ret () d \<and> d_loaded d = []"
proof -
  obtain h e where h: "hook_ctor E0 hook_mgr0 semu0 = (h, e)" and f: "ctrlAddrs h = []" "s_tab e = []"
    using hk0_fields by (auto simp: hk0_def prod_eq_iff)
  let ?m = "newMain (ctx_at semu_ctx) (init_stack Arm64Dbg E0) (tk_empty (mem_ctor, e))"
  obtain m s1 e1 where m: "?m = (Inr 0, m)" "tk_emu m = (s1, e1)" "mapAddr s1 = 0x414000"
    "s_tab e1 = [(0x400000, 0x14000)]"
    using f(2)
    by (simp add: newMain_def newTaskContext_def ctx_at_def semu_ctx_def tk_empty_def init_stack_def InitStack_def
        Arm64Dbg_def ARM64_STACK_SIZE_def ARM_STACK_SIZE_def mgr_simps emu_simps E0_def taskID_def add_runner_def
        Align_def)
  have page: "\<exists>r s0 e0. mapAlloc E0 0x1000 MEM_PROT_EXEC s1 e1 = (Inr r, s0, e0)"
    using m(3,4) by (simp add: mapAlloc_def emu_simps E0_def Align_def)
  have room: "ctrl_room E0 s1" using m(3) by (simp add: ctrl_room_def room_def)
  obtain r s0 e0 where "mapAlloc E0 0x1000 MEM_PROT_EXEC s1 e1 = (Inr r, s0, e0)" using page by blast
  from first_control [OF E0_ctrl room f(1) this, of 9 0]
  obtain h' s' e' where c: "addControl E0 9 0 h s1 e1 = Some (Ret (Inr (length (ctrls h))) (h', s', e'))"
    by blast
  show ?thesis
    using h m(1,2) c
    by (simp add: dbg_Init_def dbg_start_def seq_def on_tasks_def dbg_AddControl_def on_hooks_def maybe_def
        upd_runner_def)
qed

lemma close_leaves_nothing_witness:
  "\<exists>d d'. dbg_Init semu_ctx Arm64Dbg E0 9 host0 semu0 = Ret () d \<and>
     dbg_Close Arm64Dbg E0 True (dbg_run semu_ctx Arm64Dbg E0 [OTask, OLoad 3] d) = Ret [3] d' \<and>
     covered (s_tab (snd (tk_emu (d_tasks d')))) = {}"
proof -
  obtain d where d: "dbg_Init semu_ctx Arm64Dbg E0 9 host0 semu0 = Ret () d" "d_loaded d = []"
    using sample_start by blast
  have "d_loaded (dbg_run semu_ctx Arm64Dbg E0 [OTask, OLoad 3] d) = [3]"
    using d(2) by (simp add: dbg_run_def quietly_def dbg_CreateTask_def on_tasks_def seq_def ret_def
        outcome_state_def mod_Load_def split: prod.splits)
  with close_leaves_nothing [OF sample_frame.framed_emu_axioms [of ARCH_ARM64, folded E0_def] _ _ d(1),
      of True "[OTask, OLoad 3]"] d
  show ?thesis by (auto simp: semu0_def covered_def table_ok_empty)
qed

section \<open>Calling a function\<close>

text \<open>Registers hold what was written to them.\<close>

definition regs_hold :: "('c, 'e) ctx_ops \<Rightarrow> bool" where
  "regs_hold X \<longleftrightarrow> (\<forall>g g' x c. fst (XRegWrite X g x c) = None \<and>
     XRegRead X g' (snd (XRegWrite X g x c)) = (if g' = g then Inr x else XRegRead X g' c))"

lemma called_runner:
  assumes "regs_hold X" and "DPC D \<noteq> DLR D"
    and "r' = appendRelease (CloseCtrl c) (TaskControl (ctx_at X) D (c, a) addr r)"
  shows "runner_RegRead X (DPC D) r' = Inr addr" and "runner_RegRead X (DLR D) r' = Inr a"
    and "rn_releases r' = rn_releases r @ [CloseCtrl c]"
    and "rn_status r' = rn_status r" and "rn_cause r' = rn_cause r"
  using assms
  by (simp_all add: TaskControl_def appendRelease_def runner_RegWrite_def
      runner_RegRead_def ctx_at_def regs_hold_def split_def)

text \<open>A task that was pending and comes back to its control has ended without an error.\<close>

lemma SyncRun_returned:
  assumes "rn_status r = TaskStatus_Pending" and "rn_cause r = None"
  shows "fst (runner_SyncRun (\<lambda>r. outcome_state (control_returned True r)) r) = Inr None"
  using assms by (simp add: runner_SyncRun_def runner_Run_def control_returned_def outcome_state_def CancelCause_def
      cancel_ctx_def updateStatus_def runner_Err_def)

lemma arch_regs: "DPC ArmDbg \<noteq> DLR ArmDbg" "DPC Arm64Dbg \<noteq> DLR Arm64Dbg"
  by (simp_all add: ArmDbg_def Arm64Dbg_def ARM_REG_PC ARM_REG_LR ARM64_REG_PC ARM64_REG_LR)

text \<open>What \<^verbatim>\<open>AddControl\<close> binds: the new interrupt hook carries the data it was given.\<close>

lemma addControl_data:
  assumes inv: "ctl_inv L h s" "ctrl_emu E" "ctrl_room E s"
    and add: "addControl E cb data h s e = Some (Ret (Inr c) (h', s', e'))"
  shows "ctl_inv (c # L) h' s'" and "c = length (ctrls h)" and "ct_callback (ctrls h' ! c) = cb"
    and "bound h' c (length (hooks h))" and "hk_data (hooks h' ! length (hooks h)) = data"
    and "\<forall>j \<in> set (intrHooks h'). user_cb (hk_callback (hooks h' ! j)) \<longrightarrow>
           j \<in> set (intrHooks h) \<and> hooks h' ! j = hooks h ! j"
proof -
  show inv': "ctl_inv (c # L) h' s'" and c: "c = length (ctrls h)"
    using inv_ctrl [OF inv, of cb data e] add by auto
  have core: "pool_core (live_slots h L) h s" using inv(1) by (simp add: ctl_inv_def pool_core_def)
  obtain r h1 s1 e1 where al: "ctrlAddrAlloc E h s e = Some (Ret r (h1, s1, e1))" "same_hooks h h1"
    using ctrlAddrAlloc_ok [OF core inv(2,3), of e] by blast
  have "\<exists>a. r = Inr a" using al(1) add by (cases r) (simp_all add: addControl_def)
  then obtain a where a: "r = Inr a" by blast
  note h1 = al(2) [unfolded same_hooks_def]
  let ?k = "\<lparr>hk_releases = [DelIntr (length (hooks h))], hk_typ = HOOK_TYPE_INTR, hk_callback = CtrlCb c, hk_data = data,
     hk_begin = snd a, hk_end = snd a + 1\<rparr>"
  have h': "hooks h' = hooks h @ [?k]" "intrHooks h' = intrHooks h @ [length (hooks h)]"
    "ctrls h' = ctrls h @ [\<lparr>ct_releases = [FreeCtrl a, CloseHook (length (hooks h))], ct_addr = a, ct_callback = cb\<rparr>]"
    using addControl_eq [OF al(1) [unfolded a], of cb data] add h1 c by auto
  show "ct_callback (ctrls h' ! c) = cb" "hk_data (hooks h' ! length (hooks h)) = data"
    using h' c by (simp_all add: nth_append)
  show "bound h' c (length (hooks h))"
    by (rule ctl_invD(10) [OF inv']) (simp_all add: h')
  show "\<forall>j \<in> set (intrHooks h'). user_cb (hk_callback (hooks h' ! j)) \<longrightarrow>
           j \<in> set (intrHooks h) \<and> hooks h' ! j = hooks h ! j"
    using ctl_invD(3) [OF inv(1)] by (auto simp: h' nth_append user_cb_def)
qed

text \<open>A control whose address no user hook can claim.\<close>

lemma control_alone:
  assumes "hk_reach E e0 (c # L, h, s, e)" and "ctrl_emu E" and "bound h c k"
    and "\<forall>j \<in> set (intrHooks h). user_cb (hk_callback (hooks h ! j)) \<longrightarrow> hk_end (hooks h ! j) < hk_begin (hooks h ! j)"
  shows "handleInterrupt run runc h intno (Inr (fst (ct_addr (ctrls h ! c)) + 4)) w =
      (None, runc (ct_callback (ctrls h ! c)) (hk_data (hooks h ! k)) w)"
proof -
  have "\<not> (hk_begin (hooks h ! j) \<le> a \<and> a < hk_end (hooks h ! j))"
    if "j \<in> set (intrHooks h)" "user_cb (hk_callback (hooks h ! j))" for j a
    using assms(4) that by (meson less_le_trans not_less_iff_gr_or_eq order.strict_trans1)
  then have u: "\<forall>j \<in> set (intrHooks h). user_cb (hk_callback (hooks h ! j)) \<longrightarrow>
      \<not> (hk_begin (hooks h ! j) \<le> snd (ct_addr (ctrls h ! c)) \<and>
         snd (ct_addr (ctrls h ! c)) < hk_end (hooks h ! j))" by blast
  have "slot_ok h s (ct_addr (ctrls h ! c))"
    using ctl_invD(7) [OF hk_reach_ctl [OF assms(1,2)]] by (simp add: live_slots_def)
  then have "snd (ct_addr (ctrls h ! c)) = fst (ct_addr (ctrls h ! c)) + 4" by (simp add: slot_ok_def)
  with control_runs [OF assms(1,2) _ u assms(3)] show ?thesis by simp
qed

text \<open>C3: When \<^verbatim>\<open>CallTaskOf\<close> succeeds, the task is set up to run the function and to come back: its program
  counter is the function, its link register a control made for this call, whose release is the last of
  the task's, so that it goes first when the task is closed. The interrupt at the instruction after
  that address runs the callback of the call with this task as its data and nothing else, whatever
  controls are open beside it; \<^verbatim>\<open>SyncRun\<close> of a new task that comes back there in its own context returns no
  error. The managers are again in a reachable state, so the next call finds what this one found.\<close>

theorem call_returns_to_task:
  assumes "hk_reach E e0 (L, d_hooks d, tk_emu (d_tasks d))" and "ctrl_emu E"
    and "ctrl_room E (fst (tk_emu (d_tasks d)))" and "i < length (tk_runners (d_tasks d))"
    and "regs_hold X" and "D = ArmDbg \<or> D = Arm64Dbg"
    and "\<forall>j \<in> set (intrHooks (d_hooks d)). user_cb (hk_callback (hooks (d_hooks d) ! j)) \<longrightarrow>
           hk_end (hooks (d_hooks d) ! j) < hk_begin (hooks (d_hooks d) ! j)"
    and "dbg_CallTaskOf X D E cb i addr d = Ret (Inr ()) d'"
  shows "\<exists>c a. c \<notin> set L \<and> hk_reach E e0 (c # L, d_hooks d', tk_emu (d_tasks d')) \<and>
    runner_RegRead X (DPC D) (tk_runners (d_tasks d') ! i) = Inr addr \<and>
    runner_RegRead X (DLR D) (tk_runners (d_tasks d') ! i) = Inr a \<and>
    rn_releases (tk_runners (d_tasks d') ! i) = rn_releases (tk_runners (d_tasks d) ! i) @ [CloseCtrl c] \<and>
    handleInterrupt run runc (d_hooks d') intno (Inr (a + 4)) w = (None, runc cb i w) \<and>
    (rn_status (tk_runners (d_tasks d) ! i) = TaskStatus_Pending \<and> rn_cause (tk_runners (d_tasks d) ! i) = None \<longrightarrow>
       fst (runner_SyncRun (\<lambda>r. outcome_state (control_returned True r)) (tk_runners (d_tasks d') ! i)) = Inr None)"
proof -
  obtain s e where w: "tk_emu (d_tasks d) = (s, e)" by fastforce
  obtain c h s' e' where add: "addControl E cb i (d_hooks d) s e = Some (Ret (Inr c) (h, s', e'))"
    and d': "d_hooks d' = h" "tk_emu (d_tasks d') = (s', e')"
      "tk_runners (d_tasks d') = (tk_runners (d_tasks d))[i := appendRelease (CloseCtrl c)
          (TaskControl (ctx_at X) D (c, ctrl_Addr c h) addr (tk_runners (d_tasks d) ! i))]"
    using assms(4,8) w
    by (auto simp: dbg_CallTaskOf_def dbg_TaskControl_def attempt_def seq_def dbg_AddControl_def on_hooks_def maybe_def upd_runner_def
        on_tasks_def put_runner_def ret_def split: outcome.splits option.splits sum.splits prod.splits)
  have room: "ctrl_room E s" using assms(3) w by simp
  note inv = hk_reach_ctl [OF assms(1) [unfolded w] assms(2)]
  note A = addControl_data [OF inv assms(2) room add]
  have r: "hk_reach E e0 (c # L, h, s', e')" by (rule hr_step [OF assms(1) [unfolded w] hs_ctrl [OF room add]])
  have u: "\<forall>j \<in> set (intrHooks h). user_cb (hk_callback (hooks h ! j)) \<longrightarrow> hk_end (hooks h ! j) < hk_begin (hooks h ! j)"
    using A(6) assms(7) by auto
  have "DPC D \<noteq> DLR D" using assms(6) arch_regs by blast
  note R = called_runner [OF assms(5) this refl, of c "ctrl_Addr c h" addr "tk_runners (d_tasks d) ! i"]
  have "c \<notin> set L" using ctl_invD(4) [OF A(1)] by simp
  with r R d' assms(4) control_alone [OF r assms(2) A(4) u, of run runc intno w] A(3,5) show ?thesis
    by (intro exI [of _ c] exI [of _ "ctrl_Addr c h"]) (simp add: ctrl_Addr_def SyncRun_returned)
qed

text \<open>A task that is not running yet, on a debugger that has no control.\<close>

definition sample_dbg :: "((reg, u64) gomap, semu) dbg" where
  "sample_dbg =
     \<lparr>d_tasks = (tk_empty (mem_ctor, snd hk0))\<lparr>tk_runners :=
        [\<lparr>rn_id = 1, rn_pid = 0, rn_tc = \<lparr>TcId = 1, TcRegs = [], TcStack = 0, TcReleases = 2\<rparr>, rn_change = False,
          rn_status = TaskStatus_Pending, rn_cause = None, rn_releases = [], rn_storage = []\<rparr>]\<rparr>,
      d_main = 0, d_hooks = fst hk0, d_files = fm_ctor, d_loaded = [], d_host = host0\<rparr>"

lemma semu_regs_hold: "regs_hold semu_ctx"
  by (simp add: regs_hold_def semu_ctx_def gm_get0_def gm.get_put)

lemma call_returns_to_task_witness:
  "\<exists>d' a. dbg_CallTaskOf semu_ctx Arm64Dbg E0 7 0 0x5000 sample_dbg = Ret (Inr ()) d' \<and>
     runner_RegRead semu_ctx (DPC Arm64Dbg) (tk_runners (d_tasks d') ! 0) = Inr 0x5000 \<and>
     handleInterrupt (\<lambda>_ _ _ w. (HookResult_Next, w)) (\<lambda>cb i w. (cb, i) # w) (d_hooks d') 2 (Inr (a + 4)) [] =
       (None, [(7, 0 :: nat)])"
proof -
  have page: "\<exists>r s0 e0. mapAlloc E0 0x1000 MEM_PROT_EXEC mem_ctor (snd hk0) = (Inr r, s0, e0)"
    by (simp add: mgr_simps emu_simps E0_def hk0_fields flip: hk0_def)
  have room: "ctrl_room E0 mem_ctor" by (simp add: ctrl_room_def room_def mem_ctor_def)
  obtain r s0 e0 where "mapAlloc E0 0x1000 MEM_PROT_EXEC mem_ctor (snd hk0) = (Inr r, s0, e0)" using page by blast
  from first_control [OF E0_ctrl room hk0_fields(4) this, of 7 0]
  obtain h s e where c: "addControl E0 7 0 (fst hk0) mem_ctor (snd hk0) = Some (Ret (Inr (length (ctrls (fst hk0)))) (h, s, e))"
    by blast
  have "\<exists>d'. dbg_CallTaskOf semu_ctx Arm64Dbg E0 7 0 0x5000 sample_dbg = Ret (Inr ()) d'"
    using c by (simp add: dbg_CallTaskOf_def dbg_TaskControl_def sample_dbg_def attempt_def seq_def dbg_AddControl_def on_hooks_def
        maybe_def upd_runner_def on_tasks_def tk_empty_def ret_def)
  then obtain d' where d': "dbg_CallTaskOf semu_ctx Arm64Dbg E0 7 0 0x5000 sample_dbg = Ret (Inr ()) d'" ..
  have st: "hk_reach E0 semu0 ([], d_hooks sample_dbg, tk_emu (d_tasks sample_dbg))"
    "ctrl_room E0 (fst (tk_emu (d_tasks sample_dbg)))" "0 < length (tk_runners (d_tasks sample_dbg))"
    "intrHooks (d_hooks sample_dbg) = []"
    using hk0_reach room hk0_fields by (simp_all add: sample_dbg_def tk_empty_def)
  from call_returns_to_task [OF st(1) E0_ctrl st(2,3) semu_regs_hold _ _ d', of "\<lambda>_ _ _ w. (HookResult_Next, w)"
      "\<lambda>cb i w. (cb, i) # w" 2 "[]"] st(4) d'
  show ?thesis by auto
qed

end
