(* ===== verification/ExcText.thy ===== *)
theory ExcText
  imports Modules Hooks Task
begin

text \<open>
  What is printed of an exception (\<^verbatim>\<open>debugger/errors.go\<close>), of a set of hook types (\<^verbatim>\<open>emulator/hook.go\<close>)
  and of a task's status (\<^verbatim>\<open>debugger/task.go\<close>): the verbs of \<^verbatim>\<open>fmt.Sprintf\<close> they use are written out.
  How \<^verbatim>\<open>fmt\<close> prints the value of a panic is a parameter. The lemmas read the numbers back from the text.
\<close>

section \<open>Numbers as text\<close>

definition digit :: "nat \<Rightarrow> char" where
  "digit d = ''0123456789ABCDEF'' ! d"

fun digits :: "nat \<Rightarrow> nat \<Rightarrow> string" where
  "digits b n = (if b < 2 \<or> n < b then [digit n] else digits b (n div b) @ [digit (n mod b)])"

declare digits.simps [simp del]

text \<open>The verbs \<^verbatim>\<open>%d\<close> and \<^verbatim>\<open>%0wX\<close>: the width is a minimum.\<close>

definition fmt_d :: "u64 \<Rightarrow> string" where
  "fmt_d x = digits 10 (unat x)"

definition fmt_X :: "nat \<Rightarrow> u64 \<Rightarrow> string" where
  "fmt_X w x = (let s = digits 16 (unat x) in replicate (w - length s) CHR ''0'' @ s)"

section \<open>The texts\<close>

definition se_String :: "simulateException \<Rightarrow> string" where
  "se_String e =
     (if se_mod e = '''' then ''pc: '' @ fmt_X 16 (se_pc e)
      else ''module: '' @ se_mod e @ '', offset: '' @ fmt_X 8 (se_pc e))"

text \<open>
  The names are a map of Go, which is visited in any order: \<open>names\<close> is the order of one visit.
\<close>

definition hookTypeNames :: "(u64 \<times> string) list" where
  "hookTypeNames =
     [(push_bit 0 1, ''INTR''), (push_bit 1 1, ''INSN_INVALID''), (push_bit 2 1, ''CODE''), (push_bit 3 1, ''BLOCK''),
      (push_bit 4 1, ''MEM_READ_UNMAPPED''), (push_bit 5 1, ''MEM_WRITE_UNMAPPED''),
      (push_bit 6 1, ''MEM_FETCH_UNMAPPED''), (push_bit 7 1, ''MEM_READ_PROT''), (push_bit 8 1, ''MEM_WRITE_PROT''),
      (push_bit 9 1, ''MEM_FETCH_PROT''), (push_bit 10 1, ''MEM_READ''), (push_bit 11 1, ''MEM_WRITE''),
      (push_bit 12 1, ''MEM_FETCH''), (push_bit 13 1, ''MEM_READ_AFTER'')]"

fun str_Join :: "string list \<Rightarrow> string" where
  "str_Join [] = ''''"
| "str_Join [s] = s"
| "str_Join (s # t # ss) = s @ ''|'' @ str_Join (t # ss)"

definition HookType_String :: "(u64 \<times> string) list \<Rightarrow> u64 \<Rightarrow> string" where
  "HookType_String names ht = str_Join (map snd (filter (\<lambda>(t, s). ht AND t \<noteq> 0) names))"

text \<open>\<open>any\<close> prints the value of a panic, and \<open>raw\<close> the bytes of the stack.\<close>

fun exc_Error ::
  "(u64 \<times> string) list \<Rightarrow> (nat \<Rightarrow> string) \<Rightarrow> (byte list \<Rightarrow> string) \<Rightarrow> exception \<Rightarrow> string" where
  "exc_Error names any raw (InterruptException e intno) =
     ''[Interrupt] '' @ se_String e @ '', intno: '' @ fmt_d intno"
| "exc_Error names any raw (InvalidInstructionException e) = ''[InvalidInstruction] '' @ se_String e"
| "exc_Error names any raw (InvalidMemoryException e t addr n val) =
     ''[InvalidMemory] '' @ se_String e @ '', type: '' @ HookType_String names t @ '', addr: '' @ fmt_X 16 addr @
       '', size: '' @ fmt_d n @ '', value: '' @ fmt_d val"
| "exc_Error names any raw (PanicException e v stk) =
     ''[Panic] '' @ se_String e @ '', panic: '' @ any v @ [CHR 0x0A] @ raw stk"

definition TaskStatus_Error :: "nat \<Rightarrow> string" where
  "TaskStatus_Error s =
     (if s = TaskStatus_Pending then ''pending''
      else if s = TaskStatus_Running then ''running''
      else if s = TaskStatus_Done then ''done'' else ''unknown'')"

text \<open>The accessors; each is a method of one of the types.\<close>

fun exc_Context :: "exception \<Rightarrow> nat" where
  "exc_Context (InterruptException e intno) = se_ctx e"
| "exc_Context (InvalidInstructionException e) = se_ctx e"
| "exc_Context (InvalidMemoryException e t addr n val) = se_ctx e"
| "exc_Context (PanicException e v stk) = se_ctx e"

fun exc_Number :: "exception \<Rightarrow> u64 option" where
  "exc_Number (InterruptException e intno) = Some intno"
| "exc_Number _ = None"

text \<open>\<^verbatim>\<open>Type\<close>, \<^verbatim>\<open>Address\<close>, \<^verbatim>\<open>Size\<close> and \<^verbatim>\<open>Value\<close> of an invalid access.\<close>

fun exc_Access :: "exception \<Rightarrow> (u64 \<times> u64 \<times> u64 \<times> u64) option" where
  "exc_Access (InvalidMemoryException e t addr n val) = Some (t, addr, n, val)"
| "exc_Access _ = None"

fun exc_Panic :: "exception \<Rightarrow> nat option" where
  "exc_Panic (PanicException e v stk) = Some v"
| "exc_Panic _ = None"

section \<open>Reading numbers back\<close>

definition undigit :: "char \<Rightarrow> nat" where
  "undigit c = (if of_char c < (65 :: nat) then of_char c - 48 else of_char c - 55)"

definition read_digits :: "nat \<Rightarrow> string \<Rightarrow> nat" where
  "read_digits b s = foldl (\<lambda>a c. a * b + undigit c) 0 s"

lemma less_16: "d < 16 \<longleftrightarrow> (d :: nat) \<in> {0, 1, 2, 3, 4, 5, 6, 7, 8, 9, 10, 11, 12, 13, 14, 15}"
  by (auto; presburger)

lemma undigit_digit: "d < 16 \<Longrightarrow> undigit (digit d) = d"
  unfolding less_16 by (auto simp: undigit_def digit_def)

lemma read_snoc: "read_digits b (s @ [c]) = read_digits b s * b + undigit c"
  by (simp add: read_digits_def)

lemma read_zeros: "read_digits b (replicate k CHR ''0'' @ s) = read_digits b s"
  by (induction k) (simp_all add: read_digits_def undigit_def)

lemma read_digits_digits: "2 \<le> b \<Longrightarrow> b \<le> 16 \<Longrightarrow> read_digits b (digits b n) = n"
proof (induction b n rule: digits.induct)
  case (1 b n)
  show ?case
  proof (cases "n < b")
    case True
    with 1 show ?thesis by (subst digits.simps) (simp add: read_digits_def undigit_digit)
  next
    case False
    then have d: "digits b n = digits b (n div b) @ [digit (n mod b)]" using 1(2) by (subst digits.simps) simp
    have "n mod b < 16" using 1(2,3) by (intro less_le_trans [OF mod_less_divisor [of b n] 1(3)]) simp
    then show ?thesis using 1 False by (simp add: d read_snoc undigit_digit)
  qed
qed

lemma fmt_read: "read_digits 10 (fmt_d x) = unat x" "read_digits 16 (fmt_X w x) = unat x"
  by (simp_all add: fmt_d_def fmt_X_def Let_def read_zeros read_digits_digits)

lemma digits_length: "2 \<le> b \<Longrightarrow> n < b ^ Suc k \<Longrightarrow> length (digits b n) \<le> Suc k"
proof (induction k arbitrary: n)
  case 0
  then show ?case by (subst digits.simps) simp
next
  case (Suc k)
  have "n div b < b ^ Suc k" using Suc.prems by (simp add: less_mult_imp_div_less mult.commute)
  with Suc show ?case by (subst digits.simps) auto
qed

text \<open>An absolute address always has its sixteen digits; an offset has more than eight when it needs them.\<close>

lemma fmt_X16_length: "length (fmt_X 16 x) = 16"
proof -
  have "unat x < 16 ^ Suc 15" using unsigned_less [of x] by simp
  from digits_length [OF _ this] show ?thesis by (simp add: fmt_X_def Let_def)
qed

lemma fmt_X_inj: "fmt_X w x = fmt_X w y \<Longrightarrow> x = y"
  by (metis fmt_read(2) unsigned_word_eqI)

lemma fmt_X8_long: "length (fmt_X 8 0x100000000) = 9"
proof -
  have "digits 16 0x100000000 = ''100000000''" by (simp add: digits.simps digit_def)
  then show ?thesis by (simp add: fmt_X_def)
qed

text \<open>The text of an exception without a module holds the program counter, read from its last sixteen characters.\<close>

lemma se_String_pc:
  assumes "se_mod e = ''''"
  shows "read_digits 16 (drop 4 (se_String e)) = unat (se_pc e)"
  using assms by (simp add: se_String_def fmt_read)

lemma se_String_offset:
  assumes "se_mod e \<noteq> ''''"
  shows "read_digits 16 (drop (18 + length (se_mod e)) (se_String e)) = unat (se_pc e)"
proof -
  have "se_String e = (''module: '' @ se_mod e @ '', offset: '') @ fmt_X 8 (se_pc e)"
    using assms by (simp add: se_String_def)
  then have "drop (length (''module: '' @ se_mod e @ '', offset: '')) (se_String e) = fmt_X 8 (se_pc e)"
    by (metis append_eq_conv_conj)
  moreover have "length (''module: '' @ se_mod e @ '', offset: '') = 18 + length (se_mod e)" by simp
  ultimately show ?thesis by (simp only: fmt_read)
qed

text \<open>
  A module without a name: the address that is printed as the program counter is an offset in it.
\<close>

lemma nameless_module_pc:
  assumes "rd pcreg = Inr pc" and "FindModuleByAddr M pc loaded = Inr m" and "MName (M m) = ''''"
  shows "se_String (initException M loaded rd pcreg ctx) = ''pc: '' @ fmt_X 16 (pc - MBaseAddr (M m))"
  using assms by (simp add: initException_def se_String_def)

section \<open>The order of the names\<close>

text \<open>One type has one text, whatever the order; two types do not.\<close>

lemma hookTypeNames_single:
  "\<forall>(t, s) \<in> set hookTypeNames. filter (\<lambda>(u, r). t AND u \<noteq> 0) hookTypeNames = [(t, s)]"
  by code_simp

lemma HookType_String_single:
  assumes "mset names = mset hookTypeNames" and "(t, s) \<in> set hookTypeNames"
  shows "HookType_String names t = s"
proof -
  have "filter (\<lambda>(u, r). t AND u \<noteq> 0) hookTypeNames = [(t, s)]"
    using bspec [OF hookTypeNames_single assms(2)] by simp
  then have "mset (filter (\<lambda>(u, r). t AND u \<noteq> 0) names) = {#(t, s)#}"
    using assms(1) by (metis mset.simps mset_filter)
  then have "filter (\<lambda>(u, r). t AND u \<noteq> 0) names = [(t, s)]" by (simp flip: mset_filter)
  then show ?thesis by (simp add: HookType_String_def)
qed

lemma HookType_String_order:
  "\<exists>names. mset names = mset hookTypeNames \<and> HookType_String names 3 \<noteq> HookType_String hookTypeNames 3"
  by (rule exI [of _ "rev hookTypeNames"]) (simp add: HookType_String_def hookTypeNames_def)

end
