(* ===== verification/EncCache.thy ===== *)
theory EncCache
  imports Encoding
begin

text \<open>
  The caches of compiled encoders and decoders (\<^verbatim>\<open>getMarshalData\<close> of \<^verbatim>\<open>encoding/encode.go\<close>,
  \<^verbatim>\<open>getUnmarshalData\<close> of \<^verbatim>\<open>encoding/decode.go\<close>): a \<^verbatim>\<open>sync.Map\<close> from block size and type to what has been
  compiled. The lemmas say that a cached handler is the one \<open>encode\<close> and \<open>decode\<close> would compile, in any
  interleaving of goroutines, so that the theory \<open>Encoding\<close> can compile at every use.
\<close>

section \<open>The caches\<close>

type_synonym cache_key = "nat \<times> gotype"

text \<open>\<^verbatim>\<open>Load\<close>, and on a miss compute and \<^verbatim>\<open>Store\<close>; a type that is not supported panics before the store.\<close>

definition memo :: "('k \<Rightarrow> panic + 'd) \<Rightarrow> 'k \<Rightarrow> ('k, 'd) gomap \<Rightarrow> (panic + 'd) \<times> ('k, 'd) gomap" where
  "memo f k m =
     (case gm_get m k of
        Some d \<Rightarrow> (Inr d, m)
      | None \<Rightarrow> (case f k of Inl p \<Rightarrow> (Inl p, m) | Inr d \<Rightarrow> (Inr d, gm_set k d m)))"

definition marshal_data :: "('s, 'v) stream_ops \<Rightarrow> cache_key \<Rightarrow> panic + ('s, 'v) handler \<times> int" where
  "marshal_data S = (\<lambda>(bs, t). case encode S bs t of Inl p \<Rightarrow> Inl p | Inr (m, n) \<Rightarrow> Inr (m, ss_Size n))"

definition getMarshalData ::
  "('s, 'v) stream_ops \<Rightarrow> gotype \<Rightarrow> nat \<Rightarrow> (cache_key, ('s, 'v) handler \<times> int) gomap \<Rightarrow>
     (panic + ('s, 'v) handler \<times> int) \<times> (cache_key, ('s, 'v) handler \<times> int) gomap" where
  "getMarshalData S t bs = memo (marshal_data S) (bs, t)"

text \<open>A decoder is told by its stream whether it is \<^verbatim>\<open>fake\<close>; the cache keeps the decoder for both.\<close>

definition unmarshal_data ::
  "('s, 'v) stream_ops \<Rightarrow> cache_key \<Rightarrow> panic + (bool \<Rightarrow> panic + ('s, 'v) handler \<times> structSize) \<times> int" where
  "unmarshal_data S = (\<lambda>(bs, t). case decode S False bs t of
     Inl p \<Rightarrow> Inl p | Inr (m, n) \<Rightarrow> Inr (\<lambda>fake. decode S fake bs t, ss_Size n))"

definition getUnmarshalData ::
  "('s, 'v) stream_ops \<Rightarrow> gotype \<Rightarrow> nat \<Rightarrow>
     (cache_key, (bool \<Rightarrow> panic + ('s, 'v) handler \<times> structSize) \<times> int) gomap \<Rightarrow>
     (panic + (bool \<Rightarrow> panic + ('s, 'v) handler \<times> structSize) \<times> int) \<times>
     (cache_key, (bool \<Rightarrow> panic + ('s, 'v) handler \<times> structSize) \<times> int) gomap" where
  "getUnmarshalData S t bs = memo (unmarshal_data S) (bs, t)"

section \<open>A cache is its function\<close>

definition cache_ok :: "('k \<Rightarrow> panic + 'd) \<Rightarrow> ('k, 'd) gomap \<Rightarrow> bool" where
  "cache_ok f m \<longleftrightarrow> (\<forall>k d. gm_get m k = Some d \<longrightarrow> f k = Inr d)"

lemma cache_ok_empty: "cache_ok f []"
  by (simp add: cache_ok_def)

lemma cache_ok_set: "cache_ok f m \<Longrightarrow> f k = Inr d \<Longrightarrow> cache_ok f (gm_set k d m)"
  by (auto simp: cache_ok_def gm.get_put)

lemma memo_is: "cache_ok f m \<Longrightarrow> fst (memo f k m) = f k \<and> cache_ok f (snd (memo f k m))"
proof -
  assume m: "cache_ok f m"
  show ?thesis
  proof (cases "gm_get m k")
    case None
    with m show ?thesis by (simp add: memo_def cache_ok_set split: sum.split)
  next
    case (Some d)
    moreover have "f k = Inr d" using m Some by (simp add: cache_ok_def)
    ultimately show ?thesis using m by (simp add: memo_def)
  qed
qed

text \<open>Between its load and its store another goroutine may compile and store the same type.\<close>

datatype ('k, 'd) look = LIdle | LMissed 'k | LGot 'k "panic + 'd"

inductive memo_step :: "('k \<Rightarrow> panic + 'd) \<Rightarrow> ('k, 'd) gomap \<times> (nat \<Rightarrow> ('k, 'd) look) \<Rightarrow>
    ('k, 'd) gomap \<times> (nat \<Rightarrow> ('k, 'd) look) \<Rightarrow> bool"
  for f :: "'k \<Rightarrow> panic + 'd" where
  ms_hit: "g t = LIdle \<Longrightarrow> gm_get m k = Some d \<Longrightarrow> memo_step f (m, g) (m, g(t := LGot k (Inr d)))"
| ms_miss: "g t = LIdle \<Longrightarrow> gm_get m k = None \<Longrightarrow> memo_step f (m, g) (m, g(t := LMissed k))"
| ms_store: "g t = LMissed k \<Longrightarrow> f k = Inr d \<Longrightarrow>
    memo_step f (m, g) (gm_set k d m, g(t := LGot k (Inr d)))"
| ms_panic: "g t = LMissed k \<Longrightarrow> f k = Inl p \<Longrightarrow> memo_step f (m, g) (m, g(t := LGot k (Inl p)))"
| ms_done: "g t = LGot k r \<Longrightarrow> memo_step f (m, g) (m, g(t := LIdle))"

definition looks_ok :: "('k \<Rightarrow> panic + 'd) \<Rightarrow> ('k, 'd) gomap \<times> (nat \<Rightarrow> ('k, 'd) look) \<Rightarrow> bool" where
  "looks_ok f = (\<lambda>(m, g). cache_ok f m \<and> (\<forall>t k r. g t = LGot k r \<longrightarrow> r = f k))"

lemma memo_step_ok: "memo_step f c c' \<Longrightarrow> looks_ok f c \<Longrightarrow> looks_ok f c'"
  by (induction rule: memo_step.induct) (auto simp: looks_ok_def cache_ok_set, auto simp: cache_ok_def)

text \<open>Whatever the goroutines have done, what each gets is what the function computes.\<close>

lemma memo_interleaved:
  "(memo_step f)\<^sup>*\<^sup>* ([], \<lambda>_. LIdle) (m, g) \<Longrightarrow> g t = LGot k r \<Longrightarrow> r = f k"
proof -
  assume run: "(memo_step f)\<^sup>*\<^sup>* ([], \<lambda>_. LIdle) (m, g)" and got: "g t = LGot k r"
  have "looks_ok f ([], \<lambda>_. LIdle)" by (simp add: looks_ok_def cache_ok_empty)
  with run have "looks_ok f (m, g)"
    by (induction rule: rtranclp_induct) (blast intro: memo_step_ok)+
  with got show ?thesis by (simp add: looks_ok_def)
qed

section \<open>The encoder and the decoder through their caches\<close>

definition Encode_cached ::
  "('s, 'v) stream_ops \<Rightarrow> goany \<Rightarrow> (cache_key, ('s, 'v) handler \<times> int) gomap \<Rightarrow> (unit res, ('s \<times> 'v) \<times> host) go" where
  "Encode_cached S val m = seq get (\<lambda>((s, v), h).
     let bs = BlockSize S s; p = AnyPtr val; t = AnyType val
     in if p = 0 then enc_null S bs
        else case fst (getMarshalData S t bs m) of
          Inl c \<Rightarrow> crash c
        | Inr (m, _) \<Rightarrow> if is_pointer t \<or> one_pointer t then with_var p m else m p)"

lemma Encode_cached_is: "cache_ok (marshal_data S) m \<Longrightarrow> Encode_cached S val m = Encode S val"
proof -
  assume m: "cache_ok (marshal_data S) m"
  let ?k = "\<lambda>d. if is_pointer (AnyType val) \<or> one_pointer (AnyType val) then with_var (AnyPtr val) d else d (AnyPtr val)"
  have eq: "(case fst (getMarshalData S (AnyType val) bs m) of Inl c \<Rightarrow> crash c | Inr (d, n) \<Rightarrow> ?k d) =
      (case encode S bs (AnyType val) of Inl c \<Rightarrow> crash c | Inr (d, n) \<Rightarrow> ?k d)" for bs
    using memo_is [OF m, of "(bs, AnyType val)"]
    by (simp add: getMarshalData_def marshal_data_def split: sum.split prod.split)
  show ?thesis
    unfolding Encode_cached_def Encode_def
    by (intro arg_cong [of _ _ "seq get"] ext) (simp only: Let_def split_def eq [unfolded split_def])
qed

lemma EncodeSize_cached_is:
  "cache_ok (marshal_data S) m \<Longrightarrow> AnyPtr val \<noteq> 0 \<Longrightarrow>
   EncodeSize S bs val = map_sum id snd (fst (getMarshalData S (AnyType val) bs m))"
  by (simp add: getMarshalData_def memo_is marshal_data_def EncodeSize_def split: sum.split prod.split)

lemma DecodeSize_cached_is:
  "cache_ok (unmarshal_data S) m \<Longrightarrow> AnyPtr val \<noteq> 0 \<Longrightarrow>
   DecodeSize S bs val =
     map_sum id snd (fst (getUnmarshalData S (case AnyType val of Pointer t \<Rightarrow> t | t \<Rightarrow> t) bs m))"
  by (simp add: getUnmarshalData_def memo_is unmarshal_data_def DecodeSize_def split: sum.split prod.split)

end
